(* ===== verification/Prelude.thy ===== *)
theory Prelude
  imports Main "HOL-Library.Multiset" "HOL-Library.Sublist"
begin

text \<open>
  Shared vocabulary of the development: the result type of fallible Go functions, the
  collections the component proofs draw on, and generic lemmas on lists and maps.
\<close>

named_theorems store_simps \<open>how the operations of a keyed store act on its observers\<close>
named_theorems inv_intros \<open>introduction rules for the component invariants\<close>

type_synonym ('e, 'a) result = "'e + 'a"

abbreviation Err :: "'e \<Rightarrow> ('e, 'a) result" where "Err \<equiv> Inl"
abbreviation Ok :: "'a \<Rightarrow> ('e, 'a) result" where "Ok \<equiv> Inr"

definition is_ok :: "('e, 'a) result \<Rightarrow> bool" where
  "is_ok r = (case r of Inl _ \<Rightarrow> False | Inr _ \<Rightarrow> True)"

lemma is_ok_simps [simp]: "is_ok (Ok x)" "\<not> is_ok (Err e)"
  by (simp_all add: is_ok_def)

lemma option_eq_by_Some: "(\<And>e. r = Some e \<longleftrightarrow> r' = Some e) \<Longrightarrow> r = r'"
  by (metis not_Some_eq)

text \<open>Running a list of operations from a state.\<close>

fun run :: "('op \<Rightarrow> 's \<Rightarrow> 's) \<Rightarrow> 'op list \<Rightarrow> 's \<Rightarrow> 's" where
  "run step [] s = s"
| "run step (x # xs) s = run step xs (step x s)"

lemma run_append [simp]: "run step (xs @ ys) s = run step ys (run step xs s)"
  by (induction xs arbitrary: s) auto

lemma run_invariant:
  assumes "\<And>x s. I s \<Longrightarrow> I (step x s)" and "I s"
  shows "I (run step xs s)"
  using assms(2) by (induction xs arbitrary: s) (auto intro: assms(1))

subsection \<open>Pages of a list\<close>

lemma pages_concat_take: "concat (map (\<lambda>i. take n (drop (i * n) xs)) [0..<k]) = take (k * n) xs"
proof (induction k)
  case (Suc k)
  then show ?case by (simp add: take_add add.commute [of n])
qed simp

lemma pages_concat:
  "length xs \<le> k * n \<Longrightarrow> concat (map (\<lambda>i. take n (drop (i * n) xs)) [0..<k]) = xs"
  by (simp add: pages_concat_take)

text \<open>Rounding up the division gives enough pages.\<close>

lemma div_ceil_enough:
  fixes n :: int
  assumes "0 < n"
  shows "int h \<le> ((int h + n - 1) div n) * n"
proof -
  have "int h + n - 1 = ((int h + n - 1) div n) * n + (int h + n - 1) mod n" by simp
  moreover have "(int h + n - 1) mod n < n" using assms by simp
  ultimately show ?thesis by linarith
qed

subsection \<open>Stores of bounded weight\<close>

text \<open>
  The contract the caches and the rate limiter share: every operation keeps the store's
  invariant, and the invariant bounds the store's weight. Whatever sequence of operations
  runs, the bound then holds.
\<close>

locale bounded_store =
  fixes step :: "'op \<Rightarrow> 's \<Rightarrow> 's"
    and weight :: "'s \<Rightarrow> nat"
    and cap :: "nat"
    and inv :: "'s \<Rightarrow> bool"
  assumes step_inv: "inv s \<Longrightarrow> inv (step x s)"
    and inv_weight: "inv s \<Longrightarrow> weight s \<le> cap"
begin

lemma run_inv: "inv s \<Longrightarrow> inv (run step xs s)"
  by (rule run_invariant) (rule step_inv)

lemma run_weight: "inv s \<Longrightarrow> weight (run step xs s) \<le> cap"
  by (rule inv_weight) (rule run_inv)

end

end
