(* ===== verification/Go_Strings.thy ===== *)
theory Go_Strings
  imports Prelude "HOL-Library.Char_ord" "HOL-Library.List_Lexorder"
begin

text \<open>
  The parts of Go's standard library for strings that BlogFlow uses. A Go string is a
  sequence of bytes; here it is a \<open>string\<close>, whose characters are the bytes 0 to 255.
  Case folding, trimming and splitting are defined on bytes; where Go decodes UTF-8 first
  (white space, \<open>EqualFold\<close> against an ASCII literal) the byte-level definition gives the
  same answer, because no lead byte of the encodings concerned is a continuation byte.
\<close>

subsection \<open>Bytes\<close>

abbreviation byte :: "char \<Rightarrow> nat" where "byte c \<equiv> of_char c"

abbreviation sl :: char where "sl \<equiv> CHR ''/''"

definition to_lower_char :: "char \<Rightarrow> char" where
  "to_lower_char c = (if 65 \<le> byte c \<and> byte c \<le> 90 then char_of (byte c + 32) else c)"

definition is_digit_char :: "char \<Rightarrow> bool" where
  "is_digit_char c \<longleftrightarrow> 48 \<le> byte c \<and> byte c \<le> 57"

definition is_alpha_char :: "char \<Rightarrow> bool" where
  "is_alpha_char c \<longleftrightarrow> (97 \<le> byte c \<and> byte c \<le> 122) \<or> (65 \<le> byte c \<and> byte c \<le> 90)"

subsection \<open>Prefixes, searching, splitting\<close>

definition has_prefix :: "string \<Rightarrow> string \<Rightarrow> bool" where
  "has_prefix s p \<longleftrightarrow> take (length p) s = p"

definition has_suffix :: "string \<Rightarrow> string \<Rightarrow> bool" where
  "has_suffix s p \<longleftrightarrow> length p \<le> length s \<and> drop (length s - length p) s = p"

definition trim_prefix :: "string \<Rightarrow> string \<Rightarrow> string" where
  "trim_prefix s p = (if has_prefix s p then drop (length p) s else s)"

definition trim_suffix :: "string \<Rightarrow> string \<Rightarrow> string" where
  "trim_suffix s p = (if has_suffix s p then take (length s - length p) s else s)"

fun index_of :: "string \<Rightarrow> string \<Rightarrow> nat option" where
  "index_of [] p = (if p = [] then Some 0 else None)"
| "index_of (c # s) p =
     (if has_prefix (c # s) p then Some 0 else map_option Suc (index_of s p))"

definition contains :: "string \<Rightarrow> string \<Rightarrow> bool" where
  "contains s p \<longleftrightarrow> index_of s p \<noteq> None"

definition contains_any :: "string \<Rightarrow> string \<Rightarrow> bool" where
  "contains_any s cs \<longleftrightarrow> list_ex (\<lambda>c. c \<in> set cs) s"

fun last_index_of :: "char \<Rightarrow> string \<Rightarrow> nat option" where
  "last_index_of c [] = None"
| "last_index_of c (x # xs) =
     (case last_index_of c xs of
        Some i \<Rightarrow> Some (Suc i)
      | None \<Rightarrow> if x = c then Some 0 else None)"

fun split_on :: "char \<Rightarrow> string \<Rightarrow> string list" where
  "split_on d [] = [[]]"
| "split_on d (c # s) =
     (if c = d then [] # split_on d s
      else case split_on d s of [] \<Rightarrow> [[c]] | w # ws \<Rightarrow> (c # w) # ws)"

fun join :: "string \<Rightarrow> string list \<Rightarrow> string" where
  "join sep [] = []"
| "join sep [x] = x"
| "join sep (x # y # zs) = x @ sep @ join sep (y # zs)"

subsection \<open>White space\<close>

text \<open>
  \<open>space_prefix s\<close> is the number of bytes of the white-space rune \<open>s\<close> starts with, or 0.
  The runes are those of \<open>unicode.IsSpace\<close>: the ASCII blanks, U+0085, U+00A0, U+1680,
  U+2000 to U+200A, U+2028, U+2029, U+202F, U+205F and U+3000.
\<close>

definition is_space2 :: "nat \<Rightarrow> nat \<Rightarrow> bool" where
  "is_space2 a b \<longleftrightarrow> a = 0xC2 \<and> (b = 0x85 \<or> b = 0xA0)"

definition is_space3 :: "nat \<Rightarrow> nat \<Rightarrow> nat \<Rightarrow> bool" where
  "is_space3 a b c \<longleftrightarrow>
     (a = 0xE1 \<and> b = 0x9A \<and> c = 0x80) \<or>
     (a = 0xE2 \<and> b = 0x80 \<and> ((0x80 \<le> c \<and> c \<le> 0x8A) \<or> c = 0xA8 \<or> c = 0xA9 \<or> c = 0xAF)) \<or>
     (a = 0xE2 \<and> b = 0x81 \<and> c = 0x9F) \<or>
     (a = 0xE3 \<and> b = 0x80 \<and> c = 0x80)"

definition is_space1 :: "nat \<Rightarrow> bool" where
  "is_space1 a \<longleftrightarrow> a = 32 \<or> (9 \<le> a \<and> a \<le> 13)"

fun space_prefix :: "string \<Rightarrow> nat" where
  "space_prefix [] = 0"
| "space_prefix (a # s) =
     (if is_space1 (byte a) then 1
      else case s of
        [] \<Rightarrow> 0
      | b # s' \<Rightarrow>
          (if is_space2 (byte a) (byte b) then 2
           else case s' of [] \<Rightarrow> 0
             | c # _ \<Rightarrow> if is_space3 (byte a) (byte b) (byte c) then 3 else 0))"

lemma space_prefix_le: "space_prefix s \<le> length s"
  by (cases s rule: space_prefix.cases) (auto split: list.splits)

function trim_left :: "string \<Rightarrow> string" where
  "trim_left s = (if space_prefix s = 0 then s else trim_left (drop (space_prefix s) s))"
  by pat_completeness auto
termination
  by (relation "measure length") (auto intro: diff_less simp: space_prefix_le [THEN le_trans])

declare trim_left.simps [simp del]

text \<open>The reverse of a string, read from its end: the same runes with their bytes reversed.\<close>

fun space_suffix_rev :: "string \<Rightarrow> nat" where
  "space_suffix_rev [] = 0"
| "space_suffix_rev (a # s) =
     (if is_space1 (byte a) then 1
      else case s of
        [] \<Rightarrow> 0
      | b # s' \<Rightarrow>
          (if is_space2 (byte b) (byte a) then 2
           else case s' of [] \<Rightarrow> 0
             | c # _ \<Rightarrow> if is_space3 (byte c) (byte b) (byte a) then 3 else 0))"

lemma space_suffix_rev_le: "space_suffix_rev s \<le> length s"
  by (cases s rule: space_suffix_rev.cases) (auto split: list.splits)

function trim_right_rev :: "string \<Rightarrow> string" where
  "trim_right_rev s =
     (if space_suffix_rev s = 0 then s else trim_right_rev (drop (space_suffix_rev s) s))"
  by pat_completeness auto
termination
  by (relation "measure length") (auto intro: diff_less)

declare trim_right_rev.simps [simp del]

definition trim_space :: "string \<Rightarrow> string" where
  "trim_space s = rev (trim_right_rev (rev (trim_left s)))"

text \<open>\<open>strings.Fields\<close>: the maximal runs of non-space bytes.\<close>

function fields_aux :: "string \<Rightarrow> string \<Rightarrow> string list" where
  "fields_aux acc s =
     (let flush = (if acc = [] then [] else [rev acc]) in
      case s of
        [] \<Rightarrow> flush
      | c # t \<Rightarrow>
          (if space_prefix s = 0 then fields_aux (c # acc) t
           else flush @ fields_aux [] (drop (space_prefix s) s)))"
  by pat_completeness auto
termination
  by (relation "measure (\<lambda>(acc, s). length s)") (auto simp: diff_less)

declare fields_aux.simps [simp del]

definition fields :: "string \<Rightarrow> string list" where
  "fields s = fields_aux [] s"

subsection \<open>Case\<close>

definition to_lower_ascii :: "string \<Rightarrow> string" where
  "to_lower_ascii s = map to_lower_char s"

definition equal_fold_ascii :: "string \<Rightarrow> string \<Rightarrow> bool" where
  "equal_fold_ascii s t \<longleftrightarrow> to_lower_ascii s = to_lower_ascii t"

end
