(* ===== verification/Go_Paths.thy ===== *)
theory Go_Paths
  imports Go_Strings
begin

text \<open>
  UTF-8 decoding, slash-separated paths (\<open>path\<close>, \<open>path/filepath\<close> on Unix,
  \<open>io/fs.ValidPath\<close>) and \<open>strconv.Atoi\<close> / \<open>strconv.ParseBool\<close>.
\<close>

subsection \<open>UTF-8\<close>

text \<open>
  \<open>decode_rune s\<close> is \<open>utf8.DecodeRuneInString s\<close>: the code point \<open>s\<close> starts with and its
  width. An invalid encoding decodes to U+FFFD with width 1, the empty string to width 0.
\<close>

definition cont :: "nat \<Rightarrow> bool" where
  "cont b \<longleftrightarrow> 0x80 \<le> b \<and> b \<le> 0xBF"

definition rune_error :: nat where "rune_error = 0xFFFD"

definition dec2 :: "nat \<Rightarrow> nat \<Rightarrow> (nat \<times> nat) option" where
  "dec2 a b =
     (if 0xC2 \<le> a \<and> a \<le> 0xDF \<and> cont b then Some ((a - 0xC0) * 64 + (b - 0x80), 2) else None)"

definition dec3 :: "nat \<Rightarrow> nat \<Rightarrow> nat \<Rightarrow> (nat \<times> nat) option" where
  "dec3 a b c =
     (if 0xE0 \<le> a \<and> a \<le> 0xEF \<and> cont b \<and> cont c \<and> (a = 0xE0 \<longrightarrow> 0xA0 \<le> b) \<and> (a = 0xED \<longrightarrow> b \<le> 0x9F)
      then Some ((a - 0xE0) * 4096 + (b - 0x80) * 64 + (c - 0x80), 3) else None)"

definition dec4 :: "nat \<Rightarrow> nat \<Rightarrow> nat \<Rightarrow> nat \<Rightarrow> (nat \<times> nat) option" where
  "dec4 a b c d =
     (if 0xF0 \<le> a \<and> a \<le> 0xF4 \<and> cont b \<and> cont c \<and> cont d \<and>
         (a = 0xF0 \<longrightarrow> 0x90 \<le> b) \<and> (a = 0xF4 \<longrightarrow> b \<le> 0x8F)
      then Some ((a - 0xF0) * 262144 + (b - 0x80) * 4096 + (c - 0x80) * 64 + (d - 0x80), 4)
      else None)"

definition or_else :: "'a option \<Rightarrow> 'a option \<Rightarrow> 'a option" where
  "or_else x y = (case x of None \<Rightarrow> y | Some v \<Rightarrow> Some v)"

fun decode_multi :: "string \<Rightarrow> (nat \<times> nat) option" where
  "decode_multi (a # b # c # d # _) =
     or_else (dec2 (byte a) (byte b))
       (or_else (dec3 (byte a) (byte b) (byte c)) (dec4 (byte a) (byte b) (byte c) (byte d)))"
| "decode_multi [a, b, c] =
     or_else (dec2 (byte a) (byte b)) (dec3 (byte a) (byte b) (byte c))"
| "decode_multi [a, b] = dec2 (byte a) (byte b)"
| "decode_multi _ = None"

fun decode_rune :: "string \<Rightarrow> nat \<times> nat" where
  "decode_rune [] = (rune_error, 0)"
| "decode_rune (a # s) =
     (if byte a < 0x80 then (byte a, 1)
      else case decode_multi (a # s) of Some r \<Rightarrow> r | None \<Rightarrow> (rune_error, 1))"

lemma decode_multi_width:
  "decode_multi s = Some (r, n) \<Longrightarrow> 2 \<le> n \<and> n \<le> length s"
  by (induction s rule: decode_multi.induct)
     (auto simp: dec2_def dec3_def dec4_def or_else_def split: option.splits if_splits)

lemma decode_rune_width:
  "s \<noteq> [] \<Longrightarrow> 1 \<le> snd (decode_rune s) \<and> snd (decode_rune s) \<le> length s"
  by (cases s) (auto split: option.splits dest: decode_multi_width)

text \<open>\<open>utf8.ValidString\<close>.\<close>

function utf8_valid :: "string \<Rightarrow> bool" where
  "utf8_valid [] = True"
| "utf8_valid (a # s) =
     (if byte a < 0x80 then utf8_valid s
      else case decode_multi (a # s) of
             None \<Rightarrow> False
           | Some (r, n) \<Rightarrow> utf8_valid (drop n (a # s)))"
  by pat_completeness auto
termination
  by (relation "measure length") (auto dest!: decode_multi_width)

subsection \<open>Slash-separated paths\<close>

definition elems :: "string \<Rightarrow> string list" where
  "elems s = split_on sl s"

definition valid_path :: "string \<Rightarrow> bool" where
  "valid_path name \<longleftrightarrow>
     utf8_valid name \<and>
     (name = ''.'' \<or> list_all (\<lambda>e. e \<noteq> '''' \<and> e \<noteq> ''.'' \<and> e \<noteq> ''..'') (elems name))"

definition is_abs :: "string \<Rightarrow> bool" where
  "is_abs s \<longleftrightarrow> has_prefix s ''/''"

text \<open>\<open>path.Clean\<close>: the stack \<open>st\<close> holds the elements kept so far, last first.\<close>

fun clean_elems :: "bool \<Rightarrow> string list \<Rightarrow> string list \<Rightarrow> string list" where
  "clean_elems rooted st [] = rev st"
| "clean_elems rooted st (e # es) =
     (if e = '''' \<or> e = ''.'' then clean_elems rooted st es
      else if e = ''..'' then
        (case st of
           [] \<Rightarrow> if rooted then clean_elems rooted [] es else clean_elems rooted [''..''] es
         | x # xs \<Rightarrow>
             if x = ''..'' then clean_elems rooted (''..'' # st) es
             else clean_elems rooted xs es)
      else clean_elems rooted (e # st) es)"

definition clean :: "string \<Rightarrow> string" where
  "clean s =
     (let rooted = is_abs s; body = join ''/'' (clean_elems rooted [] (elems s)) in
      if rooted then sl # body else if body = '''' then ''.'' else body)"

definition path_join :: "string \<Rightarrow> string \<Rightarrow> string" where
  "path_join a b =
     (if a = '''' \<and> b = '''' then ''''
      else if a = '''' then clean b
      else if b = '''' then clean a
      else clean (a @ ''/'' @ b))"

text \<open>\<open>path.Base\<close> and \<open>path.Ext\<close>, both of which look at the end of the string.\<close>

definition path_base :: "string \<Rightarrow> string" where
  "path_base p =
     (if p = '''' then ''.''
      else let r = dropWhile (\<lambda>c. c = sl) (rev p) in
           if r = [] then ''/'' else rev (takeWhile (\<lambda>c. c \<noteq> sl) r))"

definition path_ext :: "string \<Rightarrow> string" where
  "path_ext p =
     (let r = takeWhile (\<lambda>c. c \<noteq> sl) (rev p) in
      if CHR ''.'' \<in> set r then CHR ''.'' # rev (takeWhile (\<lambda>c. c \<noteq> CHR ''.'') r) else '''')"

text \<open>\<open>filepath.Rel\<close> on Unix, over the elements of the two cleaned paths.\<close>

fun strip_common :: "string list \<Rightarrow> string list \<Rightarrow> string list \<times> string list" where
  "strip_common (a # as) (b # bs) = (if a = b then strip_common as bs else (a # as, b # bs))"
| "strip_common as bs = (as, bs)"

definition path_rel :: "string \<Rightarrow> string \<Rightarrow> string option" where
  "path_rel base targ =
     (let b = clean base; t = clean targ in
      if b = t then Some ''.''
      else if is_abs b \<noteq> is_abs t then None
      else let be = filter (\<lambda>e. e \<noteq> '''' \<and> e \<noteq> ''.'') (elems b);
               te = filter (\<lambda>e. e \<noteq> '''' \<and> e \<noteq> ''.'') (elems t);
               (b', t') = strip_common be te in
           if ''..'' \<in> set b' then None
           else Some (join ''/'' (replicate (length b') ''..'' @ t')))"

subsection \<open>Numbers and booleans\<close>

definition max_int :: int where "max_int = 2 ^ 63 - 1"
definition min_int :: int where "min_int = - (2 ^ 63)"

definition digits_value :: "string \<Rightarrow> int" where
  "digits_value s = foldl (\<lambda>n c. 10 * n + (int (byte c) - 48)) 0 s"

text \<open>\<open>strconv.Atoi\<close> on a 64-bit platform: \<open>None\<close> is a syntax or range error.\<close>

definition atoi :: "string \<Rightarrow> int option" where
  "atoi s =
     (let neg = has_prefix s ''-'';
          t = (if has_prefix s ''-'' \<or> has_prefix s ''+'' then drop 1 s else s) in
      if t = '''' \<or> \<not> list_all is_digit_char t then None
      else let v = (if neg then - digits_value t else digits_value t) in
           if min_int \<le> v \<and> v \<le> max_int then Some v else None)"

definition parse_bool :: "string \<Rightarrow> bool option" where
  "parse_bool s =
     (if s \<in> {''1'', ''t'', ''T'', ''true'', ''TRUE'', ''True''} then Some True
      else if s \<in> {''0'', ''f'', ''F'', ''false'', ''FALSE'', ''False''} then Some False
      else None)"

text \<open>\<open>strconv.Itoa\<close>.\<close>

fun nat_digits :: "nat \<Rightarrow> string" where
  "nat_digits n =
     (if n < 10 then [char_of (48 + n)] else nat_digits (n div 10) @ [char_of (48 + n mod 10)])"

declare nat_digits.simps [simp del]

definition itoa :: "int \<Rightarrow> string" where
  "itoa n = (if n < 0 then CHR ''-'' # nat_digits (nat (- n)) else nat_digits (nat n))"

subsection \<open>Facts about splitting\<close>

lemma split_on_nonempty [simp]: "split_on d s \<noteq> []"
  by (cases s) (auto split: list.splits)

lemma split_on_no_delim: "e \<in> set (split_on d s) \<Longrightarrow> d \<notin> set e"
proof (induction s arbitrary: e)
  case (Cons c s)
  then show ?case by (cases "split_on d s") (auto split: if_splits)
qed simp

lemma join_split_on: "join [d] (split_on d s) = s"
proof (induction s)
  case (Cons c s)
  then show ?case by (cases "split_on d s"; cases "tl (split_on d s)") auto
qed simp

lemma split_on_single: "d \<notin> set s \<Longrightarrow> split_on d s = [s]"
  by (induction s) auto

lemma split_on_append: "d \<notin> set a \<Longrightarrow> split_on d (a @ d # b) = a # split_on d b"
  by (induction a) auto

lemma has_prefix_append [simp]: "has_prefix (p @ s) p"
  by (simp add: has_prefix_def)

lemma has_prefix_iff: "has_prefix s p \<longleftrightarrow> (\<exists>t. s = p @ t)"
  by (metis append_eq_conv_conj append_take_drop_id has_prefix_def)

lemma has_prefix_Nil [simp]: "has_prefix s []"
  by (simp add: has_prefix_def)

lemma has_prefix_Cons [simp]:
  "has_prefix (c # s) (d # p) \<longleftrightarrow> c = d \<and> has_prefix s p"
  by (auto simp: has_prefix_def)

lemma has_prefix_Nil_left [simp]: "has_prefix [] p \<longleftrightarrow> p = []"
  by (auto simp: has_prefix_def)

lemma itoa_examples: "itoa 7 = ''7''" "itoa 2026 = ''2026''" "itoa (-3) = ''-3''"
  by code_simp+

lemma atoi_examples:
  "atoi ''8080'' = Some 8080" "atoi ''-3'' = Some (-3)" "atoi '''' = None" "atoi ''1x'' = None"
  by code_simp+

lemma clean_examples:
  "clean '''' = ''.''" "clean ''/healthz/'' = ''/healthz''" "clean ''//healthz'' = ''/healthz''"
  "clean ''a/../b'' = ''b''" "clean ''../a/..'' = ''..''" "clean ''/../x'' = ''/x''"
  by code_simp+

lemma valid_path_examples:
  "valid_path ''templates/base.html''" "\<not> valid_path ''/etc''" "\<not> valid_path ''a/../b''"
  "\<not> valid_path ''''" "valid_path ''.''"
  by code_simp+

lemma path_ext_examples:
  "path_ext ''posts/hello.md'' = ''.md''" "path_ext ''a.b/c'' = ''''" "path_base ''posts/hello.md'' = ''hello.md''"
  by code_simp+

end
