(* ===== verification/Layer_FS.thy ===== *)
theory Layer_FS
  imports Go_Paths
begin

text \<open>
  What the overlay sees of a filesystem layer (\<open>io/fs\<close>), the path screening of
  \<open>internal/overlayfs\<close> and the directory handle that hides \<open>.git\<close>.

  A layer is a value of Go's interface \<open>fs.FS\<close>: its operations are functions of the path,
  supplied by the operating system or by the embedded defaults. \<open>filepath.EvalSymlinks\<close> asks
  the operating system and is a parameter \<open>ev\<close>.
\<close>

subsection \<open>Errors\<close>

datatype fs_errno = ErrNotExist | ErrInvalid | ErrPermission | ErrEOF | ErrOther string

datatype fs_error =
    PathError string string fs_errno   \<comment> \<open>operation, path, cause\<close>
  | RawError fs_errno
  | ReadTooLarge nat
  | LayerOutOfRange int nat
  | CtxError string string string      \<comment> \<open>operation, path, context error\<close>

fun errno_of :: "fs_error \<Rightarrow> fs_errno option" where
  "errno_of (PathError _ _ e) = Some e"
| "errno_of (RawError e) = Some e"
| "errno_of _ = None"

definition is_not_exist :: "fs_error \<Rightarrow> bool" where
  "is_not_exist err \<longleftrightarrow> errno_of err = Some ErrNotExist"

subsection \<open>Files, directory handles, layers\<close>

record file_info =
  fi_name :: string
  fi_is_dir :: bool
  fi_size :: nat

record dir_entry =
  de_name :: string
  de_is_dir :: bool

text \<open>
  An open directory: the entries not yet read and the error its end reports, if it is not
  the end-of-directory marker. \<open>dir_read n\<close> is \<open>ReadDirFile.ReadDir(n)\<close>: everything left when
  \<open>n \<le> 0\<close>, at most \<open>n\<close> entries otherwise, and an error with an empty batch.
\<close>

record dir_handle =
  dh_rest :: "dir_entry list"
  dh_fail :: "fs_error option"

definition dir_read :: "int \<Rightarrow> dir_handle \<Rightarrow> (dir_entry list \<times> fs_error option) \<times> dir_handle" where
  "dir_read n d =
     (if n \<le> 0 then ((dh_rest d, dh_fail d), d\<lparr>dh_rest := []\<rparr>)
      else if dh_rest d = [] then
        (([], Some (case dh_fail d of None \<Rightarrow> RawError ErrEOF | Some e \<Rightarrow> e)), d)
      else ((take (nat n) (dh_rest d), None), d\<lparr>dh_rest := drop (nat n) (dh_rest d)\<rparr>))"

text \<open>
  An open file: its bytes, with the error that ends reading early if there is one, its
  \<open>Stat\<close>, its directory handle when it implements \<open>fs.ReadDirFile\<close>, and whether it is
  wrapped in \<open>gitHidingDir\<close>.
\<close>

record fs_file =
  f_bytes :: string
  f_read_err :: "fs_error option"
  f_stat :: "(fs_error, file_info) result"
  f_dir :: "dir_handle option"
  f_git_hidden :: bool

record layer =
  l_open :: "string \<Rightarrow> (fs_error, fs_file) result"
  l_stat :: "(string \<Rightarrow> (fs_error, file_info) result) option"
  l_readdir :: "string \<Rightarrow> (fs_error, dir_entry list) result"

record layer_meta =
  root_path :: string
  is_disk :: bool

definition no_meta :: layer_meta where
  "no_meta = \<lparr>root_path = '''', is_disk = False\<rparr>"

subsection \<open>Version-control metadata\<close>

definition is_git_name :: "string \<Rightarrow> bool" where
  "is_git_name e \<longleftrightarrow> equal_fold_ascii e ''.git''"

definition has_git_component :: "string \<Rightarrow> bool" where
  "has_git_component name \<longleftrightarrow> list_ex is_git_name (elems name)"

definition check_symlink_safe ::
  "(string \<Rightarrow> (fs_error, string) result) \<Rightarrow> string \<Rightarrow> string \<Rightarrow> fs_error option" where
  "check_symlink_safe ev root name =
     (if root = '''' then None
      else if has_git_component name then Some (PathError ''open'' name ErrPermission)
      else (case ev (path_join root name) of
        Inl err \<Rightarrow> (if is_not_exist err then None else Some err)
      | Inr resolved \<Rightarrow>
          (if \<not> has_prefix resolved (root @ ''/'') \<and> resolved \<noteq> root
           then Some (PathError ''open'' name ErrInvalid)
           else (case path_rel root resolved of
                   None \<Rightarrow> None
                 | Some rel \<Rightarrow>
                     (if has_git_component rel then Some (PathError ''open'' name ErrPermission)
                      else None)))))"

definition hide_git_in_dir :: "fs_file \<Rightarrow> fs_file" where
  "hide_git_in_dir f =
     (case f_dir f of
        None \<Rightarrow> f
      | Some d \<Rightarrow>
          (case f_stat f of
             Err _ \<Rightarrow> f
           | Ok info \<Rightarrow> if fi_is_dir info then f\<lparr>f_git_hidden := True\<rparr> else f))"

function git_hiding_read ::
  "int \<Rightarrow> dir_handle \<Rightarrow> (dir_entry list \<times> fs_error option) \<times> dir_handle" where
  "git_hiding_read n d =
     (let r = dir_read n d;
          err = snd (fst r);
          kept = filter (\<lambda>e. \<not> is_git_name (de_name e)) (fst (fst r)) in
      if n \<le> 0 \<or> kept \<noteq> [] \<or> err \<noteq> None then ((kept, err), snd r)
      else git_hiding_read n (snd r))"
  by pat_completeness auto
termination
  by (relation "measure (\<lambda>(n, d). length (dh_rest d))")
     (auto simp: dir_read_def Let_def split: if_splits)

declare git_hiding_read.simps [simp del]

definition file_read_dir ::
  "int \<Rightarrow> fs_file \<Rightarrow> ((dir_entry list \<times> fs_error option) \<times> fs_file) option" where
  "file_read_dir n f =
     (case f_dir f of
        None \<Rightarrow> None
      | Some d \<Rightarrow>
          (let (r, d') = (if f_git_hidden f then git_hiding_read n d else dir_read n d)
           in Some (r, f\<lparr>f_dir := Some d'\<rparr>)))"

subsection \<open>Bounded reads\<close>

definition max_read_size :: nat where
  "max_read_size = 64 * 1024 * 1024"

text \<open>
  \<open>io.ReadAll(io.LimitReader(f, n))\<close>: at most \<open>n\<close> bytes; the file's read error is met only
  when the limit lies beyond the bytes before it.
\<close>

definition read_limited :: "nat \<Rightarrow> fs_file \<Rightarrow> (fs_error, string) result" where
  "read_limited n f =
     (case f_read_err f of
        Some e \<Rightarrow> if length (f_bytes f) < n then Err e else Ok (take n (f_bytes f))
      | None \<Rightarrow> Ok (take n (f_bytes f)))"

definition read_all :: "fs_file \<Rightarrow> (fs_error, string) result" where
  "read_all f =
     (case read_limited (max_read_size + 1) f of
        Err e \<Rightarrow> Err e
      | Ok data \<Rightarrow>
          if length data > max_read_size then Err (ReadTooLarge max_read_size) else Ok data)"

subsection \<open>Rejected paths\<close>

text \<open>\<open>classifyInvalidPath\<close>: the loop over the byte positions, with the byte before.\<close>

fun has_traversal :: "char \<Rightarrow> string \<Rightarrow> bool" where
  "has_traversal prev [] = False"
| "has_traversal prev (c # rest) =
     ((c = CHR ''.'' \<and> prev = sl \<and>
        (c # rest = ''..'' \<or>
         (length (c # rest) > 2 \<and> (c # rest) ! 1 = CHR ''.'' \<and> (c # rest) ! 2 = sl)))
      \<or> has_traversal c rest)"

definition classify_invalid_path :: "string \<Rightarrow> string" where
  "classify_invalid_path name =
     (if name \<noteq> '''' \<and> hd name = sl then ''absolute''
      else if has_traversal sl name then ''traversal''
      else ''invalid'')"

subsection \<open>Facts\<close>

lemma is_git_name_dot_git [simp]: "is_git_name ''.git''" "is_git_name ''.Git''" "is_git_name ''.GIT''"
  by code_simp+

lemma git_hiding_read_clean:
  "e \<in> set (fst (fst (git_hiding_read n d))) \<Longrightarrow> \<not> is_git_name (de_name e)"
proof (induction n d rule: git_hiding_read.induct)
  case (1 n d)
  then show ?case
    by (simp only: git_hiding_read.simps [of n d] Let_def) (auto split: if_splits)
qed

lemma read_all_bound: "read_all f = Ok data \<Longrightarrow> length data \<le> max_read_size"
  by (auto simp: read_all_def split: sum.splits if_splits)

lemma has_git_component_slash:
  "sl \<notin> set a \<Longrightarrow> has_git_component (a @ sl # b) \<longleftrightarrow> is_git_name a \<or> has_git_component b"
  by (simp add: has_git_component_def elems_def split_on_append)

end
