(* ===== verification/Go_List.thy ===== *)
theory Go_List
  imports Prelude
begin

text \<open>
  Go's \<open>container/list\<close> and the way BlogFlow pairs it with a map: a \<open>map[string]*list.Element\<close>
  gives constant-time access to the elements of a recency list. An element pointer is a
  number that is never reused; the list holds its elements from front to back.
\<close>

record 'v glist =
  gl_elems :: "(nat \<times> 'v) list"
  gl_next :: nat

definition list_new :: "'v glist" where
  "list_new = \<lparr>gl_elems = [], gl_next = 0\<rparr>"

definition gl_len :: "'v glist \<Rightarrow> nat" where
  "gl_len l = length (gl_elems l)"

definition gl_push_front :: "'v \<Rightarrow> 'v glist \<Rightarrow> nat \<times> 'v glist" where
  "gl_push_front v l =
     (gl_next l, l\<lparr>gl_elems := (gl_next l, v) # gl_elems l, gl_next := Suc (gl_next l)\<rparr>)"

definition gl_remove :: "nat \<Rightarrow> 'v glist \<Rightarrow> 'v glist" where
  "gl_remove p l = l\<lparr>gl_elems := filter (\<lambda>(q, _). q \<noteq> p) (gl_elems l)\<rparr>"

definition gl_value :: "nat \<Rightarrow> 'v glist \<Rightarrow> 'v option" where
  "gl_value p l = map_of (gl_elems l) p"

definition gl_move_to_front :: "nat \<Rightarrow> 'v glist \<Rightarrow> 'v glist" where
  "gl_move_to_front p l =
     (case gl_value p l of
        None \<Rightarrow> l
      | Some v \<Rightarrow> l\<lparr>gl_elems := (p, v) # filter (\<lambda>(q, _). q \<noteq> p) (gl_elems l)\<rparr>)"

definition gl_set_value :: "nat \<Rightarrow> 'v \<Rightarrow> 'v glist \<Rightarrow> 'v glist" where
  "gl_set_value p v l = l\<lparr>gl_elems := map (\<lambda>(q, w). (q, if q = p then v else w)) (gl_elems l)\<rparr>"

definition gl_back :: "'v glist \<Rightarrow> (nat \<times> 'v) option" where
  "gl_back l = (if gl_elems l = [] then None else Some (last (gl_elems l)))"

definition gl_init :: "'v glist \<Rightarrow> 'v glist" where
  "gl_init l = l\<lparr>gl_elems := []\<rparr>"

subsection \<open>Map and list agree\<close>

text \<open>
  \<open>coherent key m l\<close>: the pointers of the list are distinct and older than the next one,
  no two values share a key, and \<open>m\<close> maps exactly the keys of the list's values, each to its
  element.
\<close>

definition coherent :: "('v \<Rightarrow> 'k) \<Rightarrow> ('k \<rightharpoonup> nat) \<Rightarrow> 'v glist \<Rightarrow> bool" where
  "coherent key m l \<longleftrightarrow>
     distinct (map fst (gl_elems l)) \<and>
     (\<forall>p \<in> fst ` set (gl_elems l). p < gl_next l) \<and>
     distinct (map (key \<circ> snd) (gl_elems l)) \<and>
     m = map_of (map (\<lambda>(p, v). (key v, p)) (gl_elems l))"

lemma coherent_new [simp, inv_intros]: "coherent key Map.empty list_new"
  by (simp add: coherent_def list_new_def)

lemma coherent_init [simp, inv_intros]: "coherent key Map.empty (gl_init l)"
  by (simp add: coherent_def gl_init_def)

lemma map_fst_swap: "map fst (map (\<lambda>(p, v). (key v, p)) xs) = map (key \<circ> snd) xs"
  by (induction xs) auto

lemma coherent_lookup:
  assumes "coherent key m l"
  shows "m k = Some p \<longleftrightarrow> (\<exists>v. (p, v) \<in> set (gl_elems l) \<and> key v = k)"
proof -
  let ?xs = "map (\<lambda>(p, v). (key v, p)) (gl_elems l)"
  have "distinct (map fst ?xs)"
    using assms by (simp only: map_fst_swap) (simp add: coherent_def)
  then have "map_of ?xs k = Some p \<longleftrightarrow> (k, p) \<in> set ?xs" by simp
  then show ?thesis using assms by (auto simp: coherent_def)
qed

lemma coherent_value:
  assumes "coherent key m l" and "m k = Some p"
  shows "\<exists>v. gl_value p l = Some v \<and> key v = k \<and> (p, v) \<in> set (gl_elems l)"
  using assms coherent_lookup [OF assms(1)]
  by (fastforce simp: gl_value_def coherent_def)

lemma coherent_dom:
  assumes "coherent key m l"
  shows "dom m = key ` snd ` set (gl_elems l)"
  using assms by (force simp: coherent_def dom_map_of_conv_image_fst image_iff)

lemma coherent_card:
  assumes "coherent key m l"
  shows "finite (dom m)" and "card (dom m) = gl_len l"
proof -
  have d: "dom m = set (map (key \<circ> snd) (gl_elems l))"
    using coherent_dom [OF assms] by (auto simp: image_comp)
  then show "finite (dom m)" by simp
  have "card (set (map (key \<circ> snd) (gl_elems l))) = length (map (key \<circ> snd) (gl_elems l))"
    using assms by (intro distinct_card) (simp add: coherent_def)
  then show "card (dom m) = gl_len l" using d by (simp add: gl_len_def)
qed

lemma map_of_filter_other:
  assumes "distinct (map fst xs)" and "distinct (map (key \<circ> snd) xs)"
  shows "map_of (map (\<lambda>(p, v). (key v, p)) (filter (\<lambda>(q, _). q \<noteq> p) xs)) k =
     (if \<exists>v. (p, v) \<in> set xs \<and> key v = k then None
      else map_of (map (\<lambda>(p, v). (key v, p)) xs) k)"
  using assms
proof (induction xs)
  case (Cons e xs)
  obtain q v where e: "e = (q, v)" by (cases e)
  show ?case
  proof (cases "q = p")
    case True
    have "key v \<notin> key ` snd ` set xs"
      using Cons.prems(2) by (auto simp: e)
    then have k: "key v = k \<Longrightarrow> map_of (map (\<lambda>(p, v). (key v, p)) xs) k = None"
      by (force simp: map_of_eq_None_iff)
    have "p \<notin> fst ` set xs" using Cons.prems(1) True by (simp add: e)
    then have "(p, w) \<notin> set xs" for w by force
    then show ?thesis using Cons True k by (auto simp: e)
  next
    case False
    have "key v \<noteq> k \<or> \<not> (\<exists>w. (p, w) \<in> set xs \<and> key w = k)"
      using Cons.prems(2) by (force simp: e)
    then show ?thesis using Cons False by (auto simp: e)
  qed
qed simp

lemma coherent_push:
  assumes "coherent key m l" and "m (key v) = None" and "gl_push_front v l = (p, l')"
  shows "coherent key (m(key v \<mapsto> p)) l'"
proof -
  have "key v \<notin> key ` snd ` set (gl_elems l)"
    using assms(2) coherent_dom [OF assms(1)] by (auto simp: domIff)
  then show ?thesis
    using assms by (force simp: coherent_def gl_push_front_def image_iff)
qed

lemma coherent_remove:
  assumes c: "coherent key m l" and "m k = Some p"
  shows "coherent key (m(k := None)) (gl_remove p l)"
proof -
  obtain v where v: "(p, v) \<in> set (gl_elems l)" "key v = k"
    using coherent_value [OF assms] by blast
  have u: "(\<exists>w. (p, w) \<in> set (gl_elems l) \<and> key w = k') \<longleftrightarrow> k' = k" for k'
    using v c by (auto simp: coherent_def dest: eq_key_imp_eq_value)
  have "m(k := None) = map_of (map (\<lambda>(p, v). (key v, p)) (filter (\<lambda>(q, _). q \<noteq> p) (gl_elems l)))"
    using c by (intro ext) (simp add: map_of_filter_other u coherent_def)
  then show ?thesis
    using c by (auto simp: coherent_def gl_remove_def intro: distinct_map_filter)
qed

lemma coherent_move:
  assumes c: "coherent key m l" and "m k = Some p"
  shows "coherent key m (gl_move_to_front p l)"
proof -
  obtain v where v: "(p, v) \<in> set (gl_elems l)" "key v = k" "gl_value p l = Some v"
    using coherent_value [OF assms] by blast
  have r: "coherent key (m(k := None)) (gl_remove p l)"
    by (rule coherent_remove [OF assms])
  have "k \<notin> dom (m(k := None))" by simp
  then have "k \<notin> key ` snd ` set (gl_elems (gl_remove p l))"
    by (simp only: coherent_dom [OF r] not_False_eq_True)
  then have "k \<notin> key ` snd ` set (filter (\<lambda>(q, _). q \<noteq> p) (gl_elems l))"
    by (simp add: gl_remove_def)
  moreover have "p < gl_next l" using v c by (force simp: coherent_def)
  moreover have "m = map_of (map (\<lambda>(p, v). (key v, p)) (gl_elems (gl_move_to_front p l)))"
  proof -
    have e: "m(k := None) =
        map_of (map (\<lambda>(p, v). (key v, p)) (filter (\<lambda>(q, _). q \<noteq> p) (gl_elems l)))"
      using r by (simp add: coherent_def gl_remove_def)
    have "m = (m(k := None))(k \<mapsto> p)" using assms(2) by (auto simp: fun_eq_iff)
    then show ?thesis
      using v unfolding e by (simp add: gl_move_to_front_def)
  qed
  moreover have "p \<notin> fst ` set (filter (\<lambda>(q, _). q \<noteq> p) (gl_elems l))"
    by auto
  ultimately show ?thesis
    using r v by (simp add: coherent_def gl_remove_def gl_move_to_front_def image_comp comp_def)
qed

lemma coherent_set_value:
  assumes c: "coherent key m l" and "m (key v) = Some p"
  shows "coherent key m (gl_set_value p v l)"
proof -
  obtain w where w: "(p, w) \<in> set (gl_elems l)" "key w = key v"
    using coherent_value [OF assms] by blast
  have same: "key (if q = p then v else x) = key x" if "(q, x) \<in> set (gl_elems l)" for q x
    using that w c by (auto simp: coherent_def dest: eq_key_imp_eq_value)
  have m1: "map fst (gl_elems (gl_set_value p v l)) = map fst (gl_elems l)"
    by (simp add: gl_set_value_def case_prod_unfold)
  have m2: "map (key \<circ> snd) (gl_elems (gl_set_value p v l)) = map (key \<circ> snd) (gl_elems l)"
    using same by (auto simp: gl_set_value_def)
  have m3: "map (\<lambda>(p, v). (key v, p)) (gl_elems (gl_set_value p v l)) =
      map (\<lambda>(p, v). (key v, p)) (gl_elems l)"
    using same by (auto simp: gl_set_value_def)
  have m4: "fst ` set (gl_elems (gl_set_value p v l)) = fst ` set (gl_elems l)"
    by (metis m1 set_map)
  show ?thesis
    using c unfolding coherent_def m1 m2 m3 m4 by (simp add: gl_set_value_def)
qed

subsection \<open>The values after each operation\<close>

lemma coherent_pointer_unique:
  assumes "coherent key m l" and "(p, v) \<in> set (gl_elems l)" and "(p, w) \<in> set (gl_elems l)"
  shows "v = w"
  using assms by (auto simp: coherent_def dest: eq_key_imp_eq_value)

lemma set_move_to_front [store_simps]:
  assumes "coherent key m l" and "m k = Some p"
  shows "set (gl_elems (gl_move_to_front p l)) = set (gl_elems l)"
proof -
  obtain v where "(p, v) \<in> set (gl_elems l)" "gl_value p l = Some v"
    using coherent_value [OF assms] by blast
  then show ?thesis
    using coherent_pointer_unique [OF assms(1)] by (auto simp: gl_move_to_front_def)
qed

lemma set_push_front [store_simps]:
  "gl_push_front v l = (p, l') \<Longrightarrow> set (gl_elems l') = insert (p, v) (set (gl_elems l))"
  by (auto simp: gl_push_front_def)

lemma set_gl_remove [store_simps]:
  "set (gl_elems (gl_remove p l)) = {e \<in> set (gl_elems l). fst e \<noteq> p}"
  by (auto simp: gl_remove_def)

lemma set_gl_set_value [store_simps]:
  "set (gl_elems (gl_set_value p v l)) =
     (\<lambda>(q, w). (q, if q = p then v else w)) ` set (gl_elems l)"
  by (simp add: gl_set_value_def)

lemma len_push_front [store_simps]:
  "gl_push_front v l = (p, l') \<Longrightarrow> gl_len l' = Suc (gl_len l)"
  by (auto simp: gl_push_front_def gl_len_def)

lemma len_set_value [store_simps]: "gl_len (gl_set_value p v l) = gl_len l"
  by (simp add: gl_set_value_def gl_len_def)

lemma len_move_to_front [store_simps]:
  assumes "coherent key m l" and "m k = Some p"
  shows "gl_len (gl_move_to_front p l) = gl_len l"
  using coherent_card(2) [OF coherent_move [OF assms]] coherent_card(2) [OF assms(1)] by simp

lemma len_gl_remove [store_simps]:
  assumes "coherent key m l" and "m k = Some p"
  shows "gl_len (gl_remove p l) = gl_len l - 1" and "0 < gl_len l"
proof -
  have "k \<in> dom m" using assms(2) by blast
  then have "card (dom (m(k := None))) = card (dom m) - 1" and "0 < card (dom m)"
    using coherent_card(1) [OF assms(1)] by (auto simp: card_gt_0_iff)
  then show "gl_len (gl_remove p l) = gl_len l - 1" and "0 < gl_len l"
    using coherent_card(2) [OF coherent_remove [OF assms]] coherent_card(2) [OF assms(1)] by simp_all
qed

lemma gl_back_member: "gl_back l = Some (p, v) \<Longrightarrow> (p, v) \<in> set (gl_elems l)"
  by (auto simp: gl_back_def split: if_splits) (metis last_in_set)

lemma gl_back_lookup:
  assumes "coherent key m l" and "gl_back l = Some (p, v)"
  shows "m (key v) = Some p"
  using coherent_lookup [OF assms(1)] gl_back_member [OF assms(2)] by blast

lemma gl_back_None: "gl_back l = None \<longleftrightarrow> gl_len l = 0"
  by (auto simp: gl_back_def gl_len_def)

subsection \<open>Map and list as one map to values\<close>

definition list_view :: "('k \<rightharpoonup> nat) \<Rightarrow> 'v glist \<Rightarrow> 'k \<rightharpoonup> 'v" where
  "list_view m l k = (case m k of None \<Rightarrow> None | Some p \<Rightarrow> gl_value p l)"

lemma list_view_iff:
  assumes "coherent key m l"
  shows "list_view m l k = Some v \<longleftrightarrow> key v = k \<and> v \<in> snd ` set (gl_elems l)"
proof
  assume "list_view m l k = Some v"
  then show "key v = k \<and> v \<in> snd ` set (gl_elems l)"
    using coherent_value [OF assms, of k] by (force simp: list_view_def split: option.splits)
next
  assume "key v = k \<and> v \<in> snd ` set (gl_elems l)"
  then obtain p where p: "(p, v) \<in> set (gl_elems l)" "key v = k" by force
  then have "m k = Some p" using coherent_lookup [OF assms] by blast
  then show "list_view m l k = Some v"
    using coherent_value [OF assms] coherent_pointer_unique [OF assms p(1)]
    by (force simp: list_view_def)
qed

lemma list_view_eqI:
  assumes "coherent key m l"
    and "\<And>v. f k = Some v \<longleftrightarrow> key v = k \<and> v \<in> snd ` set (gl_elems l)"
  shows "list_view m l k = f k"
  using assms(2) list_view_iff [OF assms(1), of k] by (cases "list_view m l k"; cases "f k") auto

lemma list_view_dom: "coherent key m l \<Longrightarrow> list_view m l k = None \<longleftrightarrow> m k = None"
  using coherent_value [of key m l k] by (force simp: list_view_def split: option.splits)

lemma list_view_push [store_simps]:
  assumes "coherent key m l" and "m (key v) = None" and "gl_push_front v l = (p, l')"
  shows "list_view (m(key v \<mapsto> p)) l' = (list_view m l)(key v \<mapsto> v)"
proof
  fix k
  note i = list_view_iff [OF assms(1), of k]
  have n: "list_view m l (key v) = None" using assms(1,2) by (simp add: list_view_dom)
  show "list_view (m(key v \<mapsto> p)) l' k = ((list_view m l)(key v \<mapsto> v)) k"
    using i n list_view_iff [OF assms(1), of "key v"]
    by (intro list_view_eqI [OF coherent_push [OF assms]]) (auto simp: set_push_front [OF assms(3)])
qed

lemma list_view_remove [store_simps]:
  assumes "coherent key m l" and "m j = Some p"
  shows "list_view (m(j := None)) (gl_remove p l) = (list_view m l)(j := None)"
proof
  fix k
  obtain w where w: "(p, w) \<in> set (gl_elems l)" "key w = j"
    using coherent_value [OF assms] by blast
  have u: "q = p \<longleftrightarrow> key v = j" if "(q, v) \<in> set (gl_elems l)" for q v
    using that w assms(2) coherent_lookup [OF assms(1)] coherent_pointer_unique [OF assms(1)] by (metis option.inject)
  show "list_view (m(j := None)) (gl_remove p l) k = ((list_view m l)(j := None)) k"
    using u list_view_iff [OF assms(1), of k]
    by (intro list_view_eqI [OF coherent_remove [OF assms]]) (force simp: set_gl_remove image_iff)
qed

lemma list_view_move [store_simps]:
  assumes "coherent key m l" and "m j = Some p"
  shows "list_view m (gl_move_to_front p l) = list_view m l"
  by (rule ext, rule list_view_eqI [OF coherent_move [OF assms]])
     (simp add: list_view_iff [OF assms(1)] set_move_to_front [OF assms])

lemma list_view_set_value [store_simps]:
  assumes "coherent key m l" and "m (key v) = Some p"
  shows "list_view m (gl_set_value p v l) = (list_view m l)(key v \<mapsto> v)"
proof
  fix k
  obtain w where w: "(p, w) \<in> set (gl_elems l)" "key w = key v"
    using coherent_value [OF assms] by blast
  have u: "q = p \<longleftrightarrow> key x = key v" if "(q, x) \<in> set (gl_elems l)" for q x
    using that w assms(2) coherent_lookup [OF assms(1)] coherent_pointer_unique [OF assms(1)] by (metis option.inject)
  have s: "y \<in> snd ` set (gl_elems (gl_set_value p v l)) \<longleftrightarrow>
      y = v \<or> y \<in> snd ` set (gl_elems l) \<and> key y \<noteq> key v" for y
  proof
    assume "y \<in> snd ` set (gl_elems (gl_set_value p v l))"
    then obtain q x where "(q, x) \<in> set (gl_elems l)" "y = (if q = p then v else x)"
      by (auto simp: set_gl_set_value)
    then show "y = v \<or> y \<in> snd ` set (gl_elems l) \<and> key y \<noteq> key v"
      using u by (force split: if_splits)
  next
    assume "y = v \<or> y \<in> snd ` set (gl_elems l) \<and> key y \<noteq> key v"
    then obtain q x where "(q, x) \<in> set (gl_elems l)" "y = (if q = p then v else x)"
      using w u by force
    then have "(q, y) \<in> set (gl_elems (gl_set_value p v l))"
      unfolding set_gl_set_value by (auto simp: image_iff intro!: bexI [of _ "(q, x)"])
    then show "y \<in> snd ` set (gl_elems (gl_set_value p v l))" by force
  qed
  show "list_view m (gl_set_value p v l) k = ((list_view m l)(key v \<mapsto> v)) k"
    using list_view_iff [OF assms(1), of k]
    by (intro list_view_eqI [OF coherent_set_value [OF assms]]) (auto simp only: s fun_upd_apply split: if_splits)
qed

text \<open>Dropping the back element, the step every eviction of the program takes.\<close>

lemma coherent_drop_back:
  assumes "coherent key m l" and "gl_back l = Some (p, v)"
  shows "coherent key (m(key v := None)) (gl_remove p l)"
    and "list_view (m(key v := None)) (gl_remove p l) = (list_view m l)(key v := None)"
    and "Suc (gl_len (gl_remove p l)) = gl_len l" and "list_view m l (key v) = Some v"
  using coherent_remove [OF assms(1) gl_back_lookup [OF assms]]
    list_view_remove [OF assms(1) gl_back_lookup [OF assms]]
    len_gl_remove [OF assms(1) gl_back_lookup [OF assms]]
    list_view_iff [OF assms(1), of "key v" v] gl_back_member [OF assms(2)]
  by (auto simp: image_iff intro: bexI [of _ "(p, v)"])

end
