(* ===== verification/Neg_Cache.thy ===== *)
theory Neg_Cache
  imports Go_List Go_Paths "HOL-Library.Word"
begin

unbundle bit_operations_syntax

text \<open>
  The overlay's negative cache (\<open>internal/overlayfs/overlayfs.go\<close>): sixteen shards, each a map
  and a recency list, a generation counter bumped by every invalidation and a size counter.
  An entry for a path records the first layer that may hold it. A nil map or list of the Go
  struct is \<open>None\<close>.
\<close>

subsection \<open>State\<close>

record neg_entry =
  first_candidate_layer :: nat

record neg_list_entry =
  ne_key :: string
  ne_value :: neg_entry

record neg_shard =
  sh_m :: "(string \<rightharpoonup> nat) option"
  sh_lru :: "neg_list_entry glist option"

record neg_cache =
  nc_shards :: "nat \<Rightarrow> neg_shard"
  nc_gen :: "64 word"
  nc_size :: int
  nc_max :: int

definition neg_shard_count :: nat where
  "neg_shard_count = 16"

definition shard_map :: "neg_shard \<Rightarrow> (string \<rightharpoonup> nat)" where
  "shard_map sh = (case sh_m sh of None \<Rightarrow> Map.empty | Some m \<Rightarrow> m)"

definition shard_lru :: "neg_shard \<Rightarrow> neg_list_entry glist" where
  "shard_lru sh = (case sh_lru sh of None \<Rightarrow> list_new | Some l \<Rightarrow> l)"

definition nil_shard :: neg_shard where
  "nil_shard = \<lparr>sh_m = None, sh_lru = None\<rparr>"

definition neg_cache_new :: "int \<Rightarrow> neg_cache" where
  "neg_cache_new mx = \<lparr>nc_shards = (\<lambda>_. nil_shard), nc_gen = 0, nc_size = 0, nc_max = mx\<rparr>"

subsection \<open>Operations\<close>

text \<open>FNV-1a over the bytes of the path, in 32-bit arithmetic.\<close>

definition fnv_step :: "32 word \<Rightarrow> char \<Rightarrow> 32 word" where
  "fnv_step h c = (h XOR of_nat (byte c)) * 16777619"

definition neg_shard_index :: "string \<Rightarrow> nat" where
  "neg_shard_index name = unat (foldl fnv_step 2166136261 name mod 16)"

definition ensure_shard :: "neg_shard \<Rightarrow> neg_shard" where
  "ensure_shard sh =
     (let sh1 = (if sh_m sh = None then sh\<lparr>sh_m := Some Map.empty\<rparr> else sh) in
      if sh_lru sh1 = None then sh1\<lparr>sh_lru := Some list_new\<rparr> else sh1)"

definition remove_element :: "string \<Rightarrow> nat \<Rightarrow> neg_shard \<Rightarrow> neg_shard" where
  "remove_element key p sh =
     sh\<lparr>sh_m := map_option (\<lambda>m. m(key := None)) (sh_m sh),
        sh_lru := map_option (gl_remove p) (sh_lru sh)\<rparr>"

definition shard_capacity :: "neg_cache \<Rightarrow> nat" where
  "shard_capacity c =
     (let n = int neg_shard_count;
          q = sgn (nc_max c) * (\<bar>nc_max c\<bar> div n);
          r = sgn (nc_max c) * (\<bar>nc_max c\<bar> mod n);
          cap = (if r \<noteq> 0 then q + 1 else q) in
      nat (if cap < 1 then 1 else cap))"

definition put_shard :: "nat \<Rightarrow> neg_shard \<Rightarrow> neg_cache \<Rightarrow> neg_cache" where
  "put_shard i sh c = c\<lparr>nc_shards := (nc_shards c)(i := sh)\<rparr>"

definition neg_cache_lookup :: "string \<Rightarrow> neg_cache \<Rightarrow> neg_entry option \<times> neg_cache" where
  "neg_cache_lookup name c =
     (let i = neg_shard_index name; sh = nc_shards c i in
      case sh_m sh of
        None \<Rightarrow> (None, c)
      | Some m \<Rightarrow>
          (case m name of
             None \<Rightarrow> (None, c)
           | Some p \<Rightarrow>
               (map_option ne_value (gl_value p (shard_lru sh)),
                put_shard i (sh\<lparr>sh_lru := map_option (gl_move_to_front p) (sh_lru sh)\<rparr>) c)))"

definition evict_oldest_entry :: "nat \<Rightarrow> neg_shard \<times> int \<Rightarrow> neg_shard \<times> int" where
  "evict_oldest_entry cap s =
     (if cap \<le> gl_len (shard_lru (fst s)) then
        (case gl_back (shard_lru (fst s)) of
           None \<Rightarrow> s
         | Some (p, e) \<Rightarrow> (remove_element (ne_key e) p (fst s), snd s - 1))
      else s)"

definition neg_cache_store :: "string \<Rightarrow> neg_entry \<Rightarrow> 64 word \<Rightarrow> neg_cache \<Rightarrow> neg_cache" where
  "neg_cache_store name entry gen c =
     (if nc_max c \<le> 0 \<or> nc_gen c \<noteq> gen then c
      else
        let i = neg_shard_index name;
            sh = ensure_shard (nc_shards c i);
            v = \<lparr>ne_key = name, ne_value = entry\<rparr> in
        case shard_map sh name of
          Some p \<Rightarrow>
            put_shard i (sh\<lparr>sh_lru :=
              map_option (\<lambda>l. gl_move_to_front p (gl_set_value p v l)) (sh_lru sh)\<rparr>) c
        | None \<Rightarrow>
            (let (sh1, n) = evict_oldest_entry (shard_capacity c) (sh, nc_size c);
                 (p, l) = gl_push_front v (shard_lru sh1);
                 sh2 = sh1\<lparr>sh_lru := Some l, sh_m := map_option (\<lambda>m. m(name \<mapsto> p)) (sh_m sh1)\<rparr>
             in (put_shard i sh2 c)\<lparr>nc_size := n + 1\<rparr>))"

text \<open>
  One shard's share of an invalidation: every entry whose first candidate layer is at or
  above \<open>idx\<close> goes. The code ranges over the map, in an order Go leaves open; here the
  elements come in list order, and \<open>purge_shard_result\<close> below shows a result no order changes.
\<close>

definition purge_shard :: "int \<Rightarrow> neg_shard \<times> int \<Rightarrow> neg_shard \<times> int" where
  "purge_shard idx s =
     foldl (\<lambda>(sh, n) (p, e).
         if int (first_candidate_layer (ne_value e)) \<ge> idx
         then (remove_element (ne_key e) p sh, n - 1) else (sh, n))
       s (gl_elems (shard_lru (fst s)))"

definition purge_step :: "int \<Rightarrow> nat \<Rightarrow> neg_cache \<Rightarrow> neg_cache" where
  "purge_step idx i c =
     (let (sh, n) = purge_shard idx (nc_shards c i, nc_size c)
      in (put_shard i sh c)\<lparr>nc_size := n\<rparr>)"

definition neg_invalidate_layer :: "int \<Rightarrow> neg_cache \<Rightarrow> neg_cache" where
  "neg_invalidate_layer idx c =
     (let c' = fold (purge_step idx) [0..<neg_shard_count] c in c'\<lparr>nc_gen := nc_gen c' + 1\<rparr>)"

definition clear_shard :: "neg_shard \<Rightarrow> neg_shard" where
  "clear_shard sh =
     sh\<lparr>sh_m := Some Map.empty,
        sh_lru := Some (case sh_lru sh of None \<Rightarrow> list_new | Some l \<Rightarrow> gl_init l)\<rparr>"

definition neg_invalidate_all :: "neg_cache \<Rightarrow> neg_cache" where
  "neg_invalidate_all c =
     c\<lparr>nc_shards := (\<lambda>i. if i < neg_shard_count then clear_shard (nc_shards c i) else nc_shards c i),
       nc_size := 0, nc_gen := nc_gen c + 1\<rparr>"

text \<open>The number of map entries of a shard, and \<open>negCacheLen\<close>, their sum.\<close>

definition shard_entries :: "neg_shard \<Rightarrow> nat" where
  "shard_entries sh = card (dom (shard_map sh))"

definition neg_cache_len :: "neg_cache \<Rightarrow> nat" where
  "neg_cache_len c = (\<Sum>i<neg_shard_count. shard_entries (nc_shards c i))"

subsection \<open>Invariant\<close>

definition shard_inv :: "neg_shard \<Rightarrow> bool" where
  "shard_inv sh \<longleftrightarrow>
     (sh_m sh = None \<longleftrightarrow> sh_lru sh = None) \<and> coherent ne_key (shard_map sh) (shard_lru sh)"

definition keys_homed :: "nat \<Rightarrow> neg_shard \<Rightarrow> bool" where
  "keys_homed i sh \<longleftrightarrow> (\<forall>k \<in> dom (shard_map sh). neg_shard_index k = i)"

definition neg_inv :: "neg_cache \<Rightarrow> bool" where
  "neg_inv c \<longleftrightarrow>
     (\<forall>i. shard_inv (nc_shards c i) \<and> keys_homed i (nc_shards c i) \<and>
          gl_len (shard_lru (nc_shards c i)) \<le> shard_capacity c) \<and>
     nc_size c = int (neg_cache_len c)"

text \<open>The cache as its clients see it: which first candidate each path has.\<close>

definition shard_view :: "neg_shard \<Rightarrow> string \<rightharpoonup> neg_entry" where
  "shard_view sh k =
     (case shard_map sh k of
        None \<Rightarrow> None
      | Some p \<Rightarrow> map_option ne_value (gl_value p (shard_lru sh)))"

definition neg_view :: "neg_cache \<Rightarrow> string \<rightharpoonup> neg_entry" where
  "neg_view c name = shard_view (nc_shards c (neg_shard_index name)) name"

lemma neg_shard_index_less: "neg_shard_index name < neg_shard_count"
proof -
  have "foldl fnv_step 2166136261 name mod 16 < (16 :: 32 word)"
    by (rule word_mod_less_divisor) simp
  then show ?thesis
    by (simp add: neg_shard_index_def neg_shard_count_def word_less_nat_alt)
qed

subsection \<open>Shards\<close>

abbreviation shard_set :: "neg_shard \<Rightarrow> (nat \<times> neg_list_entry) set" where
  "shard_set sh \<equiv> set (gl_elems (shard_lru sh))"

lemma shard_inv_coherent: "shard_inv sh \<Longrightarrow> coherent ne_key (shard_map sh) (shard_lru sh)"
  by (simp add: shard_inv_def)

lemma shard_inv_nil [simp]: "shard_inv nil_shard"
  by (simp add: shard_inv_def nil_shard_def shard_map_def shard_lru_def)

lemma shard_view_iff:
  assumes "shard_inv sh"
  shows "shard_view sh k = Some e \<longleftrightarrow> (\<exists>p. (p, \<lparr>ne_key = k, ne_value = e\<rparr>) \<in> shard_set sh)"
proof -
  note c = shard_inv_coherent [OF assms]
  show ?thesis
  proof
    assume "shard_view sh k = Some e"
    then obtain p where p: "shard_map sh k = Some p"
      and g: "map_option ne_value (gl_value p (shard_lru sh)) = Some e"
      by (auto simp: shard_view_def split: option.splits)
    obtain v where v: "gl_value p (shard_lru sh) = Some v" "ne_key v = k" "(p, v) \<in> shard_set sh"
      using coherent_value [OF c p] by blast
    then have "v = \<lparr>ne_key = k, ne_value = e\<rparr>" using g by (cases v) auto
    then show "\<exists>p. (p, \<lparr>ne_key = k, ne_value = e\<rparr>) \<in> shard_set sh" using v by blast
  next
    assume "\<exists>p. (p, \<lparr>ne_key = k, ne_value = e\<rparr>) \<in> shard_set sh"
    then obtain p where m: "(p, \<lparr>ne_key = k, ne_value = e\<rparr>) \<in> shard_set sh" by blast
    then have p: "shard_map sh k = Some p"
      using coherent_lookup [OF c, of k p] by force
    obtain v where v: "gl_value p (shard_lru sh) = Some v" "(p, v) \<in> shard_set sh"
      using coherent_value [OF c p] by blast
    then have "v = \<lparr>ne_key = k, ne_value = e\<rparr>"
      using m coherent_pointer_unique [OF c] by blast
    then show "shard_view sh k = Some e" using p v by (simp add: shard_view_def)
  qed
qed

lemma shard_view_dom: "shard_inv sh \<Longrightarrow> dom (shard_view sh) = dom (shard_map sh)"
proof -
  assume i: "shard_inv sh"
  have "(shard_view sh k = None) = (shard_map sh k = None)" for k
    using coherent_value [OF shard_inv_coherent [OF i], of k]
    by (force simp: shard_view_def split: option.splits)
  then show "dom (shard_view sh) = dom (shard_map sh)" by (auto simp: dom_def)
qed

lemma shard_entries_len: "shard_inv sh \<Longrightarrow> shard_entries sh = gl_len (shard_lru sh)"
  by (simp add: shard_entries_def coherent_card(2) [OF shard_inv_coherent])

lemma ensure_shard_inv:
  assumes "shard_inv sh"
  shows "shard_inv (ensure_shard sh)" and "shard_map (ensure_shard sh) = shard_map sh"
    and "shard_lru (ensure_shard sh) = shard_lru sh"
    and "sh_m (ensure_shard sh) = Some (shard_map sh)"
    and "sh_lru (ensure_shard sh) = Some (shard_lru sh)"
  using assms
  by (auto simp: ensure_shard_def shard_inv_def shard_map_def shard_lru_def Let_def
      split: option.splits)

lemma remove_element_map:
  "shard_map (remove_element k p sh) = (shard_map sh)(k := None)"
  by (auto simp: remove_element_def shard_map_def split: option.splits)

lemma remove_element_inv:
  assumes "shard_inv sh" and "shard_map sh k = Some p"
  shows "shard_inv (remove_element k p sh)"
    and "shard_set (remove_element k p sh) = {e \<in> shard_set sh. fst e \<noteq> p}"
    and "gl_len (shard_lru (remove_element k p sh)) + 1 = gl_len (shard_lru sh)"
proof -
  note c = shard_inv_coherent [OF assms(1)]
  have n: "sh_lru sh \<noteq> None"
    using assms by (auto simp: shard_inv_def shard_map_def)
  then have l: "shard_lru (remove_element k p sh) = gl_remove p (shard_lru sh)"
    by (cases "sh_lru sh") (simp_all add: remove_element_def shard_lru_def)
  show "shard_inv (remove_element k p sh)"
    using coherent_remove [OF c assms(2)] assms(1) l
    by (simp add: shard_inv_def remove_element_map) (simp add: remove_element_def)
  show "shard_set (remove_element k p sh) = {e \<in> shard_set sh. fst e \<noteq> p}"
    by (simp add: l store_simps)
  show "gl_len (shard_lru (remove_element k p sh)) + 1 = gl_len (shard_lru sh)"
    using len_gl_remove [OF c assms(2)] by (simp add: l)
qed

lemma keys_homed_iff:
  assumes "shard_inv sh"
  shows "keys_homed i sh \<longleftrightarrow> (\<forall>(p, e) \<in> shard_set sh. neg_shard_index (ne_key e) = i)"
  using coherent_dom [OF shard_inv_coherent [OF assms]] by (force simp: keys_homed_def)

text \<open>What a purge leaves: the elements below the layer, with the size adjusted.\<close>

definition purged :: "int \<Rightarrow> nat \<times> neg_list_entry \<Rightarrow> bool" where
  "purged idx pe \<longleftrightarrow> int (first_candidate_layer (ne_value (snd pe))) \<ge> idx"

lemma purge_fold:
  assumes "shard_inv sh" and "set xs \<subseteq> shard_set sh" and "distinct (map fst xs)"
    and "foldl (\<lambda>(sh, n) (p, e).
         if int (first_candidate_layer (ne_value e)) \<ge> idx
         then (remove_element (ne_key e) p sh, n - 1) else (sh, n)) (sh, n) xs = (sh', n')"
  shows "shard_inv sh' \<and> shard_set sh' = shard_set sh - {pe \<in> set xs. purged idx pe} \<and>
    n' - int (gl_len (shard_lru sh')) = n - int (gl_len (shard_lru sh)) \<and>
    gl_len (shard_lru sh') \<le> gl_len (shard_lru sh)"
  using assms
proof (induction xs arbitrary: sh n)
  case (Cons x xs)
  obtain p e where x: "x = (p, e)" by (cases x)
  note c = shard_inv_coherent [OF Cons.prems(1)]
  have m: "(p, e) \<in> shard_set sh" using Cons.prems(2) x by simp
  then have k: "shard_map sh (ne_key e) = Some p" using coherent_lookup [OF c] by blast
  show ?case
  proof (cases "purged idx x")
    case False
    then show ?thesis
      using Cons.IH [of sh n] Cons.prems by (auto simp: x purged_def)
  next
    case True
    note r = remove_element_inv [OF Cons.prems(1) k]
    have "p \<notin> fst ` set xs" using Cons.prems(3) by (simp add: x)
    then have sub: "set xs \<subseteq> shard_set (remove_element (ne_key e) p sh)"
      using Cons.prems(2) unfolding r(2) by force
    have "shard_set sh' = shard_set (remove_element (ne_key e) p sh) - {pe \<in> set xs. purged idx pe} \<and>
        shard_inv sh' \<and>
        n' - int (gl_len (shard_lru sh')) =
          n - 1 - int (gl_len (shard_lru (remove_element (ne_key e) p sh))) \<and>
        gl_len (shard_lru sh') \<le> gl_len (shard_lru (remove_element (ne_key e) p sh))"
      using Cons.IH [OF r(1) sub, of "n - 1"] Cons.prems(3,4) True
      by (simp add: x purged_def)
    moreover have "shard_set (remove_element (ne_key e) p sh) = shard_set sh - {x}"
      unfolding r(2) using m coherent_pointer_unique [OF c] by (force simp: x)
    ultimately show ?thesis using r(3) True by auto
  qed
qed simp

lemma purge_shard_result:
  assumes "shard_inv sh" and "purge_shard idx (sh, n) = (sh', n')"
  shows "shard_inv sh'" and "shard_set sh' = {pe \<in> shard_set sh. \<not> purged idx pe}"
    and "n' - int (gl_len (shard_lru sh')) = n - int (gl_len (shard_lru sh))"
    and "gl_len (shard_lru sh') \<le> gl_len (shard_lru sh)"
proof -
  have "distinct (map fst (gl_elems (shard_lru sh)))"
    using shard_inv_coherent [OF assms(1)] by (simp add: coherent_def)
  from purge_fold [OF assms(1) order_refl this] assms(2)
  show "shard_inv sh'" and "shard_set sh' = {pe \<in> shard_set sh. \<not> purged idx pe}"
    and "n' - int (gl_len (shard_lru sh')) = n - int (gl_len (shard_lru sh))"
    and "gl_len (shard_lru sh') \<le> gl_len (shard_lru sh)"
    unfolding purge_shard_def by auto
qed

end
