(* ===== verification/Neg_Cache_Inv.thy ===== *)
theory Neg_Cache_Inv
  imports Neg_Cache
begin

text \<open>
  Every operation of the negative cache keeps its invariant, its effect on the view, and the
  interface through which the overlay uses it: a cache that records only facts about layers
  stays correct whatever is stored, evicted or purged.
\<close>

subsection \<open>One shard of the cache replaced\<close>

lemma put_shard_simps [simp]:
  "nc_shards (put_shard i sh c) = (nc_shards c)(i := sh)"
  "nc_gen (put_shard i sh c) = nc_gen c"
  "nc_size (put_shard i sh c) = nc_size c"
  "nc_max (put_shard i sh c) = nc_max c"
  by (simp_all add: put_shard_def)

lemma shard_capacity_max: "nc_max c' = nc_max c \<Longrightarrow> shard_capacity c' = shard_capacity c"
  by (simp add: shard_capacity_def)

lemma shard_capacity_pos: "0 < shard_capacity c"
  by (simp add: shard_capacity_def Let_def)

lemma shard_capacity_positive_max:
  assumes "0 < nc_max c"
  shows "16 * int (shard_capacity c) < nc_max c + 16"
proof -
  have "(if nc_max c mod 16 \<noteq> 0 then nc_max c div 16 + 1 else nc_max c div 16) \<ge> 1 \<and>
      16 * (if nc_max c mod 16 \<noteq> 0 then nc_max c div 16 + 1 else nc_max c div 16) < nc_max c + 16"
    using assms by (auto simp: algebra_simps) presburger+
  then show ?thesis
    using assms by (simp add: shard_capacity_def Let_def neg_shard_count_def)
qed

lemma neg_cache_len_put:
  assumes "i < neg_shard_count"
  shows "int (neg_cache_len (put_shard i sh c)) =
     int (neg_cache_len c) + int (shard_entries sh) - int (shard_entries (nc_shards c i))"
proof -
  let ?f = "\<lambda>c j. shard_entries (nc_shards c j)"
  have "(\<Sum>j \<in> {..<neg_shard_count} - {i}. ?f (put_shard i sh c) j) =
      (\<Sum>j \<in> {..<neg_shard_count} - {i}. ?f c j)"
    by (rule sum.cong) auto
  then show ?thesis
    using assms unfolding neg_cache_len_def
    by (simp add: sum.remove [of "{..<neg_shard_count}" i])
qed

lemma neg_inv_shard:
  assumes "neg_inv c"
  shows "shard_inv (nc_shards c i)" and "keys_homed i (nc_shards c i)"
    and "gl_len (shard_lru (nc_shards c i)) \<le> shard_capacity c"
  using assms by (simp_all add: neg_inv_def)

lemma neg_inv_put:
  assumes "neg_inv c" and "i < neg_shard_count" and "shard_inv sh" and "keys_homed i sh"
    and "gl_len (shard_lru sh) \<le> shard_capacity c"
    and "n - int (gl_len (shard_lru sh)) = nc_size c - int (gl_len (shard_lru (nc_shards c i)))"
  shows "neg_inv ((put_shard i sh c)\<lparr>nc_size := n\<rparr>)"
proof -
  let ?c = "(put_shard i sh c)\<lparr>nc_size := n\<rparr>"
  have cap: "shard_capacity ?c = shard_capacity c" by (rule shard_capacity_max) simp
  have "int (neg_cache_len ?c) = int (neg_cache_len (put_shard i sh c))"
    by (simp add: neg_cache_len_def)
  then show ?thesis
    using assms neg_cache_len_put [OF assms(2), of sh c]
    by (auto simp: neg_inv_def cap shard_entries_len)
qed

lemma neg_inv_put_same:
  assumes "neg_inv c" and "i < neg_shard_count" and "shard_inv sh"
    and "(\<lambda>(p, e). ne_key e) ` shard_set sh \<subseteq> (\<lambda>(p, e). ne_key e) ` shard_set (nc_shards c i)"
    and "gl_len (shard_lru sh) = gl_len (shard_lru (nc_shards c i))"
  shows "neg_inv (put_shard i sh c)"
proof -
  have "keys_homed i sh"
    using assms(4) neg_inv_shard(1,2) [OF assms(1), of i] assms(3)
    by (fastforce simp: keys_homed_iff)
  then show ?thesis
    using neg_inv_put [OF assms(1-3), of "nc_size (put_shard i sh c)"] assms(5)
      neg_inv_shard(3) [OF assms(1), of i]
    by (simp del: put_shard_simps(3)) (simp add: put_shard_def)
qed

subsection \<open>Creation and lookup\<close>

lemma neg_inv_new: "neg_inv (neg_cache_new mx)"
  by (simp add: neg_inv_def neg_cache_new_def keys_homed_def neg_cache_len_def shard_entries_def)
     (simp add: nil_shard_def shard_map_def shard_lru_def list_new_def gl_len_def)

lemma neg_view_new [simp]: "neg_view (neg_cache_new mx) = Map.empty"
  by (auto simp: neg_view_def shard_view_def neg_cache_new_def nil_shard_def shard_map_def)

lemma neg_view_put:
  "neg_view (put_shard i sh c) k =
     (if neg_shard_index k = i then shard_view sh k else neg_view c k)"
  by (simp add: neg_view_def)

lemma neg_view_eq_iff:
  assumes "neg_inv c"
  shows "neg_view c k = Some e \<longleftrightarrow>
     (\<exists>p. (p, \<lparr>ne_key = k, ne_value = e\<rparr>) \<in> shard_set (nc_shards c (neg_shard_index k)))"
  by (simp add: neg_view_def shard_view_iff neg_inv_shard(1) [OF assms])

lemma touch_shard:
  assumes "shard_inv sh" and "sh_m sh = Some m" and "m name = Some p"
  defines "sh' \<equiv> sh\<lparr>sh_lru := map_option (gl_move_to_front p) (sh_lru sh)\<rparr>"
  shows "shard_inv sh'" and "shard_set sh' = shard_set sh"
    and "gl_len (shard_lru sh') = gl_len (shard_lru sh)"
proof -
  note c = shard_inv_coherent [OF assms(1)]
  obtain l where l: "sh_lru sh = Some l" using assms(1,2) by (auto simp: shard_inv_def)
  have m: "shard_map sh = m" "shard_map sh' = m" "shard_lru sh' = gl_move_to_front p (shard_lru sh)"
    using assms(2) l by (simp_all add: shard_map_def sh'_def shard_lru_def)
  have k: "shard_map sh name = Some p" using assms(3) m by simp
  show "shard_inv sh'"
    using coherent_move [OF c k] assms(2) l unfolding shard_inv_def m
    by (simp add: m sh'_def)
  show "shard_set sh' = shard_set sh" unfolding m by (rule set_move_to_front [OF c k])
  show "gl_len (shard_lru sh') = gl_len (shard_lru sh)"
    unfolding m by (rule len_move_to_front [OF c k])
qed

lemma shard_view_cong:
  "shard_inv sh \<Longrightarrow> shard_inv sh' \<Longrightarrow> shard_set sh' = shard_set sh \<Longrightarrow> shard_view sh' = shard_view sh"
  by (rule ext) (metis not_Some_eq shard_view_iff)

lemma neg_cache_lookup_spec:
  assumes "neg_inv c" and "neg_cache_lookup name c = (r, c')"
  shows "r = neg_view c name" and "neg_view c' = neg_view c" and "neg_inv c'"
    and "nc_gen c' = nc_gen c" and "nc_max c' = nc_max c" and "nc_size c' = nc_size c"
proof -
  let ?i = "neg_shard_index name"
  let ?sh = "nc_shards c ?i"
  note i = neg_inv_shard [OF assms(1), of ?i]
  show "nc_gen c' = nc_gen c" "nc_max c' = nc_max c" "nc_size c' = nc_size c"
    using assms(2) by (auto simp: neg_cache_lookup_def Let_def split: option.splits)
  have "r = neg_view c name \<and> neg_view c' = neg_view c \<and> neg_inv c'"
  proof (cases "\<exists>m p. sh_m ?sh = Some m \<and> m name = Some p")
    case True
    then obtain m p where m: "sh_m ?sh = Some m" "m name = Some p" by blast
    let ?sh' = "?sh\<lparr>sh_lru := map_option (gl_move_to_front p) (sh_lru ?sh)\<rparr>"
    note t = touch_shard [OF i(1) m]
    have c': "c' = put_shard ?i ?sh' c" and r: "r = map_option ne_value (gl_value p (shard_lru ?sh))"
      using assms(2) m by (simp_all add: neg_cache_lookup_def Let_def)
    have "neg_view c' = neg_view c"
      unfolding c' by (rule ext) (auto simp: neg_view_put shard_view_cong [OF i(1) t(1,2)] neg_view_def)
    moreover have "neg_inv c'"
      unfolding c' by (rule neg_inv_put_same [OF assms(1) neg_shard_index_less t(1)]) (simp_all add: t)
    moreover have "r = neg_view c name"
      using m by (simp add: r neg_view_def shard_view_def shard_map_def)
    ultimately show ?thesis by blast
  next
    case False
    then show ?thesis
      using assms by (auto simp: neg_cache_lookup_def Let_def neg_view_def shard_view_def shard_map_def
          split: option.splits)
  qed
  then show "r = neg_view c name" and "neg_view c' = neg_view c" and "neg_inv c'" by auto
qed

subsection \<open>Store\<close>

lemma keys_homed_subset:
  assumes "shard_inv sh" and "shard_inv sh'" and "keys_homed i sh"
    and "\<And>p e. (p, e) \<in> shard_set sh' \<Longrightarrow> neg_shard_index (ne_key e) = i \<or> (\<exists>q. (q, e) \<in> shard_set sh)"
  shows "keys_homed i sh'"
  using assms(3,4) unfolding keys_homed_iff [OF assms(1)] keys_homed_iff [OF assms(2)] by fast

lemma overwrite_shard:
  assumes "shard_inv sh" and "sh_lru sh \<noteq> None" and "shard_map sh (ne_key v) = Some p"
  defines "sh' \<equiv> sh\<lparr>sh_lru := map_option (\<lambda>l. gl_move_to_front p (gl_set_value p v l)) (sh_lru sh)\<rparr>"
  shows "shard_inv sh'" and "shard_set sh' = insert (p, v) {x \<in> shard_set sh. fst x \<noteq> p}"
    and "gl_len (shard_lru sh') = gl_len (shard_lru sh)"
proof -
  note c = shard_inv_coherent [OF assms(1)]
  have m: "shard_map sh' = shard_map sh"
    "shard_lru sh' = gl_move_to_front p (gl_set_value p v (shard_lru sh))"
    using assms(2) by (auto simp: shard_map_def sh'_def shard_lru_def)
  note c1 = coherent_set_value [OF c assms(3)]
  show "shard_inv sh'"
    using coherent_move [OF c1 assms(3)] assms(1) unfolding shard_inv_def m by (simp add: sh'_def)
  obtain w where "(p, w) \<in> shard_set sh" using coherent_value [OF c assms(3)] by blast
  then show "shard_set sh' = insert (p, v) {x \<in> shard_set sh. fst x \<noteq> p}"
    unfolding m set_move_to_front [OF c1 assms(3)] set_gl_set_value by (force simp: image_iff)
  show "gl_len (shard_lru sh') = gl_len (shard_lru sh)"
    unfolding m len_move_to_front [OF c1 assms(3)] by (rule len_set_value)
qed

lemma evict_oldest_spec:
  assumes "shard_inv sh" and "gl_len (shard_lru sh) \<le> cap" and "0 < cap"
    and "evict_oldest_entry cap (sh, n) = (sh', n')"
  shows "shard_inv sh'" and "shard_set sh' \<subseteq> shard_set sh"
    and "dom (shard_map sh') \<subseteq> dom (shard_map sh)"
    and "gl_len (shard_lru sh') < cap"
    and "n' - int (gl_len (shard_lru sh')) = n - int (gl_len (shard_lru sh))"
    and "sh_m sh' = None \<longleftrightarrow> sh_m sh = None"
proof -
  have "shard_inv sh' \<and> shard_set sh' \<subseteq> shard_set sh \<and> dom (shard_map sh') \<subseteq> dom (shard_map sh) \<and>
    gl_len (shard_lru sh') < cap \<and> (sh_m sh' = None \<longleftrightarrow> sh_m sh = None) \<and>
    n' - int (gl_len (shard_lru sh')) = n - int (gl_len (shard_lru sh))"
  proof (cases "cap \<le> gl_len (shard_lru sh)")
    case True
    then obtain p e where b: "gl_back (shard_lru sh) = Some (p, e)"
      using assms(3) gl_back_None [of "shard_lru sh"] by (cases "gl_back (shard_lru sh)") auto
    note k = gl_back_lookup [OF shard_inv_coherent [OF assms(1)] b]
    note r = remove_element_inv [OF assms(1) k]
    have "sh' = remove_element (ne_key e) p sh" "n' = n - 1"
      using assms(4) True b by (simp_all add: evict_oldest_entry_def)
    moreover have "sh_m (remove_element (ne_key e) p sh) = None \<longleftrightarrow> sh_m sh = None"
      by (simp add: remove_element_def)
    ultimately show ?thesis
      using r assms(2,3) True by (auto simp: remove_element_map)
  next
    case False
    then show ?thesis using assms by (simp add: evict_oldest_entry_def)
  qed
  then show "shard_inv sh'" and "shard_set sh' \<subseteq> shard_set sh"
    and "dom (shard_map sh') \<subseteq> dom (shard_map sh)"
    and "gl_len (shard_lru sh') < cap"
    and "n' - int (gl_len (shard_lru sh')) = n - int (gl_len (shard_lru sh))"
    and "sh_m sh' = None \<longleftrightarrow> sh_m sh = None" by auto
qed

lemma push_shard:
  assumes "shard_inv sh" and "sh_m sh = Some m" and "m (ne_key v) = None"
    and "gl_push_front v (shard_lru sh) = (p, l)"
  defines "sh' \<equiv> sh\<lparr>sh_lru := Some l, sh_m := map_option (\<lambda>m. m(ne_key v \<mapsto> p)) (sh_m sh)\<rparr>"
  shows "shard_inv sh'" and "shard_set sh' = insert (p, v) (shard_set sh)"
    and "gl_len (shard_lru sh') = Suc (gl_len (shard_lru sh))"
proof -
  have m: "shard_map sh = m" "shard_map sh' = m(ne_key v \<mapsto> p)" "shard_lru sh' = l"
    using assms(2) by (simp_all add: shard_map_def sh'_def shard_lru_def)
  show "shard_inv sh'"
    using coherent_push [OF shard_inv_coherent [OF assms(1)] _ assms(4)] assms(2,3)
    unfolding shard_inv_def m by (simp add: m sh'_def)
  show "shard_set sh' = insert (p, v) (shard_set sh)"
    unfolding m by (rule set_push_front [OF assms(4)])
  show "gl_len (shard_lru sh') = Suc (gl_len (shard_lru sh))"
    unfolding m by (rule len_push_front [OF assms(4)])
qed

text \<open>What a store that is not dropped does to the shard of its path.\<close>

lemma neg_cache_store_shard:
  assumes "neg_inv c" and "0 < nc_max c" and "nc_gen c = gen"
  shows "\<exists>sh p n. neg_cache_store name e gen c =
      (put_shard (neg_shard_index name) sh c)\<lparr>nc_size := n\<rparr> \<and>
    shard_inv sh \<and> (p, \<lparr>ne_key = name, ne_value = e\<rparr>) \<in> shard_set sh \<and>
    shard_set sh \<subseteq> insert (p, \<lparr>ne_key = name, ne_value = e\<rparr>) (shard_set (nc_shards c (neg_shard_index name))) \<and>
    gl_len (shard_lru sh) \<le> shard_capacity c \<and>
    n - int (gl_len (shard_lru sh)) =
      nc_size c - int (gl_len (shard_lru (nc_shards c (neg_shard_index name))))"
proof -
  let ?i = "neg_shard_index name" and ?v = "\<lparr>ne_key = name, ne_value = e\<rparr>"
  let ?sh = "ensure_shard (nc_shards c ?i)"
  note i = neg_inv_shard [OF assms(1), of ?i]
  note en = ensure_shard_inv [OF i(1)]
  show ?thesis
  proof (cases "shard_map ?sh name")
    case (Some p)
    let ?sh' = "?sh\<lparr>sh_lru := map_option (\<lambda>l. gl_move_to_front p (gl_set_value p ?v l)) (sh_lru ?sh)\<rparr>"
    have k: "shard_map ?sh (ne_key ?v) = Some p" using Some by simp
    note o = overwrite_shard [OF en(1) _ k]
    have nn: "sh_lru ?sh \<noteq> None" using en(5) by simp
    have "neg_cache_store name e gen c = put_shard ?i ?sh' c"
      using assms Some by (simp add: neg_cache_store_def Let_def)
    then have "neg_cache_store name e gen c = (put_shard ?i ?sh' c)\<lparr>nc_size := nc_size c\<rparr>"
      by (simp add: put_shard_def)
    then show ?thesis
      using o [OF nn] i(3) en(3) by (intro exI [of _ ?sh'] exI [of _ p] exI [of _ "nc_size c"]) auto
  next
    case None
    obtain sh1 n1 where ev: "evict_oldest_entry (shard_capacity c) (?sh, nc_size c) = (sh1, n1)"
      by (cases "evict_oldest_entry (shard_capacity c) (?sh, nc_size c)")
    note e1 = evict_oldest_spec [OF en(1) _ shard_capacity_pos ev]
    have le: "gl_len (shard_lru ?sh) \<le> shard_capacity c" using i(3) en(3) by simp
    obtain p l where pu: "gl_push_front ?v (shard_lru sh1) = (p, l)"
      by (cases "gl_push_front ?v (shard_lru sh1)")
    have "sh_m sh1 \<noteq> None" using e1(6) [OF le] en(4) by simp
    then obtain m where m: "sh_m sh1 = Some m" by blast
    have "m name = None" using e1(3) [OF le] None m by (auto simp: shard_map_def)
    then have "m (ne_key ?v) = None" by simp
    note pp = push_shard [OF e1(1) [OF le] m this pu]
    let ?sh2 = "sh1\<lparr>sh_lru := Some l, sh_m := map_option (\<lambda>m. m(ne_key ?v \<mapsto> p)) (sh_m sh1)\<rparr>"
    have "neg_cache_store name e gen c = (put_shard ?i ?sh2 c)\<lparr>nc_size := n1 + 1\<rparr>"
      using assms None ev pu by (simp add: neg_cache_store_def Let_def)
    moreover have "shard_set ?sh2 \<subseteq> insert (p, ?v) (shard_set (nc_shards c ?i))"
      using pp(2) e1(2) [OF le] en(3) by auto
    moreover have "n1 + 1 - int (gl_len (shard_lru ?sh2)) =
        nc_size c - int (gl_len (shard_lru (nc_shards c ?i)))"
      using pp(3) e1(5) [OF le] en(3) by simp
    ultimately show ?thesis
      using pp e1(4) [OF le] by (intro exI [of _ ?sh2] exI [of _ p] exI [of _ "n1 + 1"]) auto
  qed
qed

lemma neg_cache_store_dropped:
  "nc_max c \<le> 0 \<or> nc_gen c \<noteq> gen \<Longrightarrow> neg_cache_store name e gen c = c"
  by (simp add: neg_cache_store_def)

lemma neg_cache_store_inv:
  assumes "neg_inv c"
  shows "neg_inv (neg_cache_store name e gen c)"
proof (cases "0 < nc_max c \<and> nc_gen c = gen")
  case True
  let ?i = "neg_shard_index name"
  obtain sh p n where s: "neg_cache_store name e gen c = (put_shard ?i sh c)\<lparr>nc_size := n\<rparr>"
    "shard_inv sh" "shard_set sh \<subseteq> insert (p, \<lparr>ne_key = name, ne_value = e\<rparr>) (shard_set (nc_shards c ?i))"
    "gl_len (shard_lru sh) \<le> shard_capacity c"
    "n - int (gl_len (shard_lru sh)) = nc_size c - int (gl_len (shard_lru (nc_shards c ?i)))"
    using neg_cache_store_shard [OF assms] True by metis
  have "keys_homed ?i sh"
    by (rule keys_homed_subset [OF neg_inv_shard(1) [OF assms] s(2) neg_inv_shard(2) [OF assms]])
       (use s(3) in auto)
  then show ?thesis
    unfolding s(1) by (rule neg_inv_put [OF assms neg_shard_index_less s(2) _ s(4,5)])
next
  case False
  then show ?thesis using assms by (simp add: neg_cache_store_dropped not_less)
qed

lemma neg_cache_store_view:
  assumes "neg_inv c" and "neg_view (neg_cache_store name e gen c) k = Some e'"
  shows "neg_view c k = Some e' \<or> (k = name \<and> e' = e \<and> nc_gen c = gen)"
proof (cases "0 < nc_max c \<and> nc_gen c = gen")
  case True
  let ?i = "neg_shard_index name"
  obtain sh p n where s: "neg_cache_store name e gen c = (put_shard ?i sh c)\<lparr>nc_size := n\<rparr>"
    "shard_inv sh" "shard_set sh \<subseteq> insert (p, \<lparr>ne_key = name, ne_value = e\<rparr>) (shard_set (nc_shards c ?i))"
    using neg_cache_store_shard [OF assms(1)] True by metis
  have v: "neg_view (neg_cache_store name e gen c) k =
      (if neg_shard_index k = ?i then shard_view sh k else neg_view c k)"
    by (simp add: s(1) neg_view_def)
  show ?thesis
  proof (cases "neg_shard_index k = ?i")
    case same: True
    then have "shard_view sh k = Some e'" using assms(2) v by simp
    then obtain q where q: "(q, \<lparr>ne_key = k, ne_value = e'\<rparr>) \<in> shard_set sh"
      using shard_view_iff [OF s(2)] by blast
    show ?thesis
    proof (cases "k = name \<and> e' = e")
      case False
      then have "(q, \<lparr>ne_key = k, ne_value = e'\<rparr>) \<in> shard_set (nc_shards c (neg_shard_index k))"
        using q s(3) same by auto
      then show ?thesis using neg_view_eq_iff [OF assms(1)] by blast
    qed (use True in simp)
  qed (use assms(2) v in simp)
qed (use assms(2) in \<open>simp add: neg_cache_store_dropped not_less\<close>)

lemma neg_cache_store_hit:
  assumes "neg_inv c" and "0 < nc_max c"
  shows "neg_view (neg_cache_store name e (nc_gen c) c) name = Some e"
proof -
  let ?i = "neg_shard_index name"
  obtain sh p n where "neg_cache_store name e (nc_gen c) c = (put_shard ?i sh c)\<lparr>nc_size := n\<rparr>"
    "shard_inv sh" "(p, \<lparr>ne_key = name, ne_value = e\<rparr>) \<in> shard_set sh"
    using neg_cache_store_shard [OF assms refl] by metis
  then show ?thesis by (auto simp: neg_view_def shard_view_iff)
qed

lemma neg_cache_store_gen [simp]:
  "nc_gen (neg_cache_store name e gen c) = nc_gen c"
  "nc_max (neg_cache_store name e gen c) = nc_max c"
  by (simp_all add: neg_cache_store_def Let_def split: option.split prod.split)

subsection \<open>Invalidation\<close>

definition purge_view :: "int \<Rightarrow> neg_entry option \<Rightarrow> neg_entry option" where
  "purge_view idx r =
     (case r of None \<Rightarrow> None
      | Some e \<Rightarrow> if int (first_candidate_layer e) \<ge> idx then None else Some e)"

lemma purge_view_Some [simp]:
  "purge_view idx r = Some e \<longleftrightarrow> r = Some e \<and> int (first_candidate_layer e) < idx"
  by (auto simp: purge_view_def split: option.splits)

lemma purge_view_idem [simp]: "purge_view idx (purge_view idx r) = purge_view idx r"
  by (auto simp: purge_view_def split: option.splits)



lemma purge_step_spec:
  assumes "neg_inv c" and "i < neg_shard_count"
  shows "neg_inv (purge_step idx i c)"
    and "neg_view (purge_step idx i c) k =
      (if neg_shard_index k = i then purge_view idx (neg_view c k) else neg_view c k)"
    and "nc_gen (purge_step idx i c) = nc_gen c" and "nc_max (purge_step idx i c) = nc_max c"
proof -
  obtain sh n where p: "purge_shard idx (nc_shards c i, nc_size c) = (sh, n)"
    by (cases "purge_shard idx (nc_shards c i, nc_size c)")
  note i = neg_inv_shard [OF assms(1), of i]
  note r = purge_shard_result [OF i(1) p]
  have c': "purge_step idx i c = (put_shard i sh c)\<lparr>nc_size := n\<rparr>"
    by (simp add: purge_step_def p)
  show "nc_gen (purge_step idx i c) = nc_gen c" "nc_max (purge_step idx i c) = nc_max c"
    by (simp_all add: c')
  have "keys_homed i sh"
    by (rule keys_homed_subset [OF i(1) r(1) i(2)]) (use r(2) in auto)
  then show "neg_inv (purge_step idx i c)"
    unfolding c' by (rule neg_inv_put [OF assms r(1)]) (use r(3,4) i(3) in auto)
  have "shard_view sh k = purge_view idx (shard_view (nc_shards c i) k)"
    by (rule option_eq_by_Some) (auto simp: shard_view_iff [OF r(1)] shard_view_iff [OF i(1)] r(2) purged_def)
  then show "neg_view (purge_step idx i c) k =
      (if neg_shard_index k = i then purge_view idx (neg_view c k) else neg_view c k)"
    by (simp add: c' neg_view_def)
qed

lemma purge_fold_spec:
  assumes "neg_inv c" and "set is \<subseteq> {..<neg_shard_count}"
  shows "neg_inv (fold (purge_step idx) is c) \<and>
    neg_view (fold (purge_step idx) is c) k =
      (if neg_shard_index k \<in> set is then purge_view idx (neg_view c k) else neg_view c k) \<and>
    nc_gen (fold (purge_step idx) is c) = nc_gen c \<and>
    nc_max (fold (purge_step idx) is c) = nc_max c"
  using assms
proof (induction "is" arbitrary: c)
  case (Cons i "is")
  then have "i < neg_shard_count" by simp
  note p = purge_step_spec [OF Cons.prems(1) this, of idx]
  show ?case using Cons.IH [OF p(1)] Cons.prems(2) by (simp add: p)
qed simp

lemma neg_inv_gen [simp]: "neg_inv (c\<lparr>nc_gen := g\<rparr>) = neg_inv c"
  by (simp add: neg_inv_def neg_cache_len_def shard_capacity_def)

lemma neg_view_gen [simp]: "neg_view (c\<lparr>nc_gen := g\<rparr>) = neg_view c"
  by (simp add: neg_view_def fun_eq_iff)

lemma neg_invalidate_layer_spec:
  assumes "neg_inv c"
  shows "neg_inv (neg_invalidate_layer idx c)"
    and "neg_view (neg_invalidate_layer idx c) k = purge_view idx (neg_view c k)"
    and "nc_gen (neg_invalidate_layer idx c) = nc_gen c + 1"
    and "nc_max (neg_invalidate_layer idx c) = nc_max c"
  using purge_fold_spec [OF assms, of "[0..<neg_shard_count]" idx k, unfolded set_upt atLeast0LessThan]
    neg_shard_index_less [of k]
  by (auto simp: neg_invalidate_layer_def Let_def)

lemma clear_shard_simps:
  "shard_map (clear_shard sh) = Map.empty" "gl_elems (shard_lru (clear_shard sh)) = []"
  "shard_inv (clear_shard sh)"
  by (auto simp: clear_shard_def shard_map_def shard_lru_def shard_inv_def coherent_def
      list_new_def gl_init_def split: option.splits)

lemma neg_invalidate_all_spec:
  assumes "neg_inv c"
  shows "neg_inv (neg_invalidate_all c)" and "neg_view (neg_invalidate_all c) = Map.empty"
    and "nc_gen (neg_invalidate_all c) = nc_gen c + 1"
    and "nc_max (neg_invalidate_all c) = nc_max c"
proof -
  have "neg_cache_len (neg_invalidate_all c) = 0"
    by (simp add: neg_cache_len_def neg_invalidate_all_def shard_entries_def clear_shard_simps)
  then show "neg_inv (neg_invalidate_all c)"
    using neg_inv_shard [OF assms]
    by (simp add: neg_inv_def neg_invalidate_all_def keys_homed_def clear_shard_simps
        shard_capacity_def gl_len_def)
  show "neg_view (neg_invalidate_all c) = Map.empty"
    using neg_shard_index_less
    by (auto simp: neg_view_def neg_invalidate_all_def shard_view_def clear_shard_simps)
qed (simp_all add: neg_invalidate_all_def)

subsection \<open>The interface the overlay relies on\<close>

text \<open>
  A view is sound for a family of facts \<open>absent k n\<close> (path \<open>k\<close> is in none of the first \<open>n\<close>
  layers) when every entry of it states one of them.
\<close>

definition view_sound :: "('k \<Rightarrow> nat \<Rightarrow> bool) \<Rightarrow> ('e \<Rightarrow> nat) \<Rightarrow> ('k \<rightharpoonup> 'e) \<Rightarrow> bool" where
  "view_sound absent level v \<longleftrightarrow> (\<forall>k e. v k = Some e \<longrightarrow> absent k (level e))"

locale negative_cache =
  fixes lookup :: "'k \<Rightarrow> 'c \<Rightarrow> 'e option \<times> 'c"
    and store :: "'k \<Rightarrow> 'e \<Rightarrow> 'g \<Rightarrow> 'c \<Rightarrow> 'c"
    and purge :: "int \<Rightarrow> 'c \<Rightarrow> 'c"
    and clear :: "'c \<Rightarrow> 'c"
    and view :: "'c \<Rightarrow> 'k \<rightharpoonup> 'e"
    and gen :: "'c \<Rightarrow> 'g"
    and inv :: "'c \<Rightarrow> bool"
    and level :: "'e \<Rightarrow> nat"
  assumes lookup_law: "inv c \<Longrightarrow> lookup k c = (r, c') \<Longrightarrow>
      r = view c k \<and> view c' = view c \<and> inv c' \<and> gen c' = gen c"
    and store_law: "inv c \<Longrightarrow> view (store k e g c) j = Some d \<Longrightarrow>
      view c j = Some d \<or> j = k \<and> d = e \<and> gen c = g"
    and store_inv: "inv c \<Longrightarrow> inv (store k e g c)"
    and purge_law: "inv c \<Longrightarrow> view (purge i c) k = Some e \<Longrightarrow> view c k = Some e \<and> int (level e) < i"
    and purge_inv: "inv c \<Longrightarrow> inv (purge i c)"
    and clear_law: "inv c \<Longrightarrow> view (clear c) = Map.empty"
    and clear_inv: "inv c \<Longrightarrow> inv (clear c)"
begin

definition sound :: "('k \<Rightarrow> nat \<Rightarrow> bool) \<Rightarrow> 'c \<Rightarrow> bool" where
  "sound absent c \<longleftrightarrow> inv c \<and> view_sound absent level (view c)"

lemma sound_lookup:
  assumes "sound absent c" and "lookup k c = (r, c')"
  shows "sound absent c' \<and> gen c' = gen c \<and> (\<forall>e. r = Some e \<longrightarrow> absent k (level e))"
  using assms lookup_law [OF _ assms(2)] by (auto simp: sound_def view_sound_def)

lemma sound_store:
  assumes "sound absent c" and "gen c = g \<Longrightarrow> absent k (level e)"
  shows "sound absent (store k e g c)"
proof -
  have "absent j (level d)" if "view (store k e g c) j = Some d" for j d
    using store_law [OF _ that] assms by (auto simp: sound_def view_sound_def)
  then show ?thesis using assms store_inv [of c k e g] by (simp add: sound_def view_sound_def)
qed

lemma sound_purge:
  assumes "sound absent c" and "\<And>k n. int n < i \<Longrightarrow> absent k n \<Longrightarrow> absent' k n"
  shows "sound absent' (purge i c)"
  using assms purge_law [of c i] purge_inv [of c] by (fastforce simp: sound_def view_sound_def)

lemma sound_clear: "inv c \<Longrightarrow> sound absent (clear c)"
  by (simp add: sound_def view_sound_def clear_law clear_inv)

end

interpretation nc: negative_cache neg_cache_lookup neg_cache_store neg_invalidate_layer
  neg_invalidate_all neg_view nc_gen neg_inv first_candidate_layer
proof (unfold_locales, goal_cases)
  case (1 c k r c')
  then show ?case using neg_cache_lookup_spec by metis
next
  case (2 c k e g j d)
  then show ?case by (rule neg_cache_store_view)
next
  case (4 c i k e)
  then show ?case by (simp add: neg_invalidate_layer_spec)
qed (simp_all add: neg_cache_store_inv neg_invalidate_layer_spec neg_invalidate_all_spec)

text \<open>The cache as a store of bounded weight, over any sequence of its operations.\<close>

datatype neg_op =
    LookupOp string
  | StoreOp string nat "64 word"
  | PurgeOp int
  | ClearOp

fun neg_step :: "neg_op \<Rightarrow> neg_cache \<Rightarrow> neg_cache" where
  "neg_step (LookupOp k) c = snd (neg_cache_lookup k c)"
| "neg_step (StoreOp k n g) c = neg_cache_store k \<lparr>first_candidate_layer = n\<rparr> g c"
| "neg_step (PurgeOp i) c = neg_invalidate_layer i c"
| "neg_step ClearOp c = neg_invalidate_all c"

lemma neg_step_inv: "neg_inv c \<Longrightarrow> neg_inv (neg_step x c) \<and> nc_max (neg_step x c) = nc_max c"
  by (cases x) (simp_all add: neg_cache_store_inv neg_invalidate_layer_spec neg_invalidate_all_spec
      neg_cache_lookup_spec [OF _ prod.collapse [symmetric]])

lemma neg_inv_len:
  assumes "neg_inv c"
  shows "neg_cache_len c \<le> 16 * shard_capacity c"
proof -
  have "neg_cache_len c \<le> (\<Sum>i<neg_shard_count. shard_capacity c)"
    unfolding neg_cache_len_def
    by (rule sum_mono) (simp add: shard_entries_len neg_inv_shard [OF assms])
  then show ?thesis by (simp add: neg_shard_count_def)
qed

definition neg_room :: "int \<Rightarrow> nat" where
  "neg_room mx = 16 * shard_capacity (neg_cache_new mx)"

interpretation nb: bounded_store neg_step neg_cache_len "neg_room mx" "\<lambda>c. neg_inv c \<and> nc_max c = mx"
  for mx
proof (unfold_locales, goal_cases)
  case (2 c)
  then have "shard_capacity c = shard_capacity (neg_cache_new mx)"
    by (intro shard_capacity_max) (simp add: neg_cache_new_def)
  then show ?case using neg_inv_len [of c] 2 by (simp add: neg_room_def)
qed (simp add: neg_step_inv)

text \<open>
  C26. Whatever lookups, stores, layer invalidations and clears run, on a cache configured for
  \<open>mx > 0\<close> entries, the number of entries kept stays below \<open>mx + 16\<close>, and the size counter
  the code reads is exactly that number.
\<close>

theorem neg_cache_bounded:
  assumes "0 < mx"
  shows "int (neg_cache_len (run neg_step ops (neg_cache_new mx))) < mx + 16 \<and>
    nc_size (run neg_step ops (neg_cache_new mx)) =
      int (neg_cache_len (run neg_step ops (neg_cache_new mx)))"
proof -
  have i: "neg_inv (neg_cache_new mx) \<and> nc_max (neg_cache_new mx) = mx"
    by (simp add: neg_inv_new) (simp add: neg_cache_new_def)
  have "int (neg_room mx) < mx + 16"
    using shard_capacity_positive_max [of "neg_cache_new mx"] i assms by (simp add: neg_room_def)
  then show ?thesis
    using nb.run_weight [OF i, of ops] nb.run_inv [OF i, of ops] by (simp add: neg_inv_def)
qed

theorem neg_cache_bounded_witness:
  "int (neg_cache_len (run neg_step [StoreOp ''a'' 1 0, PurgeOp 1] (neg_cache_new 4))) < 4 + 16"
  using neg_cache_bounded [of 4 "[StoreOp ''a'' 1 0, PurgeOp 1]"] by simp

end
