(* ===== verification/Overlay.thy ===== *)
theory Overlay
  imports Layer_FS Neg_Cache_Inv "HOL-Library.List_Lexorder" "HOL-Library.Char_ord"
begin

text \<open>
  The layered filesystem of \<open>internal/overlayfs/overlayfs.go\<close>: its state, its operations in the
  order the code has them, and the Prometheus counters they move (\<open>metrics.go\<close>). Each
  operation runs to completion here; \<open>Overlay_Race\<close> interleaves them. Clocks only feed
  the duration histogram, of which the model keeps the number of observations.
\<close>

subsection \<open>State\<close>

record overlay_metrics =
  m_resolve :: "string \<Rightarrow> nat"
  m_layer_hit :: "string \<Rightarrow> nat"
  m_miss :: nat
  m_neg_hit :: nat
  m_rejected :: "string \<Rightarrow> nat"

definition zero_metrics :: overlay_metrics where
  "zero_metrics = \<lparr>m_resolve = (\<lambda>_. 0), m_layer_hit = (\<lambda>_. 0), m_miss = 0, m_neg_hit = 0,
     m_rejected = (\<lambda>_. 0)\<rparr>"

record overlay =
  ov_layers :: "layer list"
  ov_names :: "string list"
  ov_metas :: "layer_meta list"
  ov_neg :: neg_cache
  ov_metrics :: "overlay_metrics option"

record resolution =
  res_path :: string
  res_index :: nat
  res_name :: string

type_synonym evaluator = "string \<Rightarrow> (fs_error, string) result"

subsection \<open>Construction\<close>

definition default_layer_name :: "nat \<Rightarrow> string" where
  "default_layer_name i = ''layer-'' @ itoa (int i)"

definition new_overlay :: "layer option list \<Rightarrow> overlay" where
  "new_overlay ls =
     (let kept = filter (\<lambda>(i, l). l \<noteq> None) (List.enumerate 0 ls) in
      \<lparr>ov_layers = map (\<lambda>(i, l). the l) kept,
       ov_names = map (\<lambda>(i, l). default_layer_name i) kept,
       ov_metas = replicate (length kept) no_meta,
       ov_neg = neg_cache_new 100000,
       ov_metrics = None\<rparr>)"

fun with_layer_names_from :: "nat \<Rightarrow> string list \<Rightarrow> overlay \<Rightarrow> overlay" where
  "with_layer_names_from i [] ov = ov"
| "with_layer_names_from i (n # ns) ov =
     with_layer_names_from (Suc i) ns
       (if i < length (ov_names ov) then ov\<lparr>ov_names := (ov_names ov)[i := n]\<rparr> else ov)"

definition with_layer_names :: "string list \<Rightarrow> overlay \<Rightarrow> overlay" where
  "with_layer_names ns ov = with_layer_names_from 0 ns ov"

text \<open>
  \<open>NewFromPaths\<close>: the operating system enters as \<open>ev\<close> (EvalSymlinks), \<open>st\<close> (Stat) and \<open>dirfs\<close>
  (os.DirFS). The construction stops at the first path that does not resolve to a directory.
\<close>

datatype path_error =
    ResolveFailed string string fs_error
  | StatFailed string string fs_error
  | NotADirectory string string

fun path_layers ::
  "evaluator \<Rightarrow> (string \<Rightarrow> (fs_error, file_info) result) \<Rightarrow> (string \<Rightarrow> layer) \<Rightarrow>
   (string \<times> string) list \<Rightarrow> (path_error, (layer \<times> string \<times> string) list) result" where
  "path_layers ev st dirfs [] = Ok []"
| "path_layers ev st dirfs ((path, name) # ps) =
     (if path = '''' then path_layers ev st dirfs ps
      else (case ev path of
        Inl e \<Rightarrow> Err (ResolveFailed name path e)
      | Inr resolved \<Rightarrow>
          (case st resolved of
             Inl e \<Rightarrow> Err (StatFailed name resolved e)
           | Inr info \<Rightarrow>
               (if \<not> fi_is_dir info then Err (NotADirectory name resolved)
                else (case path_layers ev st dirfs ps of
                        Inl e \<Rightarrow> Err e
                      | Inr rest \<Rightarrow> Ok ((dirfs resolved, name, resolved) # rest))))))"

fun set_metas :: "nat \<Rightarrow> string list \<Rightarrow> layer_meta list \<Rightarrow> layer_meta list" where
  "set_metas i [] ms = ms"
| "set_metas i (rp # rps) ms =
     set_metas (Suc i) rps
       (if i < length ms then ms[i := \<lparr>root_path = rp, is_disk = True\<rparr>] else ms)"

definition new_from_paths ::
  "evaluator \<Rightarrow> (string \<Rightarrow> (fs_error, file_info) result) \<Rightarrow> (string \<Rightarrow> layer) \<Rightarrow>
   string \<Rightarrow> string \<Rightarrow> string \<Rightarrow> layer option \<Rightarrow> (path_error, overlay) result" where
  "new_from_paths ev st dirfs theme content config defaults =
     (case path_layers ev st dirfs [(theme, ''theme''), (content, ''content''), (config, ''config'')] of
        Inl e \<Rightarrow> Err e
      | Inr ps \<Rightarrow>
          (let ls = map (\<lambda>(l, n, rp). Some l) ps @ (case defaults of None \<Rightarrow> [] | Some d \<Rightarrow> [Some d]);
               ns = map (\<lambda>(l, n, rp). n) ps @ (case defaults of None \<Rightarrow> [] | Some d \<Rightarrow> [''defaults'']);
               ov = with_layer_names ns (new_overlay ls)
           in Ok (ov\<lparr>ov_metas := set_metas 0 (map (\<lambda>(l, n, rp). rp) ps) (ov_metas ov)\<rparr>)))"

subsection \<open>Metrics\<close>

definition instrument :: "(overlay_metrics \<Rightarrow> overlay_metrics) \<Rightarrow> overlay \<Rightarrow> overlay" where
  "instrument f ov = ov\<lparr>ov_metrics := map_option f (ov_metrics ov)\<rparr>"

definition bump :: "'a \<Rightarrow> ('a \<Rightarrow> nat) \<Rightarrow> 'a \<Rightarrow> nat" where
  "bump k f = f(k := Suc (f k))"

definition count_rejected :: "string \<Rightarrow> overlay \<Rightarrow> overlay" where
  "count_rejected name =
     instrument (\<lambda>m. m\<lparr>m_rejected := bump (classify_invalid_path name) (m_rejected m)\<rparr>)"

definition count_resolve :: "string \<Rightarrow> overlay \<Rightarrow> overlay" where
  "count_resolve op = instrument (\<lambda>m. m\<lparr>m_resolve := bump op (m_resolve m)\<rparr>)"

definition count_miss :: "string \<Rightarrow> overlay \<Rightarrow> overlay" where
  "count_miss op ov = instrument (\<lambda>m. m\<lparr>m_miss := Suc (m_miss m)\<rparr>) (count_resolve op ov)"

definition layer_name :: "nat \<Rightarrow> overlay \<Rightarrow> string" where
  "layer_name i ov = (if i < length (ov_names ov) then ov_names ov ! i else default_layer_name i)"

definition count_hit :: "string \<Rightarrow> nat \<Rightarrow> overlay \<Rightarrow> overlay" where
  "count_hit op i ov =
     instrument (\<lambda>m. m\<lparr>m_layer_hit := bump (layer_name i ov) (m_layer_hit m)\<rparr>) (count_resolve op ov)"

subsection \<open>Resolution through the layers\<close>

text \<open>What one layer answers to an operation: it serves the path, fails, or does not have it.\<close>

datatype 'a probe = Hit 'a | Fail fs_error | Absent

definition disk_root :: "layer_meta list \<Rightarrow> nat \<Rightarrow> string option" where
  "disk_root ms i = (if i < length ms \<and> is_disk (ms ! i) then Some (root_path (ms ! i)) else None)"

definition layer_check :: "evaluator \<Rightarrow> layer_meta list \<Rightarrow> string \<Rightarrow> nat \<Rightarrow> fs_error option" where
  "layer_check ev ms name i =
     (case disk_root ms i of None \<Rightarrow> None | Some root \<Rightarrow> check_symlink_safe ev root name)"

definition open_probe ::
  "evaluator \<Rightarrow> layer_meta list \<Rightarrow> string \<Rightarrow> nat \<Rightarrow> layer \<Rightarrow> fs_file probe" where
  "open_probe ev ms name i l =
     (case l_open l name of
        Inr f \<Rightarrow> (case layer_check ev ms name i of Some e \<Rightarrow> Fail e | None \<Rightarrow> Hit f)
      | Inl err \<Rightarrow> (if is_not_exist err then Absent else Fail err))"

definition stat_probe ::
  "evaluator \<Rightarrow> layer_meta list \<Rightarrow> string \<Rightarrow> nat \<Rightarrow> layer \<Rightarrow> file_info probe" where
  "stat_probe ev ms name i l =
     (case l_stat l of
        Some st \<Rightarrow>
          (case layer_check ev ms name i of
             Some e \<Rightarrow> Fail e
           | None \<Rightarrow>
               (case st name of
                  Inr info \<Rightarrow> Hit info
                | Inl err \<Rightarrow> (if is_not_exist err then Absent else Fail err)))
      | None \<Rightarrow>
          (case open_probe ev ms name i l of
             Hit f \<Rightarrow> (case f_stat f of Inr info \<Rightarrow> Hit info | Inl err \<Rightarrow> Fail err)
           | Fail e \<Rightarrow> Fail e
           | Absent \<Rightarrow> Absent))"

text \<open>The loop over the layers, from layer \<open>i\<close> on: the first that serves the path or fails.\<close>

fun scan :: "(nat \<Rightarrow> layer \<Rightarrow> 'a probe) \<Rightarrow> nat \<Rightarrow> layer list \<Rightarrow> (fs_error, nat \<times> 'a) result option" where
  "scan p i [] = None"
| "scan p i (l # ls) =
     (case p i l of
        Hit x \<Rightarrow> Some (Ok (i, x))
      | Fail e \<Rightarrow> Some (Err e)
      | Absent \<Rightarrow> scan p (Suc i) ls)"

definition scan_from :: "(nat \<Rightarrow> layer \<Rightarrow> 'a probe) \<Rightarrow> nat \<Rightarrow> layer list \<Rightarrow> (fs_error, nat \<times> 'a) result option" where
  "scan_from p i ls = scan p i (drop i ls)"

text \<open>Path screening, shared by every operation, and the consultation of the negative cache.\<close>

definition screen :: "string \<Rightarrow> string \<Rightarrow> fs_error option" where
  "screen op name =
     (if \<not> valid_path name then Some (PathError op name ErrInvalid)
      else if has_git_component name then Some (PathError op name ErrPermission)
      else None)"

definition rejected :: "string \<Rightarrow> overlay \<Rightarrow> overlay" where
  "rejected name ov = (if valid_path name then ov else count_rejected name ov)"

definition start_layer :: "neg_entry option \<Rightarrow> nat \<Rightarrow> nat" where
  "start_layer entry n =
     (case entry of
        None \<Rightarrow> 0
      | Some e \<Rightarrow> if first_candidate_layer e < n then first_candidate_layer e else 0)"

definition consult :: "string \<Rightarrow> overlay \<Rightarrow> neg_entry option \<times> overlay" where
  "consult name ov =
     (let (entry, c) = neg_cache_lookup name (ov_neg ov); ov1 = ov\<lparr>ov_neg := c\<rparr> in
      (entry,
       if (case entry of None \<Rightarrow> False | Some e \<Rightarrow> first_candidate_layer e < length (ov_layers ov))
       then instrument (\<lambda>m. m\<lparr>m_neg_hit := Suc (m_neg_hit m)\<rparr>) ov1 else ov1))"

definition remember :: "string \<Rightarrow> nat \<Rightarrow> neg_entry option \<Rightarrow> 64 word \<Rightarrow> overlay \<Rightarrow> overlay" where
  "remember name i entry gen ov =
     (if 0 < i \<and> (case entry of None \<Rightarrow> True | Some e \<Rightarrow> i \<noteq> first_candidate_layer e)
      then ov\<lparr>ov_neg := neg_cache_store name \<lparr>first_candidate_layer = i\<rparr> gen (ov_neg ov)\<rparr>
      else ov)"

subsection \<open>Operations\<close>

definition ov_open :: "evaluator \<Rightarrow> string \<Rightarrow> overlay \<Rightarrow> (fs_error, fs_file) result \<times> overlay" where
  "ov_open ev name ov =
     (case screen ''open'' name of
        Some e \<Rightarrow> (Err e, rejected name ov)
      | None \<Rightarrow>
          (let gen = nc_gen (ov_neg ov);
               (entry, ov1) = consult name ov;
               i0 = start_layer entry (length (ov_layers ov)) in
           case scan_from (open_probe ev (ov_metas ov) name) i0 (ov_layers ov) of
             None \<Rightarrow> (Err (PathError ''open'' name ErrNotExist), count_miss ''open'' ov1)
           | Some (Inl e) \<Rightarrow> (Err e, ov1)
           | Some (Inr (i, f)) \<Rightarrow>
               (Ok (if disk_root (ov_metas ov) i = None then f else hide_git_in_dir f),
                count_hit ''open'' i (remember name i entry gen ov1))))"

definition ov_read_file :: "evaluator \<Rightarrow> string \<Rightarrow> overlay \<Rightarrow> (fs_error, string) result \<times> overlay" where
  "ov_read_file ev name ov =
     (case screen ''readfile'' name of
        Some e \<Rightarrow> (Err e, rejected name ov)
      | None \<Rightarrow>
          (let gen = nc_gen (ov_neg ov);
               (entry, ov1) = consult name ov;
               i0 = start_layer entry (length (ov_layers ov)) in
           case scan_from (open_probe ev (ov_metas ov) name) i0 (ov_layers ov) of
             None \<Rightarrow> (Err (PathError ''readfile'' name ErrNotExist), count_miss ''readfile'' ov1)
           | Some (Inl e) \<Rightarrow> (Err e, ov1)
           | Some (Inr (i, f)) \<Rightarrow>
               (case read_all f of
                  Inl e \<Rightarrow> (Err e, ov1)
                | Inr data \<Rightarrow> (Ok data, count_hit ''readfile'' i (remember name i entry gen ov1)))))"

definition ov_stat :: "evaluator \<Rightarrow> string \<Rightarrow> overlay \<Rightarrow> (fs_error, file_info) result \<times> overlay" where
  "ov_stat ev name ov =
     (case screen ''stat'' name of
        Some e \<Rightarrow> (Err e, rejected name ov)
      | None \<Rightarrow>
          (let gen = nc_gen (ov_neg ov);
               (entry, ov1) = consult name ov;
               i0 = start_layer entry (length (ov_layers ov)) in
           case scan_from (stat_probe ev (ov_metas ov) name) i0 (ov_layers ov) of
             None \<Rightarrow> (Err (PathError ''stat'' name ErrNotExist), count_miss ''stat'' ov1)
           | Some (Inl e) \<Rightarrow> (Err e, ov1)
           | Some (Inr (i, info)) \<Rightarrow> (Ok info, count_hit ''stat'' i (remember name i entry gen ov1))))"

text \<open>
  \<open>ReadDir\<close> merges from the lowest-priority layer up, so that higher layers overwrite. The
  merged map is a list without duplicate names; the order of Go's map iteration is lost to
  the sort by name.
\<close>

definition merge_entry :: "dir_entry \<Rightarrow> dir_entry list \<Rightarrow> dir_entry list" where
  "merge_entry e m = (if is_git_name (de_name e) then m
     else e # filter (\<lambda>d. de_name d \<noteq> de_name e) m)"

fun merge_layers ::
  "evaluator \<Rightarrow> layer_meta list \<Rightarrow> string \<Rightarrow> (nat \<times> layer) list \<Rightarrow> dir_entry list \<Rightarrow> bool \<Rightarrow>
   (fs_error, dir_entry list \<times> bool) result" where
  "merge_layers ev ms name [] m found = Ok (m, found)"
| "merge_layers ev ms name ((i, l) # ls) m found =
     (case layer_check ev ms name i of
        Some e \<Rightarrow> Err e
      | None \<Rightarrow>
          (case l_readdir l name of
             Inl err \<Rightarrow> (if is_not_exist err then merge_layers ev ms name ls m found else Err err)
           | Inr entries \<Rightarrow> merge_layers ev ms name ls (fold merge_entry entries m) True))"

definition ov_read_dir :: "evaluator \<Rightarrow> string \<Rightarrow> overlay \<Rightarrow> (fs_error, dir_entry list) result \<times> overlay" where
  "ov_read_dir ev name ov =
     (case screen ''readdir'' name of
        Some e \<Rightarrow> (Err e, rejected name ov)
      | None \<Rightarrow>
          (case merge_layers ev (ov_metas ov) name (rev (List.enumerate 0 (ov_layers ov))) [] False of
             Inl e \<Rightarrow> (Err e, ov)
           | Inr (m, found) \<Rightarrow>
               (if \<not> found
                then (Err (PathError ''readdir'' name ErrNotExist), count_miss ''readdir'' ov)
                else (Ok (sort_key de_name m), count_resolve ''readdir'' ov))))"

definition ov_open_file ::
  "evaluator \<Rightarrow> string \<Rightarrow> overlay \<Rightarrow> (fs_error, fs_file \<times> file_info) result \<times> overlay" where
  "ov_open_file ev name ov =
     (case ov_open ev name ov of
        (Inl e, ov1) \<Rightarrow> (Err e, ov1)
      | (Inr f, ov1) \<Rightarrow>
          (case f_stat f of
             Inl e \<Rightarrow> (Err e, ov1)
           | Inr info \<Rightarrow> (Ok (f, info), ov1)))"

definition ov_resolve :: "evaluator \<Rightarrow> string \<Rightarrow> overlay \<Rightarrow> (fs_error, resolution) result" where
  "ov_resolve ev name ov =
     (case screen ''resolve'' name of
        Some e \<Rightarrow> Err e
      | None \<Rightarrow>
          (case scan (open_probe ev (ov_metas ov) name) 0 (ov_layers ov) of
             None \<Rightarrow> Err (PathError ''resolve'' name ErrNotExist)
           | Some (Inl e) \<Rightarrow> Err e
           | Some (Inr (i, f)) \<Rightarrow>
               Ok \<lparr>res_path = name, res_index = i, res_name = layer_name i ov\<rparr>))"

definition ov_invalidate_layer :: "int \<Rightarrow> overlay \<Rightarrow> overlay" where
  "ov_invalidate_layer idx ov = ov\<lparr>ov_neg := neg_invalidate_layer idx (ov_neg ov)\<rparr>"

definition ov_invalidate_all :: "overlay \<Rightarrow> overlay" where
  "ov_invalidate_all ov = ov\<lparr>ov_neg := neg_invalidate_all (ov_neg ov)\<rparr>"

definition ov_replace_layer :: "int \<Rightarrow> layer \<Rightarrow> overlay \<Rightarrow> fs_error option \<times> overlay" where
  "ov_replace_layer idx l ov =
     (if idx < 0 \<or> idx \<ge> int (length (ov_layers ov))
      then (Some (LayerOutOfRange idx (length (ov_layers ov))), ov)
      else (None, ov\<lparr>ov_layers := (ov_layers ov)[nat idx := l],
                     ov_neg := neg_invalidate_layer idx (ov_neg ov)\<rparr>))"

end
