(* ===== verification/Overlay_Spec.thy ===== *)
theory Overlay_Spec
  imports Overlay
begin

text \<open>
  What the overlay promises: an overlay without a cache, which asks every layer from the top
  for every request. The cached operations refine it whatever requests, replacements and
  on-disk changes come in between.
\<close>

subsection \<open>The loop over the layers\<close>

definition layer_absent :: "string \<Rightarrow> layer \<Rightarrow> bool" where
  "layer_absent name l = (case l_open l name of Inl e \<Rightarrow> is_not_exist e | Inr _ \<Rightarrow> False)"

definition path_absent :: "layer list \<Rightarrow> string \<Rightarrow> nat \<Rightarrow> bool" where
  "path_absent ls name n = list_all (layer_absent name) (take n ls)"

lemma path_absent_iff:
  "path_absent ls name n \<longleftrightarrow> (\<forall>j < n. j < length ls \<longrightarrow> layer_absent name (ls ! j))"
  by (auto simp: path_absent_def list_all_length)

lemma open_probe_absent: "open_probe ev ms name i l = Absent \<longleftrightarrow> layer_absent name l"
  by (auto simp: open_probe_def layer_absent_def split: sum.split option.split if_splits)

lemma scan_skip:
  assumes "\<And>j. j < n \<Longrightarrow> p (i + j) (ls ! j) = Absent" and "n \<le> length ls"
  shows "scan p (i + n) (drop n ls) = scan p i ls"
  using assms
proof (induction n arbitrary: i ls)
  case (Suc n)
  then obtain l ls' where ls: "ls = l # ls'" by (cases ls) auto
  have "p i l = Absent" using Suc.prems(1) [of 0] ls by simp
  moreover have "scan p (Suc i + n) (drop n ls') = scan p (Suc i) ls'"
    using Suc.IH [of "Suc i" ls'] Suc.prems(1) [of "Suc _"] Suc.prems(2) ls by simp
  ultimately show ?case by (simp add: ls)
qed simp

lemma scan_hit:
  assumes "scan p i ls = Some (Ok (j, x))"
  shows "i \<le> j \<and> j < i + length ls \<and> p j (ls ! (j - i)) = Hit x \<and>
     (\<forall>k. i \<le> k \<and> k < j \<longrightarrow> p k (ls ! (k - i)) = Absent)"
  using assms
proof (induction p i ls rule: scan.induct)
  case (2 p i l ls)
  show ?case
  proof (cases "p i l")
    case Absent
    then have "Suc i \<le> j \<and> j < Suc i + length ls \<and> p j (ls ! (j - Suc i)) = Hit x \<and>
        (\<forall>k. Suc i \<le> k \<and> k < j \<longrightarrow> p k (ls ! (k - Suc i)) = Absent)"
      using 2 by simp
    then show ?thesis
      using Absent by (auto simp: nth_Cons' le_Suc_eq Suc_le_eq dest: le_neq_implies_less)
  qed (use 2 in auto)
qed simp

lemma scan_cases:
  "scan p i ls = None \<longleftrightarrow> (\<forall>j < length ls. p (i + j) (ls ! j) = Absent)"
proof (induction p i ls rule: scan.induct)
  case (2 p i l ls)
  have "(\<forall>j < length (l # ls). p (i + j) ((l # ls) ! j) = Absent) \<longleftrightarrow>
      p i l = Absent \<and> (\<forall>j < length ls. p (Suc i + j) (ls ! j) = Absent)"
    by (auto simp: less_Suc_eq_0_disj)
  then show ?case using 2 by (cases "p i l") auto
qed simp

subsection \<open>Resolution without a cache\<close>

definition spec_open :: "evaluator \<Rightarrow> layer_meta list \<Rightarrow> layer list \<Rightarrow> string \<Rightarrow> (fs_error, fs_file) result" where
  "spec_open ev ms ls name =
     (case screen ''open'' name of
        Some e \<Rightarrow> Err e
      | None \<Rightarrow>
          (case scan (open_probe ev ms name) 0 ls of
             None \<Rightarrow> Err (PathError ''open'' name ErrNotExist)
           | Some (Inl e) \<Rightarrow> Err e
           | Some (Inr (i, f)) \<Rightarrow> Ok (if disk_root ms i = None then f else hide_git_in_dir f)))"

definition spec_read_file :: "evaluator \<Rightarrow> layer_meta list \<Rightarrow> layer list \<Rightarrow> string \<Rightarrow> (fs_error, string) result" where
  "spec_read_file ev ms ls name =
     (case screen ''readfile'' name of
        Some e \<Rightarrow> Err e
      | None \<Rightarrow>
          (case scan (open_probe ev ms name) 0 ls of
             None \<Rightarrow> Err (PathError ''readfile'' name ErrNotExist)
           | Some (Inl e) \<Rightarrow> Err e
           | Some (Inr (i, f)) \<Rightarrow> read_all f))"

definition spec_stat :: "evaluator \<Rightarrow> layer_meta list \<Rightarrow> layer list \<Rightarrow> string \<Rightarrow> (fs_error, file_info) result" where
  "spec_stat ev ms ls name =
     (case screen ''stat'' name of
        Some e \<Rightarrow> Err e
      | None \<Rightarrow>
          (case scan (stat_probe ev ms name) 0 ls of
             None \<Rightarrow> Err (PathError ''stat'' name ErrNotExist)
           | Some (Inl e) \<Rightarrow> Err e
           | Some (Inr (i, info)) \<Rightarrow> Ok info))"

subsection \<open>Soundness of the cache\<close>

definition ov_sound :: "overlay \<Rightarrow> bool" where
  "ov_sound ov \<longleftrightarrow> nc.sound (path_absent (ov_layers ov)) (ov_neg ov)"

text \<open>
  \<open>fs.StatFS\<close> documents \<open>Stat\<close> as describing the file \<open>Open\<close> would open, so a layer that has it
  must report a path missing exactly when \<open>Open\<close> does.
\<close>

definition stat_consistent :: "evaluator \<Rightarrow> layer_meta list \<Rightarrow> layer \<Rightarrow> bool" where
  "stat_consistent ev ms l \<longleftrightarrow>
     (\<forall>name i. screen ''stat'' name = None \<longrightarrow>
        (stat_probe ev ms name i l = Absent \<longleftrightarrow> layer_absent name l))"

lemma stat_consistent_fallback: "l_stat l = None \<Longrightarrow> stat_consistent ev ms l"
proof -
  assume "l_stat l = None"
  then have "stat_probe ev ms name i l = Absent \<longleftrightarrow> open_probe ev ms name i l = Absent" for name i
    by (auto simp: stat_probe_def split: probe.splits sum.splits)
  then show "stat_consistent ev ms l" by (simp add: stat_consistent_def open_probe_absent)
qed

lemma instrument_simps [simp]:
  "ov_layers (instrument f ov) = ov_layers ov" "ov_names (instrument f ov) = ov_names ov"
  "ov_metas (instrument f ov) = ov_metas ov" "ov_neg (instrument f ov) = ov_neg ov"
  by (simp_all add: instrument_def)

lemma count_ops_simps [simp]:
  "ov_layers (count_rejected name ov) = ov_layers ov" "ov_neg (count_rejected name ov) = ov_neg ov"
  "ov_metas (count_rejected name ov) = ov_metas ov" "ov_names (count_rejected name ov) = ov_names ov"
  "ov_layers (count_miss op ov) = ov_layers ov" "ov_neg (count_miss op ov) = ov_neg ov"
  "ov_metas (count_miss op ov) = ov_metas ov" "ov_names (count_miss op ov) = ov_names ov"
  "ov_layers (count_hit op i ov) = ov_layers ov" "ov_neg (count_hit op i ov) = ov_neg ov"
  "ov_metas (count_hit op i ov) = ov_metas ov" "ov_names (count_hit op i ov) = ov_names ov"
  "ov_layers (count_resolve op ov) = ov_layers ov" "ov_neg (count_resolve op ov) = ov_neg ov"
  "ov_metas (count_resolve op ov) = ov_metas ov" "ov_names (count_resolve op ov) = ov_names ov"
  by (simp_all add: count_rejected_def count_miss_def count_hit_def count_resolve_def)

lemma rejected_simps [simp]:
  "ov_layers (rejected name ov) = ov_layers ov" "ov_neg (rejected name ov) = ov_neg ov"
  "ov_metas (rejected name ov) = ov_metas ov" "ov_names (rejected name ov) = ov_names ov"
  by (simp_all add: rejected_def)

text \<open>The part of the state no request changes.\<close>

definition same_layers :: "overlay \<Rightarrow> overlay \<Rightarrow> bool" where
  "same_layers ov ov' \<longleftrightarrow> ov_layers ov' = ov_layers ov \<and> ov_metas ov' = ov_metas ov \<and>
     ov_names ov' = ov_names ov"

lemma consult_sound:
  assumes "ov_sound ov" and "consult name ov = (entry, ov1)"
  shows "ov_sound ov1" and "same_layers ov ov1" and "nc_gen (ov_neg ov1) = nc_gen (ov_neg ov)"
    and "path_absent (ov_layers ov) name (start_layer entry (length (ov_layers ov)))"
proof -
  obtain r c where l: "neg_cache_lookup name (ov_neg ov) = (r, c)" by force
  have s: "nc.sound (path_absent (ov_layers ov)) c" "nc_gen c = nc_gen (ov_neg ov)"
    "\<forall>e. r = Some e \<longrightarrow> path_absent (ov_layers ov) name (first_candidate_layer e)"
    using nc.sound_lookup [OF assms(1) [unfolded ov_sound_def] l] by auto
  have r: "entry = r" and n: "ov_neg ov1 = c" and m: "same_layers ov ov1"
    using assms(2) l by (auto simp: consult_def same_layers_def Let_def split: if_splits)
  show "ov_sound ov1" "same_layers ov ov1" "nc_gen (ov_neg ov1) = nc_gen (ov_neg ov)"
    using s n m by (simp_all add: ov_sound_def same_layers_def)
  show "path_absent (ov_layers ov) name (start_layer entry (length (ov_layers ov)))"
    using s(3) r by (auto simp: start_layer_def path_absent_def split: option.splits)
qed

lemma remember_sound:
  assumes "ov_sound ov" and "path_absent (ov_layers ov) name i"
  shows "ov_sound (remember name i entry gen ov)" and "same_layers ov (remember name i entry gen ov)"
  using assms nc.sound_store [of "path_absent (ov_layers ov)" "ov_neg ov" gen name "\<lparr>first_candidate_layer = i\<rparr>"]
  by (auto simp: remember_def ov_sound_def same_layers_def)

text \<open>
  The lemma behind every cached operation: the scan from the cached start gives what the scan
  from the top gives, and a hit at \<open>i\<close> shows the path absent above it.
\<close>

lemma scan_from_cached:
  assumes "path_absent ls name n" and "n \<le> length ls"
    and "\<And>i l. l \<in> set ls \<Longrightarrow> p i l = Absent \<longleftrightarrow> layer_absent name l"
  shows "scan_from p n ls = scan p 0 ls"
  using scan_skip [of n p 0 ls] assms by (simp add: scan_from_def path_absent_iff)

lemma scan_hit_absent:
  assumes "scan p 0 ls = Some (Ok (i, x))"
    and "\<And>i l. l \<in> set ls \<Longrightarrow> p i l = Absent \<longleftrightarrow> layer_absent name l"
  shows "path_absent ls name i"
  using scan_hit [OF assms(1)] assms(2) by (auto simp: path_absent_iff)

lemma start_layer_le: "start_layer entry n \<le> n"
  by (auto simp: start_layer_def split: option.splits)

lemma same_layers_sound:
  "same_layers ov ov' \<Longrightarrow> ov_neg ov' = ov_neg ov \<Longrightarrow> ov_sound ov' = ov_sound ov"
  by (simp add: ov_sound_def same_layers_def)

lemma ov_sound_metrics [simp]:
  "ov_sound (count_hit op i ov) = ov_sound ov" "ov_sound (count_miss op ov) = ov_sound ov"
  "ov_sound (rejected name ov) = ov_sound ov" "ov_sound (count_resolve op ov) = ov_sound ov"
  by (simp_all add: ov_sound_def)

lemma same_layers_metrics [simp]:
  "same_layers ov (count_hit op i ov') = same_layers ov ov'"
  "same_layers ov (count_miss op ov') = same_layers ov ov'"
  "same_layers ov (rejected name ov') = same_layers ov ov'"
  "same_layers ov (count_resolve op ov') = same_layers ov ov'"
  "same_layers ov ov"
  by (simp_all add: same_layers_def)

lemma same_layers_trans: "same_layers ov ov1 \<Longrightarrow> same_layers ov1 ov2 \<Longrightarrow> same_layers ov ov2"
  by (simp add: same_layers_def)

lemma remember_consult:
  assumes "ov_sound ov" and "consult name ov = (entry, ov1)" and "path_absent (ov_layers ov) name i"
  shows "ov_sound (remember name i entry gen ov1)" and "same_layers ov (remember name i entry gen ov1)"
proof -
  note c = consult_sound [OF assms(1,2)]
  have "path_absent (ov_layers ov1) name i" using assms(3) c(2) by (simp add: same_layers_def)
  note r = remember_sound [OF c(1) this, of entry gen]
  show "ov_sound (remember name i entry gen ov1)" by (rule r(1))
  show "same_layers ov (remember name i entry gen ov1)" by (rule same_layers_trans [OF c(2) r(2)])
qed

lemma ov_open_refines:
  assumes "ov_sound ov" and "ov_open ev name ov = (r, ov')"
  shows "r = spec_open ev (ov_metas ov) (ov_layers ov) name" and "ov_sound ov'" and "same_layers ov ov'"
proof -
  obtain entry ov1 where c: "consult name ov = (entry, ov1)" by force
  note k = consult_sound [OF assms(1) c]
  let ?p = "open_probe ev (ov_metas ov) name" and ?n = "start_layer entry (length (ov_layers ov))"
  have s: "scan_from ?p ?n (ov_layers ov) = scan ?p 0 (ov_layers ov)"
    by (rule scan_from_cached [OF k(4) start_layer_le]) (rule open_probe_absent)
  have a: "path_absent (ov_layers ov) name i" if "scan ?p 0 (ov_layers ov) = Some (Ok (i, x))" for i x
    by (rule scan_hit_absent [OF that]) (rule open_probe_absent)
  show "r = spec_open ev (ov_metas ov) (ov_layers ov) name"
    using assms(2) by (auto simp: ov_open_def spec_open_def c s split: option.splits sum.splits)
  show "ov_sound ov'" and "same_layers ov ov'"
    using assms k(1,2) remember_consult [OF assms(1) c a]
    by (auto simp: ov_open_def c s split: option.splits sum.splits)
qed

lemma ov_read_file_refines:
  assumes "ov_sound ov" and "ov_read_file ev name ov = (r, ov')"
  shows "r = spec_read_file ev (ov_metas ov) (ov_layers ov) name" and "ov_sound ov'"
    and "same_layers ov ov'"
proof -
  obtain entry ov1 where c: "consult name ov = (entry, ov1)" by force
  note k = consult_sound [OF assms(1) c]
  let ?p = "open_probe ev (ov_metas ov) name" and ?n = "start_layer entry (length (ov_layers ov))"
  have s: "scan_from ?p ?n (ov_layers ov) = scan ?p 0 (ov_layers ov)"
    by (rule scan_from_cached [OF k(4) start_layer_le]) (rule open_probe_absent)
  have a: "path_absent (ov_layers ov) name i" if "scan ?p 0 (ov_layers ov) = Some (Ok (i, x))" for i x
    by (rule scan_hit_absent [OF that]) (rule open_probe_absent)
  show "r = spec_read_file ev (ov_metas ov) (ov_layers ov) name"
    using assms(2) by (auto simp: ov_read_file_def spec_read_file_def c s split: option.splits sum.splits)
  show "ov_sound ov'" and "same_layers ov ov'"
    using assms k(1,2) remember_consult [OF assms(1) c a]
    by (auto simp: ov_read_file_def c s split: option.splits sum.splits)
qed

lemma ov_stat_refines:
  assumes "ov_sound ov" and "ov_stat ev name ov = (r, ov')"
    and "\<And>l. l \<in> set (ov_layers ov) \<Longrightarrow> stat_consistent ev (ov_metas ov) l"
  shows "r = spec_stat ev (ov_metas ov) (ov_layers ov) name" and "ov_sound ov'"
    and "same_layers ov ov'"
proof -
  obtain entry ov1 where c: "consult name ov = (entry, ov1)" by force
  note k = consult_sound [OF assms(1) c]
  let ?p = "stat_probe ev (ov_metas ov) name" and ?n = "start_layer entry (length (ov_layers ov))"
  have p: "?p i l = Absent \<longleftrightarrow> layer_absent name l"
    if "l \<in> set (ov_layers ov)" "screen ''stat'' name = None" for i l
    using assms(3) [OF that(1)] that(2) by (simp add: stat_consistent_def)
  have s: "screen ''stat'' name = None \<Longrightarrow> scan_from ?p ?n (ov_layers ov) = scan ?p 0 (ov_layers ov)"
    by (rule scan_from_cached [OF k(4) start_layer_le]) (rule p)
  have a: "path_absent (ov_layers ov) name i"
    if "screen ''stat'' name = None" "scan ?p 0 (ov_layers ov) = Some (Ok (i, x))" for i x
    by (rule scan_hit_absent [OF that(2)]) (rule p [OF _ that(1)])
  show "r = spec_stat ev (ov_metas ov) (ov_layers ov) name"
    using assms(2) by (auto simp: ov_stat_def spec_stat_def c s split: option.splits sum.splits)
  show "ov_sound ov'" and "same_layers ov ov'"
    using assms(1,2) k(1,2) remember_consult [OF assms(1) c a]
    by (auto simp: ov_stat_def c s split: option.splits sum.splits)
qed

end
