(* ===== verification/Overlay_Thms.thy ===== *)
theory Overlay_Thms
  imports Overlay_Spec
begin

text \<open>
  The properties of the overlay: cached requests refine uncached ones over every sequence of
  requests, directories are merged by priority, version-control metadata and symlink escapes
  are refused, and a layer is replaced as specified.
\<close>

subsection \<open>Requests\<close>

text \<open>
  Everything that can happen to an overlay. \<open>Changed i l ev'\<close> is a change of the files of
  layer \<open>i\<close> (from then on the layer answers as \<open>l\<close>) with the \<open>InvalidateLayer\<close> call the watcher
  makes for it; the evaluator of symbolic links is part of every request, as the disk it asks
  changes too.
\<close>

datatype ov_request =
    ReqOpen string
  | ReqReadFile string
  | ReqReadDir string
  | ReqStat string
  | ReqOpenFile string
  | ReqResolve string
  | ReqReplace int layer
  | ReqChanged nat layer
  | ReqInvalidateAll

datatype ov_response =
    RespFile "(fs_error, fs_file) result"
  | RespData "(fs_error, string) result"
  | RespEntries "(fs_error, dir_entry list) result"
  | RespInfo "(fs_error, file_info) result"
  | RespBoth "(fs_error, fs_file \<times> file_info) result"
  | RespResolution "(fs_error, resolution) result"
  | RespDone "fs_error option"

fun ov_serve :: "evaluator \<times> ov_request \<Rightarrow> overlay \<Rightarrow> ov_response \<times> overlay" where
  "ov_serve (ev, ReqOpen n) ov = (let (r, ov') = ov_open ev n ov in (RespFile r, ov'))"
| "ov_serve (ev, ReqReadFile n) ov = (let (r, ov') = ov_read_file ev n ov in (RespData r, ov'))"
| "ov_serve (ev, ReqReadDir n) ov = (let (r, ov') = ov_read_dir ev n ov in (RespEntries r, ov'))"
| "ov_serve (ev, ReqStat n) ov = (let (r, ov') = ov_stat ev n ov in (RespInfo r, ov'))"
| "ov_serve (ev, ReqOpenFile n) ov = (let (r, ov') = ov_open_file ev n ov in (RespBoth r, ov'))"
| "ov_serve (ev, ReqResolve n) ov = (RespResolution (ov_resolve ev n ov), ov)"
| "ov_serve (ev, ReqReplace i l) ov = (let (r, ov') = ov_replace_layer i l ov in (RespDone r, ov'))"
| "ov_serve (ev, ReqChanged i l) ov =
     (RespDone None, ov_invalidate_layer (int i) (ov\<lparr>ov_layers := (ov_layers ov)[i := l]\<rparr>))"
| "ov_serve (ev, ReqInvalidateAll) ov = (RespDone None, ov_invalidate_all ov)"

fun ov_responses :: "(evaluator \<times> ov_request) list \<Rightarrow> overlay \<Rightarrow> ov_response list" where
  "ov_responses [] ov = []"
| "ov_responses (q # qs) ov = fst (ov_serve q ov) # ov_responses qs (snd (ov_serve q ov))"

text \<open>The same service without a cache: a function of the layers alone.\<close>

definition spec_open_file ::
  "evaluator \<Rightarrow> layer_meta list \<Rightarrow> layer list \<Rightarrow> string \<Rightarrow> (fs_error, fs_file \<times> file_info) result" where
  "spec_open_file ev ms ls name =
     (case spec_open ev ms ls name of
        Inl e \<Rightarrow> Err e
      | Inr f \<Rightarrow> (case f_stat f of Inl e \<Rightarrow> Err e | Inr info \<Rightarrow> Ok (f, info)))"

definition spec_read_dir ::
  "evaluator \<Rightarrow> layer_meta list \<Rightarrow> layer list \<Rightarrow> string \<Rightarrow> (fs_error, dir_entry list) result" where
  "spec_read_dir ev ms ls name =
     (case screen ''readdir'' name of
        Some e \<Rightarrow> Err e
      | None \<Rightarrow>
          (case merge_layers ev ms name (rev (List.enumerate 0 ls)) [] False of
             Inl e \<Rightarrow> Err e
           | Inr (m, found) \<Rightarrow>
               (if found then Ok (sort_key de_name m) else Err (PathError ''readdir'' name ErrNotExist))))"

definition spec_resolve ::
  "evaluator \<Rightarrow> layer_meta list \<Rightarrow> string list \<Rightarrow> layer list \<Rightarrow> string \<Rightarrow> (fs_error, resolution) result" where
  "spec_resolve ev ms ns ls name =
     (case screen ''resolve'' name of
        Some e \<Rightarrow> Err e
      | None \<Rightarrow>
          (case scan (open_probe ev ms name) 0 ls of
             None \<Rightarrow> Err (PathError ''resolve'' name ErrNotExist)
           | Some (Inl e) \<Rightarrow> Err e
           | Some (Inr (i, f)) \<Rightarrow>
               Ok \<lparr>res_path = name, res_index = i,
                    res_name = (if i < length ns then ns ! i else default_layer_name i)\<rparr>))"

fun spec_serve ::
  "layer_meta list \<Rightarrow> string list \<Rightarrow> evaluator \<times> ov_request \<Rightarrow> layer list \<Rightarrow> ov_response \<times> layer list" where
  "spec_serve ms ns (ev, ReqOpen n) ls = (RespFile (spec_open ev ms ls n), ls)"
| "spec_serve ms ns (ev, ReqReadFile n) ls = (RespData (spec_read_file ev ms ls n), ls)"
| "spec_serve ms ns (ev, ReqReadDir n) ls = (RespEntries (spec_read_dir ev ms ls n), ls)"
| "spec_serve ms ns (ev, ReqStat n) ls = (RespInfo (spec_stat ev ms ls n), ls)"
| "spec_serve ms ns (ev, ReqOpenFile n) ls = (RespBoth (spec_open_file ev ms ls n), ls)"
| "spec_serve ms ns (ev, ReqResolve n) ls = (RespResolution (spec_resolve ev ms ns ls n), ls)"
| "spec_serve ms ns (ev, ReqReplace i l) ls =
     (if 0 \<le> i \<and> i < int (length ls) then (RespDone None, ls[nat i := l])
      else (RespDone (Some (LayerOutOfRange i (length ls))), ls))"
| "spec_serve ms ns (ev, ReqChanged i l) ls = (RespDone None, ls[i := l])"
| "spec_serve ms ns (ev, ReqInvalidateAll) ls = (RespDone None, ls)"

fun spec_responses ::
  "layer_meta list \<Rightarrow> string list \<Rightarrow> (evaluator \<times> ov_request) list \<Rightarrow> layer list \<Rightarrow> ov_response list" where
  "spec_responses ms ns [] ls = []"
| "spec_responses ms ns (q # qs) ls =
     fst (spec_serve ms ns q ls) # spec_responses ms ns qs (snd (spec_serve ms ns q ls))"

text \<open>The layers a request brings in.\<close>

fun new_layers :: "evaluator \<times> ov_request \<Rightarrow> layer list" where
  "new_layers (ev, ReqReplace i l) = [l]"
| "new_layers (ev, ReqChanged i l) = [l]"
| "new_layers (ev, _) = []"

lemma path_absent_update:
  assumes "int n < i \<or> int n \<le> i"
  shows "path_absent (ls[nat i := l]) name n = path_absent ls name n"
  using assms by (auto simp: path_absent_iff nth_list_update)

lemma replaced_sound:
  assumes "ov_sound ov"
  shows "ov_sound (ov\<lparr>ov_layers := (ov_layers ov)[i := l], ov_neg := neg_invalidate_layer (int i) (ov_neg ov)\<rparr>)"
  using nc.sound_purge [OF assms [unfolded ov_sound_def], of "int i" "path_absent ((ov_layers ov)[i := l])"]
    path_absent_update [of _ "int i" "ov_layers ov" l]
  by (simp add: ov_sound_def)

lemma ov_open_file_refines:
  assumes "ov_sound ov" and "ov_open_file ev name ov = (r, ov')"
  shows "r = spec_open_file ev (ov_metas ov) (ov_layers ov) name" and "ov_sound ov'"
    and "same_layers ov ov'"
proof -
  obtain q ov1 where o: "ov_open ev name ov = (q, ov1)" by force
  note s = ov_open_refines [OF assms(1) o]
  show "r = spec_open_file ev (ov_metas ov) (ov_layers ov) name" and "ov_sound ov'" and "same_layers ov ov'"
    using assms(2) o s by (auto simp: ov_open_file_def spec_open_file_def split: sum.splits)
qed

lemma ov_serve_refines:
  assumes "ov_sound ov"
    and "\<And>l. l \<in> set (ov_layers ov) \<Longrightarrow> stat_consistent (fst q) (ov_metas ov) l"
    and "ov_serve q ov = (r, ov')"
  shows "spec_serve (ov_metas ov) (ov_names ov) q (ov_layers ov) = (r, ov_layers ov') \<and>
    ov_sound ov' \<and> ov_metas ov' = ov_metas ov \<and> ov_names ov' = ov_names ov"
proof -
  obtain ev req where q: "q = (ev, req)" by (cases q)
  show ?thesis
  proof (cases req)
    case (ReqOpen n)
    then show ?thesis
      using assms(3) ov_open_refines [OF assms(1)] by (auto simp: q same_layers_def split: prod.splits)
  next
    case (ReqReadFile n)
    then show ?thesis
      using assms(3) ov_read_file_refines [OF assms(1)] by (auto simp: q same_layers_def split: prod.splits)
  next
    case (ReqReadDir n)
    then show ?thesis
      using assms(1,3)
      by (auto simp: q ov_read_dir_def spec_read_dir_def split: prod.splits option.splits sum.splits if_splits)
  next
    case (ReqStat n)
    then show ?thesis
      using assms(3) ov_stat_refines [OF assms(1) _ assms(2)]
      by (auto simp: q same_layers_def split: prod.splits)
  next
    case (ReqOpenFile n)
    then show ?thesis
      using assms(3) ov_open_file_refines [OF assms(1)] by (auto simp: q same_layers_def split: prod.splits)
  next
    case (ReqResolve n)
    then show ?thesis
      using assms(1,3)
      by (auto simp: q ov_resolve_def spec_resolve_def layer_name_def split: option.splits sum.splits)
  next
    case (ReqReplace i l)
    then show ?thesis
      using assms(1,3) replaced_sound [OF assms(1), of "nat i" l]
      by (auto simp: q ov_replace_layer_def split: if_splits)
  next
    case (ReqChanged i l)
    then show ?thesis
      using assms(3) replaced_sound [OF assms(1), of i l] by (auto simp: q ov_invalidate_layer_def)
  next
    case ReqInvalidateAll
    then show ?thesis
      using assms(1,3) nc.sound_clear [of "ov_neg ov"]
      by (auto simp: q ov_invalidate_all_def ov_sound_def nc.sound_def)
  qed
qed

lemma new_layers_subset:
  "set (snd (spec_serve ms ns q ls)) \<subseteq> set ls \<union> set (new_layers q)"
proof -
  obtain ev req where "q = (ev, req)" by (cases q)
  then show ?thesis by (cases req) (auto dest: set_update_subset_insert [THEN subsetD])
qed

lemma ov_responses_refines:
  assumes "ov_sound ov"
    and "\<And>ev req l. (ev, req) \<in> set qs \<Longrightarrow>
           l \<in> set (ov_layers ov) \<union> (\<Union>q \<in> set qs. set (new_layers q)) \<Longrightarrow>
           stat_consistent ev (ov_metas ov) l"
  shows "ov_responses qs ov = spec_responses (ov_metas ov) (ov_names ov) qs (ov_layers ov)"
  using assms
proof (induction qs arbitrary: ov)
  case (Cons q qs)
  obtain r ov' where s: "ov_serve q ov = (r, ov')" by force
  have "stat_consistent (fst q) (ov_metas ov) l" if "l \<in> set (ov_layers ov)" for l
    using Cons.prems(2) [of "fst q" "snd q" l] that by simp
  note o = ov_serve_refines [OF Cons.prems(1) this s]
  have "ov_responses qs ov' = spec_responses (ov_metas ov') (ov_names ov') qs (ov_layers ov')"
  proof (rule Cons.IH)
    fix ev req l
    assume l: "(ev, req) \<in> set qs" "l \<in> set (ov_layers ov') \<union> (\<Union>q \<in> set qs. set (new_layers q))"
    have "stat_consistent ev (ov_metas ov) l"
      using l o new_layers_subset [of "ov_metas ov" "ov_names ov" q "ov_layers ov"]
      by (intro Cons.prems(2) [of ev req]) auto
    then show "stat_consistent ev (ov_metas ov') l" using o by simp
  qed (use o in simp)
  then show ?case using o s by simp
qed simp

text \<open>
  C1. An overlay that starts with an empty negative cache answers every sequence of requests -
  opens, reads, listings, stats, resolutions, layer replacements, on-disk changes followed by
  an invalidation - as an overlay without a cache does, which asks all layers from the top.
\<close>

theorem overlay_cache_transparent:
  assumes "ov_neg ov = neg_cache_new mx"
    and "\<And>ev req l. (ev, req) \<in> set qs \<Longrightarrow>
           l \<in> set (ov_layers ov) \<union> (\<Union>q \<in> set qs. set (new_layers q)) \<Longrightarrow>
           stat_consistent ev (ov_metas ov) l"
  shows "ov_responses qs ov = spec_responses (ov_metas ov) (ov_names ov) qs (ov_layers ov)"
proof (rule ov_responses_refines)
  show "ov_sound ov"
    using assms(1) neg_inv_new by (simp add: ov_sound_def nc.sound_def view_sound_def)
qed (rule assms(2))

definition mem_file :: "string \<Rightarrow> fs_file" where
  "mem_file b = \<lparr>f_bytes = b, f_read_err = None,
     f_stat = Ok \<lparr>fi_name = '''', fi_is_dir = False, fi_size = length b\<rparr>, f_dir = None,
     f_git_hidden = False\<rparr>"

definition mem_layer :: "(string \<times> string) list \<Rightarrow> layer" where
  "mem_layer fs =
     \<lparr>l_open = (\<lambda>n. case map_of fs n of None \<Rightarrow> Err (RawError ErrNotExist) | Some b \<Rightarrow> Ok (mem_file b)),
      l_stat = None,
      l_readdir = (\<lambda>n. if n = ''.'' then Ok (map (\<lambda>(k, b). \<lparr>de_name = k, de_is_dir = False\<rparr>) fs)
                       else Err (RawError ErrNotExist))\<rparr>"

theorem overlay_cache_transparent_witness:
  "let qs = [(\<lambda>p. Ok p, ReqOpen ''a''), (\<lambda>p. Ok p, ReqReplace 0 (mem_layer [(''a'', ''x'')])),
             (\<lambda>p. Ok p, ReqReadFile ''a'')];
       ov = new_overlay [Some (mem_layer []), Some (mem_layer [(''a'', ''y'')])]
   in ov_responses qs ov = spec_responses (ov_metas ov) (ov_names ov) qs (ov_layers ov)"
  unfolding Let_def
  by (rule overlay_cache_transparent [of _ 100000])
     (auto simp: new_overlay_def Let_def mem_layer_def intro: stat_consistent_fallback)

subsection \<open>Listings\<close>

definition dir_lookup :: "string \<Rightarrow> (fs_error, dir_entry list) result \<Rightarrow> dir_entry option" where
  "dir_lookup n r = (case r of Inl _ \<Rightarrow> None | Inr es \<Rightarrow> find (\<lambda>d. de_name d = n) (rev es))"

fun first_some :: "'a option list \<Rightarrow> 'a option" where
  "first_some [] = None"
| "first_some (x # xs) = (case x of None \<Rightarrow> first_some xs | Some y \<Rightarrow> Some y)"

lemma first_some_append:
  "first_some (xs @ ys) = (case first_some xs of None \<Rightarrow> first_some ys | Some y \<Rightarrow> Some y)"
  by (induction xs) (auto split: option.splits)

definition clean_listing :: "dir_entry list \<Rightarrow> bool" where
  "clean_listing m \<longleftrightarrow> distinct (map de_name m) \<and> (\<forall>d \<in> set m. \<not> is_git_name (de_name d))"

lemma find_append: "find P (xs @ ys) = (case find P xs of None \<Rightarrow> find P ys | Some y \<Rightarrow> Some y)"
  by (induction xs) auto

lemma find_filter: "(\<And>x. P x \<Longrightarrow> Q x) \<Longrightarrow> find P (filter Q xs) = find P xs"
  by (induction xs) auto

lemma merge_entry_step:
  assumes "clean_listing m"
  shows "clean_listing (merge_entry e m)"
    and "\<not> is_git_name n \<Longrightarrow> find (\<lambda>d. de_name d = n) (merge_entry e m) =
      (if de_name e = n then Some e else find (\<lambda>d. de_name d = n) m)"
  using assms
  by (auto simp: merge_entry_def clean_listing_def distinct_map_filter intro!: find_filter)

lemma fold_merge_entry:
  assumes "clean_listing m"
  shows "clean_listing (fold merge_entry es m) \<and>
    (\<not> is_git_name n \<longrightarrow> find (\<lambda>d. de_name d = n) (fold merge_entry es m) =
      (case find (\<lambda>d. de_name d = n) (rev es) of None \<Rightarrow> find (\<lambda>d. de_name d = n) m | Some d \<Rightarrow> Some d))"
  using assms
proof (induction es arbitrary: m)
  case (Cons e es)
  show ?case
    using Cons.IH [OF merge_entry_step(1) [OF Cons.prems]] merge_entry_step(2) [OF Cons.prems]
    by (auto simp: find_append split: option.splits)
qed simp

lemma merge_layers_result:
  assumes "merge_layers ev ms name ils m found = Ok (m', found')" and "clean_listing m"
  shows "clean_listing m' \<and>
    (\<not> is_git_name n \<longrightarrow> find (\<lambda>d. de_name d = n) m' =
      first_some (map (\<lambda>(i, l). dir_lookup n (l_readdir l name)) (rev ils) @ [find (\<lambda>d. de_name d = n) m]))"
  using assms
proof (induction ev ms name ils m found rule: merge_layers.induct)
  case (2 ev ms name i l ls m found)
  show ?case
  proof (cases "l_readdir l name")
    case (Inl e)
    then show ?thesis
      using 2 by (auto simp: first_some_append dir_lookup_def split: option.splits if_splits)
  next
    case (Inr es)
    have "merge_layers ev ms name ls (fold merge_entry es m) True = Ok (m', found')"
      and "layer_check ev ms name i = None"
      using 2(3) Inr by (auto split: option.splits)
    then show ?thesis
      using 2(2) [OF _ Inr] fold_merge_entry [OF 2(4), of es]
      by (auto simp: first_some_append dir_lookup_def Inr split: option.splits)
  qed
qed (auto split: option.splits)

lemma find_distinct:
  "distinct (map f xs) \<Longrightarrow> find (\<lambda>d. f d = f x) xs = Some x \<longleftrightarrow> x \<in> set xs"
  by (induction xs) (auto simp: image_iff)

text \<open>
  C19. A successful listing is strictly sorted by name and holds exactly the entries that win:
  for each name that is not version-control metadata, the entry of the highest-priority layer
  that lists the name.
\<close>

theorem ov_read_dir_union:
  assumes "fst (ov_read_dir ev name ov) = Ok es"
  shows "sorted_wrt (<) (map de_name es) \<and>
    (\<forall>d. d \<in> set es \<longleftrightarrow> \<not> is_git_name (de_name d) \<and>
       first_some (map (\<lambda>l. dir_lookup (de_name d) (l_readdir l name)) (ov_layers ov)) = Some d)"
proof -
  obtain m where m: "merge_layers ev (ov_metas ov) name (rev (List.enumerate 0 (ov_layers ov))) [] False = Ok (m, True)"
    and es: "es = sort_key de_name m"
    using assms by (auto simp: ov_read_dir_def split: option.splits sum.splits if_splits)
  note r = merge_layers_result [OF m, unfolded clean_listing_def, simplified]
  have "map (\<lambda>(i, l). dir_lookup n (l_readdir l name)) (List.enumerate k ls) =
      map (\<lambda>l. dir_lookup n (l_readdir l name)) ls" for n k and ls :: "layer list"
    by (induction ls arbitrary: k) auto
  then have f: "find (\<lambda>d. de_name d = n) m =
      first_some (map (\<lambda>l. dir_lookup n (l_readdir l name)) (ov_layers ov))" if "\<not> is_git_name n" for n
    using r [of n] that by (simp add: first_some_append split: option.split)
  have "sorted_wrt (<) (map de_name es)"
    using r unfolding es strict_sorted_iff by (simp add: distinct_map)
  moreover have "d \<in> set es \<longleftrightarrow> \<not> is_git_name (de_name d) \<and>
      first_some (map (\<lambda>l. dir_lookup (de_name d) (l_readdir l name)) (ov_layers ov)) = Some d" for d
    using r f [of "de_name d"] find_distinct [of de_name m d] by (auto simp: es)
  ultimately show ?thesis by blast
qed

theorem ov_read_dir_union_witness:
  "fst (ov_read_dir (\<lambda>p. Ok p) ''.''
       (new_overlay [Some (mem_layer [(''b'', ''x''), (''.git'', ''y'')]), Some (mem_layer [(''a'', ''z'')])]))
     = Ok [\<lparr>de_name = ''a'', de_is_dir = False\<rparr>, \<lparr>de_name = ''b'', de_is_dir = False\<rparr>] \<and>
   sorted_wrt (<) [''a'', ''b'']"
proof -
  have e: "fst (ov_read_dir (\<lambda>p. Ok p) ''.''
       (new_overlay [Some (mem_layer [(''b'', ''x''), (''.git'', ''y'')]), Some (mem_layer [(''a'', ''z'')])]))
     = Ok [\<lparr>de_name = ''a'', de_is_dir = False\<rparr>, \<lparr>de_name = ''b'', de_is_dir = False\<rparr>]"
    by code_simp
  show ?thesis using ov_read_dir_union [OF e] e by simp
qed

subsection \<open>Confinement\<close>

text \<open>
  What the symbolic-link check establishes of a path it lets through: the path resolves inside
  the root and outside version-control metadata, or does not resolve.
\<close>

definition confined :: "evaluator \<Rightarrow> string \<Rightarrow> string \<Rightarrow> bool" where
  "confined ev root name =
     (case ev (path_join root name) of
        Inl e \<Rightarrow> is_not_exist e
      | Inr resolved \<Rightarrow>
          (resolved = root \<or> has_prefix resolved (root @ [sl])) \<and>
          (case path_rel root resolved of None \<Rightarrow> True | Some rel \<Rightarrow> \<not> has_git_component rel))"

lemma check_symlink_safe_confined:
  "check_symlink_safe ev root name = None \<Longrightarrow> root = '''' \<or> confined ev root name"
  by (auto simp: check_symlink_safe_def confined_def split: if_splits sum.splits option.splits)

lemma screen_None: "screen op name = None \<longleftrightarrow> valid_path name \<and> \<not> has_git_component name"
  by (simp add: screen_def)

text \<open>
  C13. Whatever \<open>Open\<close> returns was served by some layer under a valid path without a \<open>.git\<close>
  element, and on a disk layer under a path confined to the layer's root; its directory handle
  is then the one that hides \<open>.git\<close>.
\<close>

theorem ov_open_confined:
  assumes "fst (ov_open ev name ov) = Ok f"
  shows "valid_path name \<and> \<not> has_git_component name \<and>
    (\<exists>i < length (ov_layers ov). \<exists>g. l_open (ov_layers ov ! i) name = Ok g \<and>
       (case disk_root (ov_metas ov) i of
          None \<Rightarrow> f = g
        | Some root \<Rightarrow> f = hide_git_in_dir g \<and> (root = '''' \<or> confined ev root name)))"
proof -
  have s: "screen ''open'' name = None"
    using assms by (auto simp: ov_open_def split: option.splits)
  obtain entry ov1 where c: "consult name ov = (entry, ov1)" by force
  let ?n = "start_layer entry (length (ov_layers ov))"
  let ?p = "open_probe ev (ov_metas ov) name"
  obtain i g where h: "scan ?p ?n (drop ?n (ov_layers ov)) = Some (Ok (i, g))"
    and f: "f = (if disk_root (ov_metas ov) i = None then g else hide_git_in_dir g)"
    using assms s c by (auto simp: ov_open_def scan_from_def Let_def split: option.splits sum.splits)
  have i: "i < length (ov_layers ov)" and p: "?p i (ov_layers ov ! i) = Hit g"
    using scan_hit [OF h] start_layer_le [of entry "length (ov_layers ov)"] by auto
  then have "l_open (ov_layers ov ! i) name = Ok g" and "layer_check ev (ov_metas ov) name i = None"
    by (auto simp: open_probe_def split: sum.splits option.splits if_splits)
  then show ?thesis
    using s i f
    by (auto simp: screen_None layer_check_def intro!: exI [of _ i] split: option.splits
        dest: check_symlink_safe_confined)
qed

theorem ov_open_confined_witness:
  "valid_path ''a'' \<and> \<not> has_git_component ''a'' \<and> confined (\<lambda>p. Ok p) ''/srv'' ''a''"
proof -
  let ?ov = "(new_overlay [Some (mem_layer [(''a'', ''y'')])])\<lparr>ov_metas := [\<lparr>root_path = ''/srv'', is_disk = True\<rparr>]\<rparr>"
  have e: "fst (ov_open (\<lambda>p. Ok p) ''a'' ?ov) = Ok (hide_git_in_dir (mem_file ''y''))"
    by code_simp
  have l: "length (ov_layers ?ov) = 1" and r: "disk_root [\<lparr>root_path = ''/srv'', is_disk = True\<rparr>] 0 = Some ''/srv''"
    by code_simp+
  show ?thesis using ov_open_confined [OF e] unfolding l by (auto simp: r)
qed

text \<open>
  C30. A path with a \<open>.git\<close> element, in any letter case, is refused by every operation whatever
  the layers and the cache hold, and no refusal changes the layers or the cache.
\<close>

theorem git_paths_refused:
  assumes "has_git_component name"
  shows "\<exists>e \<in> {ErrInvalid, ErrPermission}.
      ov_open ev name ov = (Err (PathError ''open'' name e), rejected name ov) \<and>
      ov_read_file ev name ov = (Err (PathError ''readfile'' name e), rejected name ov) \<and>
      ov_read_dir ev name ov = (Err (PathError ''readdir'' name e), rejected name ov) \<and>
      ov_stat ev name ov = (Err (PathError ''stat'' name e), rejected name ov) \<and>
      ov_open_file ev name ov = (Err (PathError ''open'' name e), rejected name ov) \<and>
      ov_resolve ev name ov = Err (PathError ''resolve'' name e)"
  using assms
  by (cases "valid_path name")
     (simp_all add: screen_def ov_open_def ov_read_file_def ov_read_dir_def ov_stat_def
        ov_open_file_def ov_resolve_def)

theorem git_paths_refused_witness:
  "\<exists>e \<in> {ErrInvalid, ErrPermission}.
      ov_open (\<lambda>p. Ok p) ''x/.GIT/config'' (new_overlay []) =
        (Err (PathError ''open'' ''x/.GIT/config'' e), rejected ''x/.GIT/config'' (new_overlay []))"
proof -
  have "has_git_component ''x/.GIT/config''" by code_simp
  from git_paths_refused [OF this, of "\<lambda>p. Ok p" "new_overlay []"] show ?thesis by blast
qed

text \<open>
  Reading a directory handle in batches: what every call of \<open>ReadDir\<close> returns. The abstract
  reader below hands out a list: the rest of it for a size that is not positive, else a
  non-empty part that fits the size, and the end mark once nothing is left.
\<close>

fun read_results :: "int list \<Rightarrow> fs_file \<Rightarrow> (dir_entry list \<times> fs_error option) list" where
  "read_results [] f = []"
| "read_results (n # ns) f =
     (case file_read_dir n f of
        None \<Rightarrow> []
      | Some (r, f') \<Rightarrow> r # read_results ns f')"

definition batch_ok ::
  "dir_entry list \<Rightarrow> fs_error option \<Rightarrow> int \<Rightarrow> dir_entry list \<Rightarrow> dir_entry list \<times> fs_error option \<Rightarrow> bool" where
  "batch_ok all fail n before r \<longleftrightarrow>
     (if n \<le> 0 then before @ fst r = all \<and> snd r = fail
      else if before = all then r = ([], Some (case fail of None \<Rightarrow> RawError ErrEOF | Some e \<Rightarrow> e))
      else fst r \<noteq> [] \<and> length (fst r) \<le> nat n \<and> snd r = None \<and> prefix (before @ fst r) all)"

definition not_git :: "dir_entry \<Rightarrow> bool" where
  "not_git e \<longleftrightarrow> \<not> is_git_name (de_name e)"

lemma dir_read_spec:
  assumes "dir_read n d = ((es, err), d')"
  shows "dh_rest d = es @ dh_rest d' \<and> dh_fail d' = dh_fail d \<and>
    (if n \<le> 0 then dh_rest d' = [] \<and> err = dh_fail d
     else if dh_rest d = [] then err = Some (case dh_fail d of None \<Rightarrow> RawError ErrEOF | Some e \<Rightarrow> e)
     else err = None \<and> es \<noteq> [] \<and> length es \<le> nat n)"
  using assms by (auto simp: dir_read_def split: if_splits)

lemma kept_batch_ok:
  assumes "dir_read n d = ((xs, e), d1)" and "n \<le> 0 \<or> filter not_git xs \<noteq> [] \<or> e \<noteq> None"
  shows "batch_ok (filter not_git (dh_rest d)) (dh_fail d) n [] (filter not_git xs, e)"
proof (cases "n \<le> 0")
  case True
  then show ?thesis using dir_read_spec [OF assms(1)] by (simp add: batch_ok_def)
next
  case pos: False
  note s = dir_read_spec [OF assms(1)]
  have f: "filter not_git (dh_rest d) = filter not_git xs @ filter not_git (dh_rest d1)"
    unfolding s [THEN conjunct1] by (rule filter_append)
  show ?thesis
  proof (cases "dh_rest d = []")
    case True
    then have "xs = []" using s by auto
    moreover have "e = Some (case dh_fail d of None \<Rightarrow> RawError ErrEOF | Some e \<Rightarrow> e)"
      using s pos True by presburger
    ultimately show ?thesis using pos True by (simp add: batch_ok_def)
  next
    case False
    then have e: "e = None \<and> length xs \<le> nat n" using s pos by presburger
    have ne: "filter not_git xs \<noteq> []" using assms(2) pos e by metis
    have "length (filter not_git xs) \<le> nat n" using e length_filter_le le_trans by blast
    moreover have "[] \<noteq> filter not_git xs @ filter not_git (dh_rest d1)" using ne by simp
    ultimately show ?thesis unfolding batch_ok_def f using ne pos e by simp
  qed
qed

lemma git_hiding_read_spec:
  assumes "git_hiding_read n d = ((es, err), d')"
  shows "filter not_git (dh_rest d) = es @ filter not_git (dh_rest d') \<and> dh_fail d' = dh_fail d \<and>
    batch_ok (filter not_git (dh_rest d)) (dh_fail d) n [] (es, err)"
  using assms
proof (induction n d rule: git_hiding_read.induct)
  case (1 n d)
  note IH = 1(1) [OF refl refl refl] and run = 1(2)
  obtain xs e d1 where r: "dir_read n d = ((xs, e), d1)" by (metis surj_pair)
  note s = dir_read_spec [OF r]
  have k: "filter not_git xs = filter (\<lambda>e. \<not> is_git_name (de_name e)) xs"
    by (simp add: not_git_def [abs_def])
  have f: "filter not_git (dh_rest d) = filter not_git xs @ filter not_git (dh_rest d1)"
    unfolding s [THEN conjunct1] by (rule filter_append)
  show ?case
  proof (cases "n \<le> 0 \<or> filter not_git xs \<noteq> [] \<or> e \<noteq> None")
    case True
    then have "git_hiding_read n d = ((filter not_git xs, e), d1)"
      by (simp only: git_hiding_read.simps [of n d] Let_def r k fst_conv snd_conv if_True)
    then have "es = filter not_git xs" "err = e" "d' = d1" using run by simp_all
    then show ?thesis using f s kept_batch_ok [OF r True] by blast
  next
    case False
    then have "git_hiding_read n d = git_hiding_read n d1"
      by (simp only: git_hiding_read.simps [of n d] Let_def r k fst_conv snd_conv if_False)
    then have "git_hiding_read n d1 = ((es, err), d')" using run by simp
    then have "filter not_git (dh_rest d1) = es @ filter not_git (dh_rest d') \<and> dh_fail d' = dh_fail d1 \<and>
        batch_ok (filter not_git (dh_rest d1)) (dh_fail d1) n [] (es, err)"
      using IH False unfolding r k fst_conv snd_conv by blast
    moreover have "filter not_git (dh_rest d) = filter not_git (dh_rest d1)" using f False by simp
    moreover have "dh_fail d1 = dh_fail d" using s by blast
    ultimately show ?thesis by metis
  qed
qed

lemma read_results_spec:
  assumes "f_dir g = Some d" and "f_git_hidden g"
  shows "length (read_results ns g) = length ns \<and>
    (\<forall>i < length ns. batch_ok (filter not_git (dh_rest d)) (dh_fail d) (ns ! i)
       (concat (map fst (take i (read_results ns g)))) (read_results ns g ! i))"
  using assms
proof (induction ns arbitrary: g d)
  case (Cons n ns)
  obtain es err d' where r: "git_hiding_read n d = ((es, err), d')" by (metis surj_pair)
  let ?g = "g\<lparr>f_dir := Some d'\<rparr>"
  have u: "read_results (n # ns) g = (es, err) # read_results ns ?g"
    using Cons.prems r by (simp add: file_read_dir_def)
  note s = git_hiding_read_spec [OF r]
  have IH: "length (read_results ns ?g) = length ns \<and>
    (\<forall>i < length ns. batch_ok (filter not_git (dh_rest d')) (dh_fail d') (ns ! i)
       (concat (map fst (take i (read_results ns ?g)))) (read_results ns ?g ! i))"
    by (rule Cons.IH) (use Cons.prems in simp_all)
  have "batch_ok (filter not_git (dh_rest d)) (dh_fail d) ((n # ns) ! i)
      (concat (map fst (take i (read_results (n # ns) g)))) (read_results (n # ns) g ! i)"
    if "i < length (n # ns)" for i
    using that IH s unfolding u by (cases i) (simp_all add: batch_ok_def split: if_splits)
  then show ?case using IH unfolding u by simp
qed simp

lemma batches_complete:
  assumes "length bs = length ns"
    and "\<forall>i < length ns. batch_ok all fail (ns ! i) (concat (map fst (take i bs))) (bs ! i)"
    and "length all \<le> length ns"
  shows "concat (map fst bs) = all"
proof -
  have "concat (map fst (take i bs)) = all \<or>
      (prefix (concat (map fst (take i bs))) all \<and> i \<le> length (concat (map fst (take i bs))))"
    if "i \<le> length ns" for i
    using that
  proof (induction i)
    case (Suc i)
    have t: "concat (map fst (take (Suc i) bs)) = concat (map fst (take i bs)) @ fst (bs ! i)"
      using Suc.prems assms(1) by (simp add: take_Suc_conv_app_nth)
    have ok: "batch_ok all fail (ns ! i) (concat (map fst (take i bs))) (bs ! i)"
      using assms(2) Suc.prems by simp
    show ?case
    proof (cases "ns ! i \<le> 0 \<or> concat (map fst (take i bs)) = all")
      case True
      then show ?thesis using ok unfolding t batch_ok_def by (auto split: if_splits)
    next
      case False
      then have "fst (bs ! i) \<noteq> []" "prefix (concat (map fst (take i bs)) @ fst (bs ! i)) all"
        using ok unfolding batch_ok_def by (auto split: if_splits)
      moreover have "i \<le> length (concat (map fst (take i bs)))"
        using Suc False by simp
      moreover have "0 < length (fst (bs ! i))" using calculation(1) by simp
      ultimately show ?thesis unfolding t length_append by linarith
    qed
  qed simp
  from this [of "length ns"] have
    "concat (map fst bs) = all \<or> (prefix (concat (map fst bs)) all \<and> length ns \<le> length (concat (map fst bs)))"
    using assms(1) by simp
  then show ?thesis
  proof
    assume p: "prefix (concat (map fst bs)) all \<and> length ns \<le> length (concat (map fst bs))"
    then have "length all \<le> length (concat (map fst bs))" using assms(3) by linarith
    then show ?thesis using p by (auto simp: prefix_def)
  qed
qed

text \<open>
  C31. Listing through the handle of a directory opened on a disk layer gives exactly the
  entries that are not version-control metadata, in the directory's order and each once. For
  any sequence of batch sizes every call answers: with all that is left, and the directory's
  own error if it has one, when its size is not positive; with the end mark when nothing is
  left; otherwise with at least one entry, at most as many as asked for, and no error, however
  many hidden entries lie in between. As many calls as there are visible entries list them all.
\<close>

theorem hidden_handle_listing:
  assumes "f_dir f = Some d" and "f_stat f = Ok info" and "fi_is_dir info"
  shows "let visible = filter (\<lambda>e. \<not> is_git_name (de_name e)) (dh_rest d);
      bs = read_results ns (hide_git_in_dir f) in
    length bs = length ns \<and>
    (\<forall>i < length ns. batch_ok visible (dh_fail d) (ns ! i) (concat (map fst (take i bs))) (bs ! i)) \<and>
    (length visible \<le> length ns \<longrightarrow> concat (map fst bs) = visible)"
proof -
  have "f_dir (hide_git_in_dir f) = Some d" "f_git_hidden (hide_git_in_dir f)"
    using assms by (simp_all add: hide_git_in_dir_def)
  note r = read_results_spec [OF this, of ns]
  show ?thesis
    using r batches_complete [OF r [THEN conjunct1] r [THEN conjunct2]]
    unfolding Let_def not_git_def [abs_def] by blast
qed

theorem hidden_handle_listing_witness:
  "let f = \<lparr>f_bytes = '''', f_read_err = None, f_stat = Ok \<lparr>fi_name = ''d'', fi_is_dir = True, fi_size = 0\<rparr>,
      f_dir = Some \<lparr>dh_rest = [\<lparr>de_name = ''.git'', de_is_dir = True\<rparr>, \<lparr>de_name = ''a'', de_is_dir = False\<rparr>], dh_fail = None\<rparr>,
      f_git_hidden = False\<rparr>
   in concat (map fst (read_results [1] (hide_git_in_dir f))) = [\<lparr>de_name = ''a'', de_is_dir = False\<rparr>]"
proof -
  have g: "is_git_name ''.git''" "\<not> is_git_name ''a''" by code_simp+
  show ?thesis
    using hidden_handle_listing [where ns = "[1]" and d = "\<lparr>dh_rest = [\<lparr>de_name = ''.git'', de_is_dir = True\<rparr>,
        \<lparr>de_name = ''a'', de_is_dir = False\<rparr>], dh_fail = None\<rparr>"
        and info = "\<lparr>fi_name = ''d'', fi_is_dir = True, fi_size = 0\<rparr>"
        and f = "\<lparr>f_bytes = '''', f_read_err = None, f_stat = Ok \<lparr>fi_name = ''d'', fi_is_dir = True, fi_size = 0\<rparr>,
      f_dir = Some \<lparr>dh_rest = [\<lparr>de_name = ''.git'', de_is_dir = True\<rparr>, \<lparr>de_name = ''a'', de_is_dir = False\<rparr>], dh_fail = None\<rparr>,
      f_git_hidden = False\<rparr>"]
    unfolding Let_def by (simp add: g)
qed

end
