(* ===== verification/Overlay_Race.thy ===== *)
theory Overlay_Race
  imports Overlay_Thms
begin

text \<open>
  The overlay under concurrency (\<open>Open\<close>, \<open>ReadFile\<close>, \<open>InvalidateLayer\<close>, \<open>InvalidateAll\<close> and
  \<open>ReplaceLayer\<close> of \<open>internal/overlayfs/overlayfs.go\<close>). A resolver snapshots the layers and the
  generation, asks the negative cache, probes the layers one by one and stores what it found;
  between any two of these steps other resolvers may run, files may change on disk, and layers
  may be invalidated or replaced. Layers are references: \<open>rc_heap\<close> gives what a layer holds now.
\<close>

datatype resolver =
    Snapped string "nat list" "64 word"
  | Scanning string "nat list" "64 word" "neg_entry option" nat
  | Storing string nat "64 word"

fun resolver_gen :: "resolver \<Rightarrow> 64 word" where
  "resolver_gen (Snapped _ _ g) = g"
| "resolver_gen (Scanning _ _ g _ _) = g"
| "resolver_gen (Storing _ _ g) = g"

text \<open>
  \<open>rc_dirty\<close> records the layers whose files changed since their last invalidation; \<open>rc_writer\<close>
  is the layer a \<open>ReplaceLayer\<close> has swapped but not yet purged, during which it holds the write
  lock and no resolver can take its snapshot.
\<close>

record race =
  rc_ids :: "nat list"
  rc_heap :: "nat \<Rightarrow> layer"
  rc_neg :: neg_cache
  rc_dirty :: "nat set"
  rc_writer :: "nat option"
  rc_threads :: "nat \<Rightarrow> resolver option"

definition set_thread :: "nat \<Rightarrow> resolver option \<Rightarrow> race \<Rightarrow> race" where
  "set_thread t r s = s\<lparr>rc_threads := (rc_threads s)(t := r)\<rparr>"

text \<open>
  The generation is a 64-bit counter. An invalidation is only taken when no resolver in flight
  holds the generation it moves to: a resolution does not outlive \<open>2 ^ 64\<close> invalidations.
\<close>

definition no_reuse :: "race \<Rightarrow> bool" where
  "no_reuse s \<longleftrightarrow> (\<forall>t r. rc_threads s t = Some r \<longrightarrow> resolver_gen r \<noteq> nc_gen (rc_neg s) + 1)"

inductive race_step :: "layer_meta list \<Rightarrow> race \<Rightarrow> race \<Rightarrow> bool" for ms where
  snapshot: "rc_threads s t = None \<Longrightarrow> rc_writer s = None \<Longrightarrow>
    race_step ms s (set_thread t (Some (Snapped name (rc_ids s) (nc_gen (rc_neg s)))) s)"
| ask: "rc_threads s t = Some (Snapped name ids g) \<Longrightarrow> neg_cache_lookup name (rc_neg s) = (r, c) \<Longrightarrow>
    race_step ms s (set_thread t (Some (Scanning name ids g r (start_layer r (length ids)))) (s\<lparr>rc_neg := c\<rparr>))"
| probe_absent: "rc_threads s t = Some (Scanning name ids g r i) \<Longrightarrow> i < length ids \<Longrightarrow>
    open_probe ev ms name i (rc_heap s (ids ! i)) = Absent \<Longrightarrow>
    race_step ms s (set_thread t (Some (Scanning name ids g r (Suc i))) s)"
| probe_hit: "rc_threads s t = Some (Scanning name ids g r i) \<Longrightarrow> i < length ids \<Longrightarrow>
    open_probe ev ms name i (rc_heap s (ids ! i)) = Hit f \<Longrightarrow>
    race_step ms s (set_thread t
      (if 0 < i \<and> (case r of None \<Rightarrow> True | Some e \<Rightarrow> i \<noteq> first_candidate_layer e)
       then Some (Storing name i g) else None) s)"
| probe_stop: "rc_threads s t = Some (Scanning name ids g r i) \<Longrightarrow>
    length ids \<le> i \<or> (\<exists>e. open_probe ev ms name i (rc_heap s (ids ! i)) = Fail e) \<Longrightarrow>
    race_step ms s (set_thread t None s)"
| keep: "rc_threads s t = Some (Storing name i g) \<Longrightarrow>
    race_step ms s (set_thread t None
      (s\<lparr>rc_neg := neg_cache_store name \<lparr>first_candidate_layer = i\<rparr> g (rc_neg s)\<rparr>))"
| swap: "rc_writer s = None \<Longrightarrow> i < length (rc_ids s) \<Longrightarrow>
    race_step ms s (s\<lparr>rc_ids := (rc_ids s)[i := l], rc_writer := Some i\<rparr>)"
| swap_purge: "rc_writer s = Some i \<Longrightarrow> no_reuse s \<Longrightarrow>
    race_step ms s (s\<lparr>rc_neg := neg_invalidate_layer (int i) (rc_neg s), rc_writer := None,
                      rc_dirty := rc_dirty s - {i}\<rparr>)"
| disk_change:
    "race_step ms s (s\<lparr>rc_heap := (rc_heap s)(l := new),
                      rc_dirty := rc_dirty s \<union> {j. j < length (rc_ids s) \<and> rc_ids s ! j = l}\<rparr>)"
| invalidate: "no_reuse s \<Longrightarrow>
    race_step ms s (s\<lparr>rc_neg := neg_invalidate_layer (int i) (rc_neg s), rc_dirty := rc_dirty s - {i}\<rparr>)"
| invalidate_all: "no_reuse s \<Longrightarrow>
    race_step ms s (s\<lparr>rc_neg := neg_invalidate_all (rc_neg s), rc_dirty := {}\<rparr>)"

definition race_start :: "int \<Rightarrow> nat list \<Rightarrow> (nat \<Rightarrow> layer) \<Rightarrow> race" where
  "race_start mx ids heap =
     \<lparr>rc_ids = ids, rc_heap = heap, rc_neg = neg_cache_new mx, rc_dirty = {}, rc_writer = None,
      rc_threads = (\<lambda>_. None)\<rparr>"

inductive race_reach :: "layer_meta list \<Rightarrow> race \<Rightarrow> race \<Rightarrow> bool" for ms s0 where
  reach_start: "race_reach ms s0 s0"
| reach_step: "race_reach ms s0 s \<Longrightarrow> race_step ms s s' \<Longrightarrow> race_reach ms s0 s'"

subsection \<open>Invariant\<close>

text \<open>
  What an entry claims: the path is absent from the first \<open>n\<close> layers, those excepted that
  changed and were not invalidated yet, or that are being replaced.
\<close>

definition excused :: "race \<Rightarrow> nat set" where
  "excused s = rc_dirty s \<union> set_option (rc_writer s)"

definition claim :: "race \<Rightarrow> string \<Rightarrow> nat \<Rightarrow> bool" where
  "claim s name n \<longleftrightarrow> (\<forall>j < n. j < length (rc_ids s) \<longrightarrow> j \<notin> excused s \<longrightarrow>
     layer_absent name (rc_heap s (rc_ids s ! j)))"

definition current_ids :: "race \<Rightarrow> nat list \<Rightarrow> bool" where
  "current_ids s ids \<longleftrightarrow> length ids = length (rc_ids s) \<and>
     (\<forall>j < length ids. j \<notin> excused s \<longrightarrow> ids ! j = rc_ids s ! j)"

fun resolver_ok :: "race \<Rightarrow> resolver \<Rightarrow> bool" where
  "resolver_ok s (Snapped name ids g) \<longleftrightarrow> (g = nc_gen (rc_neg s) \<longrightarrow> current_ids s ids)"
| "resolver_ok s (Scanning name ids g r i) \<longleftrightarrow>
     (g = nc_gen (rc_neg s) \<longrightarrow> current_ids s ids \<and> claim s name i)"
| "resolver_ok s (Storing name i g) \<longleftrightarrow> (g = nc_gen (rc_neg s) \<longrightarrow> claim s name i)"

definition race_inv :: "race \<Rightarrow> bool" where
  "race_inv s \<longleftrightarrow> nc.sound (claim s) (rc_neg s) \<and>
     (\<forall>t r. rc_threads s t = Some r \<longrightarrow> resolver_ok s r)"

lemma set_thread_simps [simp]:
  "rc_ids (set_thread t r s) = rc_ids s" "rc_heap (set_thread t r s) = rc_heap s"
  "rc_neg (set_thread t r s) = rc_neg s" "rc_threads (set_thread t r s) = (rc_threads s)(t := r)"
  "excused (set_thread t r s) = excused s"
  by (simp_all add: set_thread_def excused_def)

lemma excused_neg [simp]: "excused (s\<lparr>rc_neg := c\<rparr>) = excused s"
  by (simp add: excused_def)

lemma claim_cong:
  "rc_ids s' = rc_ids s \<Longrightarrow> rc_heap s' = rc_heap s \<Longrightarrow> excused s' = excused s \<Longrightarrow> claim s' = claim s"
  by (simp add: claim_def fun_eq_iff)

lemma current_ids_cong:
  "rc_ids s' = rc_ids s \<Longrightarrow> excused s' = excused s \<Longrightarrow> current_ids s' = current_ids s"
  by (simp add: current_ids_def fun_eq_iff)

lemma resolver_ok_cong:
  assumes "rc_ids s' = rc_ids s" and "rc_heap s' = rc_heap s" and "excused s' = excused s"
    and "nc_gen (rc_neg s') = nc_gen (rc_neg s)"
  shows "resolver_ok s' r = resolver_ok s r"
  using assms by (cases r) (simp_all add: claim_cong [of s' s] current_ids_cong [of s' s])

text \<open>Steps of a resolver change its own record and perhaps the cache, at one generation.\<close>

lemma race_inv_thread:
  assumes "race_inv s" and "nc.sound (claim s) c" and "nc_gen c = nc_gen (rc_neg s)"
    and "\<And>r'. r = Some r' \<Longrightarrow> resolver_ok s r'"
  shows "race_inv (set_thread t r (s\<lparr>rc_neg := c\<rparr>))"
proof -
  let ?s = "set_thread t r (s\<lparr>rc_neg := c\<rparr>)"
  have "claim ?s = claim s" by (rule claim_cong) simp_all
  moreover have "resolver_ok ?s r' = resolver_ok s r'" for r'
    by (rule resolver_ok_cong) (simp_all add: assms(3))
  ultimately show ?thesis using assms by (auto simp: race_inv_def)
qed

lemma race_inv_thread_only:
  assumes "race_inv s" and "\<And>r'. r = Some r' \<Longrightarrow> resolver_ok s r'"
  shows "race_inv (set_thread t r s)"
  using race_inv_thread [of s "rc_neg s" r t] assms by (simp add: race_inv_def)

text \<open>Steps at a new generation: no resolver in flight is at it.\<close>

lemma race_inv_bump:
  assumes "race_inv s" and "no_reuse s" and "nc_gen c = nc_gen (rc_neg s) + 1"
    and "nc.sound (claim s') c" and "rc_neg s' = c" and "rc_threads s' = rc_threads s"
  shows "race_inv s'"
proof -
  have "resolver_ok s' r" if "rc_threads s t = Some r" for t r
  proof -
    have "resolver_gen r \<noteq> nc_gen (rc_neg s')"
      using assms(2,3,5) that by (auto simp: no_reuse_def)
    then show ?thesis by (cases r) simp_all
  qed
  then show ?thesis using assms(4-6) by (simp add: race_inv_def)
qed

lemma claim_start:
  assumes "claim s name (first_candidate_layer e)"
  shows "claim s name (start_layer (Some e) n)"
  using assms by (simp add: start_layer_def claim_def)

lemma claim_Suc:
  assumes "claim s name i" and "current_ids s ids" and "i < length ids"
    and "layer_absent name (rc_heap s (ids ! i))"
  shows "claim s name (Suc i)"
  using assms by (auto simp: claim_def current_ids_def less_Suc_eq)

lemma race_inv_step:
  assumes "race_step ms s s'" and "race_inv s"
  shows "race_inv s'"
  using assms(1)
proof cases
  case (snapshot t name)
  show ?thesis
    unfolding snapshot(1) by (rule race_inv_thread_only [OF assms(2)]) (auto simp: current_ids_def)
next
  case (ask t name ids g r c)
  have l: "nc.sound (claim s) c" "nc_gen c = nc_gen (rc_neg s)"
    "\<forall>e. r = Some e \<longrightarrow> claim s name (first_candidate_layer e)"
    using nc.sound_lookup [OF _ ask(3), of "claim s"] assms(2) by (auto simp: race_inv_def)
  have "claim s name (start_layer r (length ids))"
    using l(3) claim_start by (cases r) (auto simp: start_layer_def claim_def)
  moreover have "resolver_ok s (Snapped name ids g)"
    using assms(2) ask(2) unfolding race_inv_def by blast
  ultimately show ?thesis
    unfolding ask(1) by (intro race_inv_thread [OF assms(2) l(1,2)]) auto
next
  case (probe_absent t name ids g r i ev)
  have "resolver_ok s (Scanning name ids g r i)"
    using assms(2) probe_absent(2) unfolding race_inv_def by blast
  then show ?thesis
    unfolding probe_absent(1) using probe_absent(3,4) claim_Suc
    by (intro race_inv_thread_only [OF assms(2)]) (auto simp: open_probe_absent)
next
  case (probe_hit t name ids g r i ev f)
  have "resolver_ok s (Scanning name ids g r i)"
    using assms(2) probe_hit(2) unfolding race_inv_def by blast
  then show ?thesis
    unfolding probe_hit(1) by (intro race_inv_thread_only [OF assms(2)]) (auto split: if_splits)
next
  case (probe_stop t name ids g r i ev)
  show ?thesis unfolding probe_stop(1) by (rule race_inv_thread_only [OF assms(2)]) simp
next
  case (keep t name i g)
  have "resolver_ok s (Storing name i g)"
    using assms(2) keep(2) unfolding race_inv_def by blast
  then show ?thesis
    unfolding keep(1) using assms(2)
    by (intro race_inv_thread [OF assms(2)] nc.sound_store) (auto simp: race_inv_def)
next
  case (swap i l)
  have x: "excused s' = insert i (excused s)" using swap by (auto simp: excused_def)
  have c: "claim s name n \<Longrightarrow> claim s' name n" for name n
    unfolding claim_def x by (auto simp: swap(1))
  have "current_ids s ids \<Longrightarrow> current_ids s' ids" for ids
    unfolding current_ids_def x by (auto simp: swap(1))
  then have "resolver_ok s r \<Longrightarrow> resolver_ok s' r" for r
    using c by (cases r) (simp_all add: swap(1))
  then show ?thesis
    using assms(2) c unfolding race_inv_def nc.sound_def view_sound_def by (auto simp: swap(1))
next
  case (swap_purge i)
  have "claim s name n \<Longrightarrow> int n < int i \<Longrightarrow> claim s' name n" for name n
    using swap_purge(1,2) by (auto simp: claim_def excused_def)
  then have "nc.sound (claim s') (neg_invalidate_layer (int i) (rc_neg s))"
    using assms(2) by (intro nc.sound_purge [of "claim s"]) (auto simp: race_inv_def)
  moreover have "neg_inv (rc_neg s)" using assms(2) by (simp add: race_inv_def nc.sound_def)
  ultimately show ?thesis
    by (intro race_inv_bump [OF assms(2) swap_purge(3)]) (auto simp: swap_purge(1) neg_invalidate_layer_spec)
next
  case (disk_change l new)
  have x: "excused s' = excused s \<union> {j. j < length (rc_ids s) \<and> rc_ids s ! j = l}"
    by (auto simp: disk_change excused_def)
  have c: "claim s name n \<Longrightarrow> claim s' name n" for name n
    unfolding claim_def x by (auto simp: disk_change)
  have "current_ids s ids \<Longrightarrow> current_ids s' ids" for ids
    unfolding current_ids_def x by (auto simp: disk_change)
  then have "resolver_ok s r \<Longrightarrow> resolver_ok s' r" for r
    using c by (cases r) (simp_all add: disk_change)
  then show ?thesis
    using assms(2) c unfolding race_inv_def nc.sound_def view_sound_def by (auto simp: disk_change)
next
  case (invalidate i)
  have "claim s name n \<Longrightarrow> int n < int i \<Longrightarrow> claim s' name n" for name n
    using invalidate(1) by (auto simp: claim_def excused_def)
  then have "nc.sound (claim s') (neg_invalidate_layer (int i) (rc_neg s))"
    using assms(2) by (intro nc.sound_purge [of "claim s"]) (auto simp: race_inv_def)
  moreover have "neg_inv (rc_neg s)" using assms(2) by (simp add: race_inv_def nc.sound_def)
  ultimately show ?thesis
    by (intro race_inv_bump [OF assms(2) invalidate(2)]) (auto simp: invalidate(1) neg_invalidate_layer_spec)
next
  case invalidate_all
  have "neg_inv (rc_neg s)" using assms(2) by (simp add: race_inv_def nc.sound_def)
  then show ?thesis
    by (intro race_inv_bump [OF assms(2) invalidate_all(2)])
       (auto simp: invalidate_all(1) neg_invalidate_all_spec nc.sound_clear)
qed

lemma race_inv_start: "race_inv (race_start mx ids heap)"
  using neg_inv_new by (simp add: race_inv_def race_start_def nc.sound_def view_sound_def)

lemma race_inv_reach: "race_reach ms s0 s \<Longrightarrow> race_inv s0 \<Longrightarrow> race_inv s"
  by (induction rule: race_reach.induct) (auto intro: race_inv_step)

subsection \<open>The race property\<close>

lemma claim_path_absent:
  "excused s = {} \<Longrightarrow> claim s name n = path_absent (map (rc_heap s) (rc_ids s)) name n"
  by (auto simp: claim_def path_absent_iff)

text \<open>
  C5. However resolvers, invalidations, replacements and on-disk changes interleave: in any
  reachable state in which every change has been followed by its invalidation and no
  replacement is half done, the layer the negative cache makes a resolution start at leads to
  the same answer as a scan of all layers. No stale miss survives an invalidation.
\<close>

theorem race_cache_sound:
  assumes "race_reach ms (race_start mx ids heap) s"
    and "rc_dirty s = {}" and "rc_writer s = None"
    and "neg_cache_lookup name (rc_neg s) = (r, c)"
  shows "scan_from (open_probe ev ms name) (start_layer r (length (rc_ids s))) (map (rc_heap s) (rc_ids s)) =
    scan (open_probe ev ms name) 0 (map (rc_heap s) (rc_ids s))"
proof (rule scan_from_cached)
  have "nc.sound (claim s) (rc_neg s)"
    using race_inv_reach [OF assms(1) race_inv_start] by (simp add: race_inv_def)
  then have "\<forall>e. r = Some e \<longrightarrow> claim s name (first_candidate_layer e)"
    using nc.sound_lookup assms(4) by blast
  moreover have "excused s = {}" using assms(2,3) by (simp add: excused_def)
  ultimately show "path_absent (map (rc_heap s) (rc_ids s)) name (start_layer r (length (rc_ids s)))"
    by (cases r) (auto simp: claim_path_absent start_layer_def path_absent_def)
qed (simp_all add: start_layer_le open_probe_absent)

definition race_demo :: "nat \<Rightarrow> layer" where
  "race_demo i = (if i = 4 then mem_layer [] else mem_layer [(''a'', ''x'')])"

theorem race_cache_sound_witness:
  "\<exists>s r c. race_reach [] (race_start 4 [4, 9] race_demo) s \<and>
     neg_cache_lookup ''a'' (rc_neg s) = (r, c) \<and> r = Some \<lparr>first_candidate_layer = Suc 0\<rparr> \<and>
     scan_from (open_probe (\<lambda>p. Ok p) [] ''a'') (start_layer r (length (rc_ids s))) (map (rc_heap s) (rc_ids s)) =
     scan (open_probe (\<lambda>p. Ok p) [] ''a'') 0 (map (rc_heap s) (rc_ids s))"
proof -
  let ?s0 = "race_start 4 [4, 9] race_demo" and ?ev = "\<lambda>p. Ok p"
  let ?s1 = "set_thread 7 (Some (Snapped ''a'' [4, 9] 0)) ?s0"
  let ?c0 = "neg_cache_new 4"
  have l: "neg_cache_lookup ''a'' ?c0 = (None, ?c0)" by (simp add: neg_cache_lookup_def neg_cache_new_def nil_shard_def Let_def)
  have n: "rc_neg ?s0 = ?c0" "rc_ids ?s0 = [4, 9]" "rc_heap ?s0 = race_demo"
    "rc_dirty ?s0 = {}" "rc_writer ?s0 = None" "rc_threads ?s0 = (\<lambda>_. None)" "nc_gen ?c0 = 0"
    by (simp_all add: race_start_def neg_cache_new_def)
  have r1: "race_reach [] ?s0 ?s1"
    using reach_step [OF reach_start race_step.snapshot [of ?s0 7 "[]" "''a''"]] by (simp add: n)
  let ?s2 = "set_thread 7 (Some (Scanning ''a'' [4, 9] 0 None 0)) (?s1\<lparr>rc_neg := ?c0\<rparr>)"
  have r2: "race_reach [] ?s0 ?s2"
    using reach_step [OF r1 race_step.ask [of ?s1 7 "''a''" "[4, 9]" 0 None ?c0 "[]"]]
    by (simp add: n l start_layer_def)
  let ?s3 = "set_thread 7 (Some (Scanning ''a'' [4, 9] 0 None (Suc 0))) ?s2"
  have p: "open_probe ?ev [] ''a'' 0 (race_demo 4) = Absent"
    "open_probe ?ev [] ''a'' (Suc 0) (race_demo 9) = Hit (mem_file ''x'')"
    by (simp_all add: open_probe_def race_demo_def mem_layer_def is_not_exist_def layer_check_def disk_root_def)
  have r3: "race_reach [] ?s0 ?s3"
    using reach_step [OF r2 race_step.probe_absent [of ?s2 7 "''a''" "[4, 9]" 0 None 0 ?ev "[]"]] p
    by (simp add: n set_thread_def)
  let ?s4 = "set_thread 7 (Some (Storing ''a'' (Suc 0) 0)) ?s3"
  have r4: "race_reach [] ?s0 ?s4"
    using reach_step [OF r3 race_step.probe_hit [of ?s3 7 "''a''" "[4, 9]" 0 None "Suc 0" ?ev "[]" "mem_file ''x''"]] p
    by (simp add: n set_thread_def)
  let ?c = "neg_cache_store ''a'' \<lparr>first_candidate_layer = Suc 0\<rparr> 0 ?c0"
  let ?s5 = "set_thread 7 None (?s4\<lparr>rc_neg := ?c\<rparr>)"
  have r5: "race_reach [] ?s0 ?s5"
    using reach_step [OF r4 race_step.keep [of ?s4 7 "''a''" "Suc 0" 0 "[]"]] by (simp add: n set_thread_def)
  obtain r c where k: "neg_cache_lookup ''a'' ?c = (r, c)" by force
  have "r = Some \<lparr>first_candidate_layer = Suc 0\<rparr>"
    using neg_cache_lookup_spec(1) [OF neg_cache_store_inv [OF neg_inv_new] k]
      neg_cache_store_hit [OF neg_inv_new, of 4 "''a''" "\<lparr>first_candidate_layer = Suc 0\<rparr>"] n(7)
    by (simp add: neg_cache_new_def)
  then show ?thesis
    using race_cache_sound [OF r5, of "''a''" r c ?ev] r5 k by (intro exI [of _ ?s5] exI [of _ r] exI [of _ c]) (simp add: n set_thread_def)
qed

end
