(* ===== verification/Context_Overlay.thy ===== *)
theory Context_Overlay
  imports Overlay_Thms
begin

text \<open>
  The overlay with a request context (\<open>internal/overlayfs/context.go\<close>): cancellation, the warning for
  refused paths, debug lines and spans around the operations of the overlay. A context is its
  error, the strings under the two keys of the package and the resolution it carries; spans and
  log lines are lists, durations are left out.
\<close>

subsection \<open>Contexts\<close>

record request_context =
  rc_err :: "string option"
  rc_request_id :: "string option"
  rc_remote_addr :: "string option"
  rc_resolution :: "resolution option"

datatype context_key = RequestIDKey | RemoteAddrKey

definition context_string :: "request_context \<Rightarrow> context_key \<Rightarrow> string" where
  "context_string ctx key =
     (case (case key of RequestIDKey \<Rightarrow> rc_request_id ctx | RemoteAddrKey \<Rightarrow> rc_remote_addr ctx) of
        None \<Rightarrow> '''' | Some v \<Rightarrow> v)"

definition resolution_from_context :: "request_context \<Rightarrow> resolution option" where
  "resolution_from_context ctx = rc_resolution ctx"

definition context_with_resolution :: "request_context \<Rightarrow> resolution \<Rightarrow> request_context" where
  "context_with_resolution ctx r = ctx\<lparr>rc_resolution := Some r\<rparr>"

datatype context_log =
    TraversalWarning string string string string   \<comment> \<open>operation, path, request ID, address\<close>
  | OperationLog string string string "fs_error option"

record op_span =
  os_operation :: string
  os_path :: string
  os_layer :: "(string \<times> nat) option"
  os_error :: "fs_error option"

text \<open>The logger, if any, and whether it takes debug lines.\<close>

record context_overlay =
  cx_inner :: overlay
  cx_logger :: "bool option"
  cx_log :: "context_log list"
  cx_spans :: "op_span list"

definition new_context_overlay :: "overlay option \<Rightarrow> bool option \<Rightarrow> (string, context_overlay) result" where
  "new_context_overlay inner logger =
     (case inner of
        None \<Rightarrow> Err ''overlayfs: NewContextOverlayFS called with nil OverlayFS''
      | Some ov \<Rightarrow> Ok \<lparr>cx_inner = ov, cx_logger = logger, cx_log = [], cx_spans = []\<rparr>)"

subsection \<open>Around an operation\<close>

definition check_path ::
  "request_context \<Rightarrow> string \<Rightarrow> string \<Rightarrow> context_overlay \<Rightarrow> fs_error option \<times> context_overlay" where
  "check_path ctx op name c =
     (if valid_path name then (None, c)
      else (Some (PathError op name ErrInvalid),
            if cx_logger c = None then c
            else c\<lparr>cx_log := cx_log c @ [TraversalWarning op name (context_string ctx RequestIDKey)
                     (context_string ctx RemoteAddrKey)]\<rparr>))"

definition log_operation ::
  "request_context \<Rightarrow> string \<Rightarrow> string \<Rightarrow> fs_error option \<Rightarrow> context_overlay \<Rightarrow> context_overlay" where
  "log_operation ctx op name err c =
     (if cx_logger c = Some True
      then c\<lparr>cx_log := cx_log c @ [OperationLog op name (context_string ctx RequestIDKey) err]\<rparr> else c)"

definition record_resolution :: "evaluator \<Rightarrow> string \<Rightarrow> overlay \<Rightarrow> (string \<times> nat) option" where
  "record_resolution ev name ov =
     (case ov_resolve ev name ov of Inl e \<Rightarrow> None | Inr res \<Rightarrow> Some (res_name res, res_index res))"

definition error_part :: "('e, 'a) result \<Rightarrow> 'e option" where
  "error_part r = (case r of Inl e \<Rightarrow> Some e | Inr _ \<Rightarrow> None)"

text \<open>What the five operations share; \<open>resolves\<close> is false for directories.\<close>

definition context_operation ::
  "string \<Rightarrow> bool \<Rightarrow> (evaluator \<Rightarrow> string \<Rightarrow> overlay \<Rightarrow> (fs_error, 'a) result \<times> overlay) \<Rightarrow>
   request_context \<Rightarrow> evaluator \<Rightarrow> string \<Rightarrow> context_overlay \<Rightarrow> (fs_error, 'a) result \<times> context_overlay" where
  "context_operation op resolves act ctx ev name c =
     (case check_path ctx op name c of
        (Some e, c1) \<Rightarrow> (Err e, c1)
      | (None, c1) \<Rightarrow>
          (case rc_err ctx of
             Some e \<Rightarrow> (Err (CtxError op name e), c1)
           | None \<Rightarrow>
               (let (r, ov) = act ev name (cx_inner c1);
                    span = \<lparr>os_operation = op, os_path = name,
                            os_layer = (if resolves then record_resolution ev name ov else None), os_error = error_part r\<rparr>
                in (r, log_operation ctx op name (error_part r)
                         (c1\<lparr>cx_inner := ov, cx_spans := cx_spans c1 @ [span]\<rparr>)))))"

definition context_open where
  "context_open = context_operation ''open'' True ov_open"

definition context_read_file where
  "context_read_file = context_operation ''readfile'' True ov_read_file"

definition context_read_dir where
  "context_read_dir = context_operation ''readdir'' False ov_read_dir"

definition context_stat where
  "context_stat = context_operation ''stat'' True ov_stat"

definition context_open_file where
  "context_open_file = context_operation ''openfile'' True ov_open_file"

definition context_invalidate_layer :: "int \<Rightarrow> context_overlay \<Rightarrow> context_overlay" where
  "context_invalidate_layer idx c = c\<lparr>cx_inner := ov_invalidate_layer idx (cx_inner c)\<rparr>"

definition context_invalidate_all :: "context_overlay \<Rightarrow> context_overlay" where
  "context_invalidate_all c = c\<lparr>cx_inner := ov_invalidate_all (cx_inner c)\<rparr>"

definition context_replace_layer :: "int \<Rightarrow> layer \<Rightarrow> context_overlay \<Rightarrow> fs_error option \<times> context_overlay" where
  "context_replace_layer idx l c = (case ov_replace_layer idx l (cx_inner c) of (e, ov) \<Rightarrow> (e, c\<lparr>cx_inner := ov\<rparr>))"

subsection \<open>The context changes no answer\<close>

lemma context_operation_cases:
  "context_operation op resolves act ctx ev name c = (r, c') \<Longrightarrow>
     (if \<not> valid_path name then r = Err (PathError op name ErrInvalid) \<and> cx_inner c' = cx_inner c \<and> cx_spans c' = cx_spans c
      else case rc_err ctx of
        Some e \<Rightarrow> r = Err (CtxError op name e) \<and> c' = c
      | None \<Rightarrow> act ev name (cx_inner c) = (r, cx_inner c') \<and>
          (\<exists>sp. cx_spans c' = cx_spans c @ [sp] \<and> os_operation sp = op \<and> os_path sp = name \<and> os_error sp = error_part r))"
  by (auto simp: context_operation_def check_path_def log_operation_def Let_def split: option.splits prod.splits if_splits)

text \<open>
  A read through a context of a request that is still wanted is answered as the layers alone
  say, whatever the cache holds, and the overlay stays one whose cache is sound; a refused path
  and a cancelled request leave the overlay as it is.
\<close>

theorem context_reads_transparent:
  assumes "ov_sound (cx_inner c)" and "context_read_file ctx ev name c = (r, c')"
  shows "ov_sound (cx_inner c') \<and>
    (valid_path name \<and> rc_err ctx = None \<longrightarrow> r = spec_read_file ev (ov_metas (cx_inner c)) (ov_layers (cx_inner c)) name) \<and>
    (\<not> valid_path name \<or> rc_err ctx \<noteq> None \<longrightarrow> \<not> is_ok r \<and> cx_inner c' = cx_inner c)"
proof -
  note k = context_operation_cases [OF assms(2) [unfolded context_read_file_def]]
  show ?thesis
  proof (cases "valid_path name \<and> rc_err ctx = None")
    case True
    then have "ov_read_file ev name (cx_inner c) = (r, cx_inner c')" using k by simp
    from ov_read_file_refines [OF assms(1) this] show ?thesis using True by simp
  next
    case False
    then show ?thesis using k assms(1) by (auto split: if_splits option.splits)
  qed
qed
end
