(* ===== verification/Rate_Limiter.thy ===== *)
theory Rate_Limiter
  imports Go_List "HOL-Library.Monad_Syntax"
begin

text \<open>
  The sliding-window rate limiter of \<open>internal/gitops/webhook.go\<close>: one list of accepted times
  per client address, the addresses in a recency list of bounded length. Times are
  nanoseconds; \<open>ts.After(cutoff)\<close> is \<open>cutoff < ts\<close>. A Go pointer to a limiter that may be nil
  is an option.
\<close>

record rl_entry =
  rl_ip :: string
  rl_stamps :: "int list"

record rate_limiter =
  rl_limit :: int
  rl_window :: int
  rl_max :: nat
  rl_entries :: "string \<rightharpoonup> nat"
  rl_lru :: "rl_entry glist"

definition default_max_clients :: nat where
  "default_max_clients = 10000"

definition minute :: int where
  "minute = 60 * 10 ^ 9"

definition new_rate_limiter :: "int \<Rightarrow> rate_limiter option" where
  "new_rate_limiter limit =
     (if limit \<le> 0 then None
      else Some \<lparr>rl_limit = limit, rl_window = minute, rl_max = default_max_clients,
                 rl_entries = Map.empty, rl_lru = list_new\<rparr>)"

definition rl_drop :: "nat \<Rightarrow> rl_entry \<Rightarrow> rate_limiter \<Rightarrow> rate_limiter" where
  "rl_drop p e rl = rl\<lparr>rl_lru := gl_remove p (rl_lru rl), rl_entries := (rl_entries rl)(rl_ip e := None)\<rparr>"

lemma gl_remove_back_less:
  "gl_back l = Some (p, e) \<Longrightarrow> gl_len (gl_remove p l) < gl_len l"
  using gl_back_member [of l p e] by (auto simp: gl_len_def gl_remove_def intro!: length_filter_less)

function evict_expired :: "int \<Rightarrow> rate_limiter \<Rightarrow> rate_limiter" where
  "evict_expired cutoff rl =
     (case gl_back (rl_lru rl) of
        None \<Rightarrow> rl
      | Some (p, e) \<Rightarrow>
          (if rl_stamps e \<noteq> [] \<and> cutoff < last (rl_stamps e) then rl
           else evict_expired cutoff (rl_drop p e rl)))"
  by pat_completeness auto
termination
  by (relation "measure (\<lambda>(cutoff, rl). gl_len (rl_lru rl))") (auto simp: rl_drop_def gl_remove_back_less)

declare evict_expired.simps [simp del]

definition evict_oldest :: "rate_limiter \<Rightarrow> rate_limiter" where
  "evict_oldest rl =
     (case gl_back (rl_lru rl) of None \<Rightarrow> rl | Some (p, e) \<Rightarrow> rl_drop p e rl)"

text \<open>
  The loop that makes room for a new address. It compares the map's size with the bound and
  removes from the list, so on a list that disagrees with the map it would spin; not
  returning is \<open>None\<close>, and \<open>make_room_returns\<close> excludes it.
\<close>

partial_function (option) make_room :: "rate_limiter \<Rightarrow> rate_limiter option" where
  "make_room rl =
     (if rl_max rl \<le> card (dom (rl_entries rl)) then make_room (evict_oldest rl) else Some rl)"

definition rl_allow :: "string \<Rightarrow> int \<Rightarrow> rate_limiter \<Rightarrow> (bool \<times> rate_limiter) option" where
  "rl_allow ip now rl0 =
     (let cutoff = now - rl_window rl0;
          rl = evict_expired cutoff rl0 in
      case rl_entries rl ip of
        Some p \<Rightarrow>
          (let l = gl_move_to_front p (rl_lru rl);
               stamps = (case gl_value p l of None \<Rightarrow> [] | Some e \<Rightarrow> rl_stamps e);
               valid = filter (\<lambda>ts. cutoff < ts) stamps in
           if rl_limit rl \<le> int (length valid)
           then Some (False, rl\<lparr>rl_lru := gl_set_value p \<lparr>rl_ip = ip, rl_stamps = valid\<rparr> l\<rparr>)
           else Some (True, rl\<lparr>rl_lru := gl_set_value p \<lparr>rl_ip = ip, rl_stamps = valid @ [now]\<rparr> l\<rparr>))
      | None \<Rightarrow>
          do {
            rl1 \<leftarrow> make_room rl;
            let (p, l) = gl_push_front \<lparr>rl_ip = ip, rl_stamps = [now]\<rparr> (rl_lru rl1);
            Some (True, rl1\<lparr>rl_lru := l, rl_entries := (rl_entries rl1)(ip \<mapsto> p)\<rparr>)
          })"

subsection \<open>Invariant\<close>

definition rl_view :: "rate_limiter \<Rightarrow> string \<Rightarrow> int list" where
  "rl_view rl ip =
     (case list_view (rl_entries rl) (rl_lru rl) ip of None \<Rightarrow> [] | Some e \<Rightarrow> rl_stamps e)"

definition rl_inv :: "rate_limiter \<Rightarrow> bool" where
  "rl_inv rl \<longleftrightarrow> coherent rl_ip (rl_entries rl) (rl_lru rl) \<and> 0 < rl_max rl \<and> 0 < rl_limit rl \<and>
     0 < rl_window rl \<and> card (dom (rl_entries rl)) \<le> rl_max rl \<and>
     (\<forall>ip. sorted (rl_view rl ip) \<and> int (length (rl_view rl ip)) \<le> rl_limit rl)"

definition same_bounds :: "rate_limiter \<Rightarrow> rate_limiter \<Rightarrow> bool" where
  "same_bounds a b \<longleftrightarrow> rl_limit b = rl_limit a \<and> rl_window b = rl_window a \<and> rl_max b = rl_max a"

lemma same_bounds_refl [simp]: "same_bounds a a"
  by (simp add: same_bounds_def)

lemma rl_inv_new: "new_rate_limiter limit = Some rl \<Longrightarrow> rl_inv rl"
  by (auto simp: new_rate_limiter_def rl_inv_def rl_view_def list_view_def default_max_clients_def
      minute_def split: if_splits)

lemma sorted_le_last: "sorted xs \<Longrightarrow> x \<in> set xs \<Longrightarrow> x \<le> last xs"
  by (induction xs) auto

lemma rl_drop_spec:
  assumes "rl_inv rl" and "gl_back (rl_lru rl) = Some (p, e)"
  shows "rl_inv (rl_drop p e rl)" and "same_bounds rl (rl_drop p e rl)"
    and "rl_view (rl_drop p e rl) ip = (if ip = rl_ip e then [] else rl_view rl ip)"
    and "rl_view rl (rl_ip e) = rl_stamps e"
    and "dom (rl_entries (rl_drop p e rl)) = dom (rl_entries rl) - {rl_ip e}"
    and "card (dom (rl_entries (rl_drop p e rl))) < card (dom (rl_entries rl))"
proof -
  have c: "coherent rl_ip (rl_entries rl) (rl_lru rl)" using assms(1) by (simp add: rl_inv_def)
  note b = coherent_drop_back [OF c assms(2)]
  have v: "rl_view (rl_drop p e rl) ip = (if ip = rl_ip e then [] else rl_view rl ip)" for ip
    by (simp add: rl_view_def rl_drop_def b(2))
  show "rl_view (rl_drop p e rl) ip = (if ip = rl_ip e then [] else rl_view rl ip)" by (rule v)
  show "rl_view rl (rl_ip e) = rl_stamps e" by (simp add: rl_view_def b(4))
  show "same_bounds rl (rl_drop p e rl)" by (simp add: same_bounds_def rl_drop_def)
  show "dom (rl_entries (rl_drop p e rl)) = dom (rl_entries rl) - {rl_ip e}" by (simp add: rl_drop_def)
  have k: "card (dom (rl_entries (rl_drop p e rl))) = gl_len (gl_remove p (rl_lru rl))"
    using coherent_card(2) [OF b(1)] by (simp add: rl_drop_def)
  then show l: "card (dom (rl_entries (rl_drop p e rl))) < card (dom (rl_entries rl))"
    using b(3) coherent_card(2) [OF c] by simp
  show "rl_inv (rl_drop p e rl)"
    using assms(1) l b(1) unfolding rl_inv_def v by (simp add: rl_drop_def)
qed

lemma evict_expired_spec:
  assumes "rl_inv rl"
  shows "rl_inv (evict_expired cutoff rl) \<and> same_bounds rl (evict_expired cutoff rl) \<and>
    dom (rl_entries (evict_expired cutoff rl)) \<subseteq> dom (rl_entries rl) \<and>
    (\<forall>ip. rl_view (evict_expired cutoff rl) ip = rl_view rl ip \<or>
          rl_view (evict_expired cutoff rl) ip = [] \<and> (\<forall>t \<in> set (rl_view rl ip). t \<le> cutoff))"
  using assms
proof (induction cutoff rl rule: evict_expired.induct)
  case (1 cutoff rl)
  show ?case
  proof (cases "gl_back (rl_lru rl)")
    case None
    then show ?thesis using 1(2) by (simp add: evict_expired.simps)
  next
    case (Some pe)
    obtain p e where b: "gl_back (rl_lru rl) = Some (p, e)" using Some by (cases pe) auto
    note d = rl_drop_spec [OF 1(2) b]
    show ?thesis
    proof (cases "rl_stamps e \<noteq> [] \<and> cutoff < last (rl_stamps e)")
      case True
      then show ?thesis using 1(2) b by (simp add: evict_expired.simps)
    next
      case False
      have "sorted (rl_stamps e)" using 1(2) d(4) unfolding rl_inv_def by metis
      then have t: "\<forall>t \<in> set (rl_stamps e). t \<le> cutoff" using False sorted_le_last by fastforce
      have "evict_expired cutoff rl = evict_expired cutoff (rl_drop p e rl)"
        using False b by (subst evict_expired.simps) auto
      then show ?thesis
        using 1(1) [OF b refl False d(1)] d(2-5) t unfolding same_bounds_def by (smt (verit) DiffD1 subset_iff)
    qed
  qed
qed

lemma make_room_returns:
  assumes "rl_inv rl"
  shows "\<exists>rl'. make_room rl = Some rl' \<and> rl_inv rl' \<and> same_bounds rl rl' \<and>
    card (dom (rl_entries rl')) < rl_max rl' \<and> dom (rl_entries rl') \<subseteq> dom (rl_entries rl) \<and>
    (card (dom (rl_entries rl)) < rl_max rl \<longrightarrow> rl' = rl) \<and>
    (\<forall>ip. rl_view rl' ip = rl_view rl ip \<or> rl_view rl' ip = [])"
proof (cases "rl_max rl \<le> card (dom (rl_entries rl))")
  case True
  have "gl_len (rl_lru rl) \<noteq> 0"
    using True assms coherent_card(2) [of rl_ip "rl_entries rl" "rl_lru rl"] by (simp add: rl_inv_def)
  then obtain p e where b: "gl_back (rl_lru rl) = Some (p, e)"
    using gl_back_None [of "rl_lru rl"] by (cases "gl_back (rl_lru rl)") auto
  note d = rl_drop_spec [OF assms b]
  have m: "rl_max (rl_drop p e rl) = rl_max rl" using d(2) by (simp add: same_bounds_def)
  have "card (dom (rl_entries (rl_drop p e rl))) < rl_max rl"
    using d(6) assms by (simp add: rl_inv_def)
  then have "make_room rl = Some (rl_drop p e rl)"
    using True b m by (subst make_room.simps, subst make_room.simps) (simp add: evict_oldest_def)
  then show ?thesis using d m \<open>card _ < rl_max rl\<close> True by auto
next
  case False
  then show ?thesis using assms by (subst make_room.simps) auto
qed

subsection \<open>One request\<close>

definition fresh :: "int \<Rightarrow> int list \<Rightarrow> int list" where
  "fresh cutoff ts = filter (\<lambda>t. cutoff < t) ts"

lemma fresh_simps [simp]:
  "fresh c [] = []" "fresh c (xs @ ys) = fresh c xs @ fresh c ys"
  "fresh c (fresh c xs) = fresh c xs" "set (fresh c xs) = {t \<in> set xs. c < t}"
  "sorted xs \<Longrightarrow> sorted (fresh c xs)"
  by (simp_all add: fresh_def sorted_wrt_filter)

lemma fresh_Nil_iff: "fresh c xs = [] \<longleftrightarrow> (\<forall>t \<in> set xs. t \<le> c)"
  by (auto simp: fresh_def filter_empty_conv not_less)

lemma fresh_mono: "c \<le> d \<Longrightarrow> fresh d (fresh c xs) = fresh d xs"
  by (auto simp: fresh_def intro: filter_cong)

text \<open>What one request does to the addresses' accepted times, those out of the window aside.\<close>

lemma rl_allow_spec:
  assumes i: "rl_inv rl" and now0: "\<forall>j. \<forall>t \<in> set (rl_view rl j). t \<le> now"
  defines "w \<equiv> now - rl_window rl"
  shows "\<exists>ok rl'. rl_allow ip now rl = Some (ok, rl') \<and> rl_inv rl' \<and> same_bounds rl rl' \<and>
    (ok \<longleftrightarrow> int (length (fresh w (rl_view rl ip))) < rl_limit rl) \<and>
    fresh w (rl_view rl' ip) = fresh w (rl_view rl ip) @ (if ok then [now] else []) \<and>
    (\<forall>j t. t \<in> set (rl_view rl' j) \<longrightarrow> t \<le> now) \<and>
    (ip \<in> dom (rl_entries rl) \<or> card (dom (rl_entries rl)) < rl_max rl \<longrightarrow>
       (\<forall>j. j \<noteq> ip \<longrightarrow> fresh w (rl_view rl' j) = fresh w (rl_view rl j))) \<and>
    dom (rl_entries rl') \<subseteq> insert ip (dom (rl_entries rl))"
proof -
  have now: "t \<le> now" if "t \<in> set (rl_view rl j)" for t j using now0 that by blast
  define rl1 where "rl1 = evict_expired w rl"
  have e: "rl_inv rl1" "same_bounds rl rl1" "dom (rl_entries rl1) \<subseteq> dom (rl_entries rl)"
    "\<And>j. rl_view rl1 j = rl_view rl j \<or> rl_view rl1 j = [] \<and> (\<forall>t \<in> set (rl_view rl j). t \<le> w)"
    using evict_expired_spec [OF i, of w] by (simp_all add: rl1_def)
  have f: "fresh w (rl_view rl1 j) = fresh w (rl_view rl j)" for j
    using e(4) [of j] fresh_Nil_iff [of w "rl_view rl j"] by auto
  have old: "t \<in> set (rl_view rl1 j) \<Longrightarrow> t \<le> now" for j t
    using e(4) [of j] now [of t j] by auto
  have c: "coherent rl_ip (rl_entries rl1) (rl_lru rl1)" using e(1) by (simp add: rl_inv_def)
  have lim: "rl_limit rl1 = rl_limit rl" using e(2) by (simp add: same_bounds_def)
  have wnow: "w < now" using i by (simp add: w_def rl_inv_def)
  have s1: "sorted (rl_view rl1 j)" for j using e(1) by (simp add: rl_inv_def)
  show ?thesis
  proof (cases "rl_entries rl1 ip")
    case (Some p)
    define ok where "ok = (int (length (fresh w (rl_view rl ip))) < rl_limit rl)"
    define ts where "ts = fresh w (rl_view rl ip) @ (if ok then [now] else [])"
    let ?v = "\<lparr>rl_ip = ip, rl_stamps = ts\<rparr>"
    define rl' where "rl' = rl1\<lparr>rl_lru := gl_set_value p ?v (gl_move_to_front p (rl_lru rl1))\<rparr>"
    note cm = coherent_move [OF c Some] and vm = list_view_move [OF c Some]
    have k: "rl_entries rl1 (rl_ip ?v) = Some p" using Some by simp
    note cs = coherent_set_value [OF cm k] and vs = list_view_set_value [OF cm k, unfolded vm]
    obtain x where x: "gl_value p (gl_move_to_front p (rl_lru rl1)) = Some x"
      using coherent_value [OF cm Some] by blast
    then have "list_view (rl_entries rl1) (gl_move_to_front p (rl_lru rl1)) ip = Some x"
      using Some by (simp add: list_view_def)
    then have "list_view (rl_entries rl1) (rl_lru rl1) ip = Some x" by (simp only: vm)
    then have st: "rl_stamps x = rl_view rl1 ip" by (simp add: rl_view_def)
    have a: "rl_allow ip now rl = Some (ok, rl')"
      using Some x lim f [of ip] unfolding rl_allow_def rl'_def ts_def ok_def fresh_def
      by (simp add: Let_def w_def [symmetric] rl1_def [symmetric] st)
    have v: "rl_view rl' j = (if j = ip then ts else rl_view rl1 j)" for j
      by (simp add: rl_view_def rl'_def vs)
    have so: "sorted (fresh w (rl_view rl ip))"
      using s1 [of ip] f [of ip] fresh_simps(5) by metis
    have "length (fresh w (rl_view rl ip)) \<le> length (rl_view rl ip)" by (simp add: fresh_def)
    moreover have "int (length (rl_view rl ip)) \<le> rl_limit rl" using i by (simp add: rl_inv_def)
    ultimately have le: "int (length (fresh w (rl_view rl ip))) \<le> rl_limit rl" by linarith
    have "int (length ts) \<le> rl_limit rl" using le by (cases ok) (simp_all add: ts_def ok_def)
    moreover have "sorted ts" using so now by (auto simp: ts_def sorted_append)
    moreover have "\<forall>t \<in> set ts. t \<le> now" using now by (auto simp: ts_def)
    ultimately have ts: "sorted ts" "int (length ts) \<le> rl_limit rl" "\<forall>t \<in> set ts. t \<le> now" by auto
    have "rl_inv rl'"
      using e(1) cs ts lim unfolding rl_inv_def v by (simp add: rl'_def)
    moreover have "fresh w (rl_view rl' ip) = fresh w (rl_view rl ip) @ (if ok then [now] else [])"
      using wnow by (simp add: v ts_def fresh_def)
    moreover have "same_bounds rl rl'" using e(2) by (simp add: same_bounds_def rl'_def)
    moreover have "dom (rl_entries rl') \<subseteq> insert ip (dom (rl_entries rl))" using e(3) by (auto simp: rl'_def)
    moreover have "t \<le> now" if "t \<in> set (rl_view rl' j)" for j t
      using that ts(3) old [of t j] by (auto simp: v split: if_splits)
    ultimately show ?thesis
      using a f by (intro exI [of _ ok] exI [of _ rl']) (simp add: v ok_def)
  next
    case None
    obtain rl2 where r: "make_room rl1 = Some rl2" "rl_inv rl2" "same_bounds rl1 rl2"
      "card (dom (rl_entries rl2)) < rl_max rl2" "dom (rl_entries rl2) \<subseteq> dom (rl_entries rl1)"
      "card (dom (rl_entries rl1)) < rl_max rl1 \<longrightarrow> rl2 = rl1"
      "\<And>j. rl_view rl2 j = rl_view rl1 j \<or> rl_view rl2 j = []"
      using make_room_returns [OF e(1)] by blast
    let ?v = "\<lparr>rl_ip = ip, rl_stamps = [now]\<rparr>"
    obtain p l where p: "gl_push_front ?v (rl_lru rl2) = (p, l)" by force
    define rl' where "rl' = rl2\<lparr>rl_lru := l, rl_entries := (rl_entries rl2)(ip \<mapsto> p)\<rparr>"
    have c2: "coherent rl_ip (rl_entries rl2) (rl_lru rl2)" using r(2) by (simp add: rl_inv_def)
    have n: "rl_entries rl2 (rl_ip ?v) = None" using None r(5) by auto
    have v: "rl_view rl' j = (if j = ip then [now] else rl_view rl2 j)" for j
      using list_view_push [OF c2 n p] by (simp add: rl_view_def rl'_def)
    have a: "rl_allow ip now rl = Some (True, rl')"
      using None r(1) p unfolding rl_allow_def rl'_def
      by (simp add: Let_def w_def [symmetric] rl1_def [symmetric])
    have "rl_view rl1 ip = []" using None c by (simp add: rl_view_def list_view_dom list_view_def)
    then have z: "fresh w (rl_view rl ip) = []" using f [of ip] by simp
    have "finite (dom (rl_entries rl2))" using coherent_card(1) [OF c2] .
    then have "card (dom (rl_entries rl')) \<le> rl_max rl'"
      using r(4) by (simp add: rl'_def card_insert_if)
    then have "rl_inv rl'"
      using r(2) coherent_push [OF c2 n p] unfolding rl_inv_def v by (auto simp: rl'_def)
    moreover have "fresh w (rl_view rl' j) = fresh w (rl_view rl j)"
      if "ip \<in> dom (rl_entries rl) \<or> card (dom (rl_entries rl)) < rl_max rl" "j \<noteq> ip" for j
    proof -
      have fin: "finite (dom (rl_entries rl))"
        using i coherent_card(1) unfolding rl_inv_def by blast
      have "card (dom (rl_entries rl1)) < rl_max rl1"
      proof (cases "ip \<in> dom (rl_entries rl)")
        case True
        then have "dom (rl_entries rl1) \<subset> dom (rl_entries rl)" using e(3) None by blast
        then have "card (dom (rl_entries rl1)) < card (dom (rl_entries rl))" by (rule psubset_card_mono [OF fin])
        then show ?thesis using i e(2) by (simp add: rl_inv_def same_bounds_def)
      next
        case False
        then have "card (dom (rl_entries rl)) < rl_max rl" using that by blast
        then show ?thesis using card_mono [OF fin e(3)] e(2) by (simp add: same_bounds_def)
      qed
      then have "rl2 = rl1" using r(6) by blast
      then show ?thesis using f that(2) by (simp add: v)
    qed
    moreover have "t \<le> now" if "t \<in> set (rl_view rl' j)" for j t
      using that r(7) [of j] old [of t j] by (auto simp: v split: if_splits)
    moreover have "same_bounds rl rl'" using e(2) r(3) by (simp add: same_bounds_def rl'_def)
    moreover have "dom (rl_entries rl') \<subseteq> insert ip (dom (rl_entries rl))"
    proof -
      have "dom (rl_entries rl') = insert ip (dom (rl_entries rl2))" by (simp add: rl'_def)
      then show ?thesis using e(3) r(5) by blast
    qed
    moreover have "0 < rl_limit rl" using i by (simp add: rl_inv_def)
    ultimately show ?thesis
      using a z wnow by (intro exI [of _ True] exI [of _ rl']) (auto simp: v fresh_def)
  qed
qed

subsection \<open>Many requests\<close>

fun rl_run :: "(string \<times> int) list \<Rightarrow> rate_limiter \<Rightarrow> (bool list \<times> rate_limiter) option" where
  "rl_run [] rl = Some ([], rl)"
| "rl_run ((ip, now) # rs) rl =
     do {
       (ok, rl1) \<leftarrow> rl_allow ip now rl;
       (oks, rl2) \<leftarrow> rl_run rs rl1;
       Some (ok # oks, rl2)
     }"

text \<open>
  The reference: every address has its own list of all times accepted so far, nothing is
  ever evicted, and a request passes when fewer than \<open>limit\<close> of them lie in the window.
\<close>

fun window_run :: "int \<Rightarrow> int \<Rightarrow> (string \<Rightarrow> int list) \<Rightarrow> (string \<times> int) list \<Rightarrow> bool list" where
  "window_run limit w h [] = []"
| "window_run limit w h ((ip, now) # rs) =
     (let ok = int (length (fresh (now - w) (h ip))) < limit in
      ok # window_run limit w (if ok then h(ip := h ip @ [now]) else h) rs)"

fun accepted :: "string \<Rightarrow> (string \<times> int) list \<Rightarrow> bool list \<Rightarrow> int list" where
  "accepted ip ((j, t) # rs) (ok # oks) = (if ok \<and> j = ip then [t] else []) @ accepted ip rs oks"
| "accepted ip _ _ = []"

lemma rl_run_window:
  assumes "rl_inv rl" and "sorted (last_t # map snd rs)"
    and "dom (rl_entries rl) \<union> fst ` set rs \<subseteq> S" and "finite S" and "card S \<le> rl_max rl"
    and "\<And>j t. t \<in> set (rl_view rl j) \<Longrightarrow> t \<le> last_t"
    and "\<And>j c. last_t - rl_window rl \<le> c \<Longrightarrow> fresh c (rl_view rl j) = fresh c (h j)"
  shows "\<exists>rl'. rl_run rs rl = Some (window_run (rl_limit rl) (rl_window rl) h rs, rl') \<and>
    rl_inv rl' \<and> same_bounds rl rl'"
  using assms
proof (induction rs arbitrary: rl h last_t)
  case (Cons r rs)
  obtain ip now where r: "r = (ip, now)" by (cases r)
  have le: "last_t \<le> now" using Cons.prems(2) by (simp add: r)
  let ?w = "now - rl_window rl"
  have old: "\<forall>j. \<forall>t \<in> set (rl_view rl j). t \<le> now"
    using Cons.prems(6) le by (meson order_trans)
  obtain ok rl1 where a: "rl_allow ip now rl = Some (ok, rl1)" "rl_inv rl1" "same_bounds rl rl1"
    "ok \<longleftrightarrow> int (length (fresh ?w (rl_view rl ip))) < rl_limit rl"
    "fresh ?w (rl_view rl1 ip) = fresh ?w (rl_view rl ip) @ (if ok then [now] else [])"
    "\<forall>j t. t \<in> set (rl_view rl1 j) \<longrightarrow> t \<le> now"
    "ip \<in> dom (rl_entries rl) \<or> card (dom (rl_entries rl)) < rl_max rl \<longrightarrow>
       (\<forall>j. j \<noteq> ip \<longrightarrow> fresh ?w (rl_view rl1 j) = fresh ?w (rl_view rl j))"
    "dom (rl_entries rl1) \<subseteq> insert ip (dom (rl_entries rl))"
    using rl_allow_spec [OF Cons.prems(1) old, of ip] by blast
  define h1 where "h1 = (if ok then h(ip := h ip @ [now]) else h)"
  have f: "fresh ?w (rl_view rl j) = fresh ?w (h j)" for j
    using Cons.prems(7) [of ?w j] le by simp
  have room: "ip \<in> dom (rl_entries rl) \<or> card (dom (rl_entries rl)) < rl_max rl"
  proof (rule disjCI)
    assume "\<not> card (dom (rl_entries rl)) < rl_max rl"
    then have "dom (rl_entries rl) = S"
      using Cons.prems(3-5) by (intro card_subset_eq) (auto intro: antisym card_mono)
    then show "ip \<in> dom (rl_entries rl)" using Cons.prems(3) by (auto simp: r)
  qed
  have f1: "fresh ?w (rl_view rl1 j) = fresh ?w (h1 j)" for j
  proof (cases "j = ip")
    case True
    have "?w < now" using Cons.prems(1) by (simp add: rl_inv_def)
    then show ?thesis using True a(5) f [of ip] by (simp add: h1_def) (simp add: fresh_def)
  next
    case False
    then show ?thesis using a(7) room f [of j] by (simp add: h1_def)
  qed
  have w1: "rl_window rl1 = rl_window rl" "rl_limit rl1 = rl_limit rl" "rl_max rl1 = rl_max rl"
    using a(3) by (simp_all add: same_bounds_def)
  have "\<exists>rl'. rl_run rs rl1 = Some (window_run (rl_limit rl1) (rl_window rl1) h1 rs, rl') \<and>
      rl_inv rl' \<and> same_bounds rl1 rl'"
  proof (rule Cons.IH [OF a(2)])
    show "sorted (now # map snd rs)" using Cons.prems(2) by (simp add: r)
    show "dom (rl_entries rl1) \<union> fst ` set rs \<subseteq> S" using a(8) Cons.prems(3) by (auto simp: r)
    show "card S \<le> rl_max rl1" using Cons.prems(5) w1 by simp
    show "t \<le> now" if "t \<in> set (rl_view rl1 j)" for j t using a(6) that by blast
    show "fresh c (rl_view rl1 j) = fresh c (h1 j)" if "now - rl_window rl1 \<le> c" for j c
      using that fresh_mono [of ?w c "rl_view rl1 j"] fresh_mono [of ?w c "h1 j"] f1 [of j] w1 by simp
  qed (rule Cons.prems(4))
  moreover have "window_run (rl_limit rl) (rl_window rl) h (r # rs) =
      ok # window_run (rl_limit rl) (rl_window rl) h1 rs"
    using a(4) f [of ip] by (simp add: r h1_def Let_def)
  ultimately show ?case
    using a(1,3) w1 by (auto simp: r same_bounds_def)
qed simp

lemma window_run_bound:
  assumes "sorted (last_t # map snd rs)" and "0 < limit" and "0 \<le> w"
    and "\<And>t. t \<in> set (h ip) \<Longrightarrow> t \<le> last_t"
    and "int (length (filter (\<lambda>t. x < t \<and> t \<le> x + w) (h ip))) \<le> limit"
  shows "int (length (filter (\<lambda>t. x < t \<and> t \<le> x + w) (h ip @ accepted ip rs (window_run limit w h rs)))) \<le> limit"
  using assms
proof (induction rs arbitrary: h last_t)
  case (Cons r rs)
  obtain j now where r: "r = (j, now)" by (cases r)
  have le: "last_t \<le> now" using Cons.prems(1) by (simp add: r)
  define ok where "ok = (int (length (fresh (now - w) (h j))) < limit)"
  define h1 where "h1 = (if ok then h(j := h j @ [now]) else h)"
  have e: "h ip @ accepted ip (r # rs) (window_run limit w h (r # rs)) =
      h1 ip @ accepted ip rs (window_run limit w h1 rs)"
    by (simp add: r Let_def ok_def [symmetric] h1_def)
  have le1: "t \<le> now" if "t \<in> set (h1 ip)" for t
    using that Cons.prems(4) [of t] le by (auto simp: h1_def split: if_splits)
  have "int (length (filter (\<lambda>t. x < t \<and> t \<le> x + w) (h1 ip))) \<le> limit"
  proof (cases "ok \<and> j = ip \<and> x < now \<and> now \<le> x + w")
    case True
    have "length (filter (\<lambda>t. x < t \<and> t \<le> x + w) (h ip)) \<le> length (fresh (now - w) (h ip))"
      unfolding fresh_def
    proof -
      have "filter (\<lambda>t. x < t \<and> t \<le> x + w) (h ip) =
          filter (\<lambda>t. x < t \<and> t \<le> x + w) (filter (\<lambda>t. now - w < t) (h ip))"
        using True by (auto intro: filter_cong)
      then show "length (filter (\<lambda>t. x < t \<and> t \<le> x + w) (h ip)) \<le>
          length (filter (\<lambda>t. now - w < t) (h ip))"
        by (metis length_filter_le)
    qed
    then show ?thesis using True by (auto simp: h1_def ok_def)
  next
    case False
    then show ?thesis using Cons.prems(5) by (auto simp: h1_def)
  qed
  then have "int (length (filter (\<lambda>t. x < t \<and> t \<le> x + w)
      (h1 ip @ accepted ip rs (window_run limit w h1 rs)))) \<le> limit"
    using Cons.prems(1-3) le1 by (intro Cons.IH [of now]) (auto simp: r)
  then show ?case by (simp only: e)
qed simp

lemma rl_run_new:
  assumes "new_rate_limiter limit = Some rl" and "sorted (map snd rs)"
    and "card (fst ` set rs) \<le> default_max_clients"
  shows "\<exists>rl'. rl_run rs rl = Some (window_run limit minute (\<lambda>_. []) rs, rl')"
proof (cases rs)
  case (Cons r rs')
  have rl: "rl_limit rl = limit" "rl_window rl = minute" "rl_max rl = default_max_clients"
    "rl_entries rl = Map.empty" "rl_lru rl = list_new"
    using assms(1) by (auto simp: new_rate_limiter_def split: if_splits)
  then have v: "rl_view rl j = []" for j by (simp add: rl_view_def list_view_def)
  have "\<exists>rl'. rl_run rs rl = Some (window_run (rl_limit rl) (rl_window rl) (\<lambda>_. []) rs, rl') \<and>
      rl_inv rl' \<and> same_bounds rl rl'"
    by (rule rl_run_window [OF rl_inv_new [OF assms(1)], where last_t = "snd r" and S = "fst ` set rs"])
       (use assms(2,3) v rl in \<open>simp_all add: Cons\<close>)
  then show ?thesis using rl by auto
qed simp

text \<open>
  C14. The limiter with its map, recency list, lazy expiry and eviction decides every sequence
  of requests at non-decreasing times from at most ten thousand addresses exactly as the
  reference does, which remembers everything; in particular it always returns.
\<close>

theorem rate_limiter_exact:
  assumes "new_rate_limiter limit = Some rl" and "sorted (map snd rs)"
    and "card (fst ` set rs) \<le> default_max_clients"
  shows "map_option fst (rl_run rs rl) = Some (window_run limit minute (\<lambda>_. []) rs)"
  using rl_run_new [OF assms] by auto

definition rl_demo :: rate_limiter where
  "rl_demo = the (new_rate_limiter 1)"

theorem rate_limiter_exact_witness:
  "map_option fst (rl_run [(''a'', 1), (''a'', 2), (''b'', 3)] rl_demo) = Some [True, False, True]"
proof -
  have "new_rate_limiter 1 = Some rl_demo" by (simp add: rl_demo_def new_rate_limiter_def)
  from rate_limiter_exact [OF this, of "[(''a'', 1), (''a'', 2), (''b'', 3)]"] show ?thesis
    by (simp add: default_max_clients_def fresh_def minute_def card_insert_if Let_def)
qed

text \<open>
  C29. In a sequence of requests from no more distinct addresses than the limiter has room for
  (10000), at times that do not go back, no address is accepted more than \<open>limit\<close> times in any
  window of one minute, wherever the window starts. With more addresses the eviction of the
  longest unseen one may forget requests of the window.
\<close>

theorem rate_limiter_window_bound:
  assumes "new_rate_limiter limit = Some rl" and "sorted (map snd rs)"
    and "card (fst ` set rs) \<le> default_max_clients" and "rl_run rs rl = Some (oks, rl')"
  shows "int (length (filter (\<lambda>t. x < t \<and> t \<le> x + minute) (accepted ip rs oks))) \<le> limit"
proof (cases rs)
  case Nil
  then show ?thesis using assms(1) by (auto simp: new_rate_limiter_def split: if_splits)
next
  case (Cons r rs')
  have "0 < limit" using assms(1) by (auto simp: new_rate_limiter_def split: if_splits)
  moreover have "oks = window_run limit minute (\<lambda>_. []) rs"
    using rl_run_new [OF assms(1-3)] assms(4) by auto
  moreover have "sorted (snd r # map snd rs)" using assms(2) by (simp add: Cons)
  ultimately show ?thesis
    using window_run_bound [of "snd r" rs limit minute "\<lambda>_. []" ip x] by (simp add: minute_def)
qed

theorem rate_limiter_window_bound_witness:
  "\<exists>oks rl'. rl_run [(''a'', 1), (''a'', 2)] rl_demo = Some (oks, rl') \<and>
     int (length (filter (\<lambda>t. 0 < t \<and> t \<le> 0 + minute) (accepted ''a'' [(''a'', 1), (''a'', 2)] oks))) \<le> 1"
proof -
  have d: "new_rate_limiter 1 = Some rl_demo" by (simp add: rl_demo_def new_rate_limiter_def)
  have c: "card (fst ` set [(''a'', 1 :: int), (''a'', 2)]) \<le> default_max_clients"
    by (simp add: default_max_clients_def)
  have s: "sorted (map snd [(''a'', 1 :: int), (''a'', 2)])" by simp
  obtain rl' where r: "rl_run [(''a'', 1), (''a'', 2)] rl_demo =
      Some (window_run 1 minute (\<lambda>_. []) [(''a'', 1), (''a'', 2)], rl')"
    using rl_run_new [OF d s c] by blast
  show ?thesis using rate_limiter_window_bound [OF d s c r, of 0 "''a''"] r by blast
qed

subsection \<open>The limiter as a store of bounded weight\<close>

definition rl_step :: "string \<times> int \<Rightarrow> rate_limiter \<times> int \<Rightarrow> rate_limiter \<times> int" where
  "rl_step q s =
     (let now = max (snd q) (snd s) in
      case rl_allow (fst q) now (fst s) of None \<Rightarrow> s | Some (ok, rl) \<Rightarrow> (rl, now))"

interpretation rb: bounded_store rl_step "\<lambda>(rl, t). card (dom (rl_entries rl))" n
  "\<lambda>(rl, t). rl_inv rl \<and> rl_max rl = n \<and> (\<forall>j. \<forall>u \<in> set (rl_view rl j). u \<le> t)" for n
proof (unfold_locales, goal_cases)
  case (1 s q)
  obtain rl t where s: "s = (rl, t)" by (cases s)
  have i: "rl_inv rl" "rl_max rl = n" using 1 by (auto simp: s)
  have o: "\<forall>j. \<forall>u \<in> set (rl_view rl j). u \<le> max (snd q) t"
    using 1 by (auto simp: s le_max_iff_disj)
  show ?case
    using rl_allow_spec [OF i(1) o, of "fst q"] i(2) by (auto simp: s rl_step_def Let_def same_bounds_def)
next
  case (2 s)
  then show ?case by (auto simp: rl_inv_def)
qed

lemma rate_limiter_memory:
  assumes "new_rate_limiter limit = Some rl"
  shows "card (dom (rl_entries (fst (run rl_step qs (rl, 0))))) \<le> default_max_clients"
proof -
  have "rl_view rl j = []" for j
    using assms by (auto simp: new_rate_limiter_def rl_view_def list_view_def split: if_splits)
  then show ?thesis
    using rb.run_weight [of default_max_clients "(rl, 0)" qs] rl_inv_new [OF assms] assms
    by (auto simp: new_rate_limiter_def split: if_splits prod.splits)
qed

end
