(* ===== verification/Client_IP.thy ===== *)
theory Client_IP
  imports Go_Paths
begin

text \<open>
  The client address behind trusted proxies (\<open>internal/server/clientip.go\<close>). The parsers of
  \<open>net\<close> and \<open>net/netip\<close> are the fields of a record: an address type \<open>'ip\<close> on which equality is
  \<open>net.IP.Equal\<close>, and for \<open>netip\<close> the canonical text without zone and unmapped. A network is
  its membership test, so the single-address networks built for bare addresses are equality.
\<close>

record 'ip net_lib =
  nl_parse_ip :: "string \<Rightarrow> 'ip option"
  nl_parse_cidr :: "string \<Rightarrow> ('ip \<Rightarrow> bool) option"
  nl_split_host :: "string \<Rightarrow> string option"
  nl_addr :: "string \<Rightarrow> string option"
  nl_addr_port :: "string \<Rightarrow> string option"

fun new_client_ip_resolver :: "'ip net_lib \<Rightarrow> string list \<Rightarrow> (string, ('ip \<Rightarrow> bool) list) result" where
  "new_client_ip_resolver lib [] = Ok []"
| "new_client_ip_resolver lib (c # cs) =
     (let cidr = trim_space c in
      case (case nl_parse_cidr lib cidr of
              Some n \<Rightarrow> Some n
            | None \<Rightarrow> map_option (\<lambda>ip x. x = ip) (nl_parse_ip lib cidr)) of
        None \<Rightarrow> Err cidr
      | Some n \<Rightarrow>
          (case new_client_ip_resolver lib cs of Inl e \<Rightarrow> Err e | Inr ns \<Rightarrow> Ok (n # ns)))"

definition is_trusted :: "'ip net_lib \<Rightarrow> ('ip \<Rightarrow> bool) list \<Rightarrow> string \<Rightarrow> bool" where
  "is_trusted lib nets ip =
     (case nl_parse_ip lib ip of None \<Rightarrow> False | Some p \<Rightarrow> list_ex (\<lambda>n. n p) nets)"

definition extract_ip :: "'ip net_lib \<Rightarrow> string \<Rightarrow> string" where
  "extract_ip lib addr = (case nl_split_host lib addr of None \<Rightarrow> addr | Some host \<Rightarrow> host)"

definition normalize_hop :: "'ip net_lib \<Rightarrow> string \<Rightarrow> string option" where
  "normalize_hop lib hop =
     (if hop = '''' then None
      else case nl_addr lib hop of
        Some a \<Rightarrow> Some a
      | None \<Rightarrow>
          (case nl_addr_port lib hop of
             Some a \<Rightarrow> Some a
           | None \<Rightarrow>
               if 2 < length hop \<and> hd hop = CHR ''['' \<and> last hop = CHR '']''
               then nl_addr lib (butlast (tl hop)) else None))"

text \<open>
  The walk over the hops, from the right: the first untrusted hop ends it with an answer
  (\<open>Inl\<close>); otherwise it ends with the left-most trusted hop reached and whether any non-empty
  hop was met.
\<close>

fun xff_walk ::
  "'ip net_lib \<Rightarrow> ('ip \<Rightarrow> bool) list \<Rightarrow> string list \<Rightarrow> string \<Rightarrow> bool \<Rightarrow> string + string \<times> bool" where
  "xff_walk lib nets [] leftmost saw = Inr (leftmost, saw)"
| "xff_walk lib nets (h # hs) leftmost saw =
     (let raw = trim_space h in
      if raw = '''' then xff_walk lib nets hs leftmost saw
      else case normalize_hop lib raw of
        None \<Rightarrow> Inr (leftmost, True)
      | Some ip \<Rightarrow>
          if \<not> is_trusted lib nets ip then Inl ip else xff_walk lib nets hs ip True)"

definition client_ip ::
  "'ip net_lib \<Rightarrow> ('ip \<Rightarrow> bool) list \<Rightarrow> string \<Rightarrow> string list \<Rightarrow> string \<Rightarrow> string" where
  "client_ip lib nets remote_addr xff real =
     (let remote = extract_ip lib remote_addr in
      if \<not> is_trusted lib nets remote then remote
      else case (if xff \<noteq> []
                 then xff_walk lib nets (rev (split_on CHR '','' (join '','' xff))) '''' False
                 else Inr ('''', False)) of
        Inl ip \<Rightarrow> ip
      | Inr (leftmost, saw) \<Rightarrow>
          if leftmost \<noteq> '''' then leftmost
          else if saw then remote
          else case normalize_hop lib (trim_space real) of Some ip \<Rightarrow> ip | None \<Rightarrow> remote)"

subsection \<open>Spoofing\<close>

lemma split_on_append_any: "split_on d (a @ d # b) = split_on d a @ split_on d b"
proof (induction a)
  case (Cons c a)
  obtain w ws where "split_on d a = w # ws" using split_on_nonempty by (cases "split_on d a") auto
  then show ?case using Cons by auto
qed simp

text \<open>A hop the walk stops at: not empty, and not the address of a trusted proxy.\<close>

definition stopping :: "'ip net_lib \<Rightarrow> ('ip \<Rightarrow> bool) list \<Rightarrow> string \<Rightarrow> bool" where
  "stopping lib nets h =
     (trim_space h \<noteq> '''' \<and>
      (case normalize_hop lib (trim_space h) of None \<Rightarrow> True | Some ip \<Rightarrow> \<not> is_trusted lib nets ip))"

lemma xff_walk_stop:
  "\<exists>h \<in> set hs. stopping lib nets h \<Longrightarrow>
     xff_walk lib nets (hs @ rest) leftmost saw = xff_walk lib nets hs leftmost saw"
proof (induction hs arbitrary: leftmost saw)
  case (Cons h hs)
  show ?case
  proof (cases "stopping lib nets h")
    case True
    then show ?thesis by (auto simp: stopping_def Let_def split: option.splits)
  next
    case False
    then have "\<exists>h \<in> set hs. stopping lib nets h" using Cons.prems by auto
    then show ?thesis using Cons.IH by (simp add: Let_def split: option.split)
  qed
qed simp

lemma xff_walk_saw:
  "\<exists>h \<in> set hs. stopping lib nets h \<Longrightarrow>
     (case xff_walk lib nets hs leftmost saw of Inl _ \<Rightarrow> True | Inr (_, s) \<Rightarrow> s)"
proof (induction hs arbitrary: leftmost saw)
  case (Cons h hs)
  show ?case
  proof (cases "stopping lib nets h")
    case True
    then show ?thesis by (auto simp: stopping_def Let_def split: option.splits)
  next
    case False
    then have "\<exists>h \<in> set hs. stopping lib nets h" using Cons.prems by auto
    then show ?thesis using Cons.IH by (simp add: Let_def split: option.split)
  qed
qed simp

text \<open>
  C15. A client cannot choose its address: if the forwarding headers as the trusted proxies
  left them contain a hop that is not a trusted proxy, then whatever the client put before
  them - in the same header line or in lines of its own - and whatever it put in X-Real-IP,
  the resolved address is the same.
\<close>

theorem client_ip_not_spoofable:
  assumes "join '','' forged = junk @ '','' @ join '','' genuine" and "genuine \<noteq> []"
    and "\<exists>h \<in> set (split_on CHR '','' (join '','' genuine)). stopping lib nets h"
  shows "client_ip lib nets addr forged real = client_ip lib nets addr genuine real'"
proof -
  let ?g = "split_on CHR '','' (join '','' genuine)"
  have f: "forged \<noteq> []" using assms(1) by (cases forged) auto
  have "split_on CHR '','' (join '','' forged) = split_on CHR '','' junk @ ?g"
    unfolding assms(1) by (simp add: split_on_append_any)
  then have w: "xff_walk lib nets (rev (split_on CHR '','' (join '','' forged))) '''' False =
      xff_walk lib nets (rev ?g) '''' False"
    using xff_walk_stop [of "rev ?g" lib nets] assms(3) by simp
  have "case xff_walk lib nets (rev ?g) '''' False of Inl _ \<Rightarrow> True | Inr (_, s) \<Rightarrow> s"
    by (rule xff_walk_saw) (use assms(3) in simp)
  then show ?thesis
    using assms(2) f w by (auto simp: client_ip_def Let_def split: sum.splits)
qed

definition demo_net :: "string net_lib" where
  "demo_net = \<lparr>nl_parse_ip = Some, nl_parse_cidr = (\<lambda>c. None), nl_split_host = Some,
     nl_addr = Some, nl_addr_port = (\<lambda>_. None)\<rparr>"

theorem client_ip_not_spoofable_witness:
  "client_ip demo_net [\<lambda>x. x = ''10.0.0.1''] ''10.0.0.1'' [''6.6.6.6'', ''1.2.3.4''] ''7.7.7.7'' =
   client_ip demo_net [\<lambda>x. x = ''10.0.0.1''] ''10.0.0.1'' [''1.2.3.4''] ''''"
proof (rule client_ip_not_spoofable [where junk = "''6.6.6.6''"])
  show "join '','' [''6.6.6.6'', ''1.2.3.4''] = ''6.6.6.6'' @ '','' @ join '','' [''1.2.3.4'']" by simp
  show "\<exists>h \<in> set (split_on CHR '','' (join '','' [''1.2.3.4''])). stopping demo_net [\<lambda>x. x = ''10.0.0.1''] h"
    by code_simp
qed simp

lemma client_ip_untrusted_peer:
  "\<not> is_trusted lib nets (extract_ip lib addr) \<Longrightarrow> client_ip lib nets addr xff real = extract_ip lib addr"
  by (simp add: client_ip_def)

lemma xff_walk_trusted_suffix:
  assumes "\<forall>t \<in> set us. \<not> stopping lib nets t"
    and "trim_space h \<noteq> ''''" and "normalize_hop lib (trim_space h) = Some ip" and "\<not> is_trusted lib nets ip"
  shows "xff_walk lib nets (us @ h # vs) l b = Inl ip"
  using assms(1)
  by (induction us arbitrary: l b) (use assms(2-) in \<open>auto simp: stopping_def Let_def split: option.splits\<close>)

text \<open>
  A peer that is not a trusted proxy is identified by its connection alone, and a
  trusted one by the right-most hop that is not a trusted proxy when all hops to the right of
  it are addresses of trusted proxies.
\<close>

theorem client_ip_rightmost:
  "(\<not> is_trusted lib nets (extract_ip lib addr) \<longrightarrow> client_ip lib nets addr xff real = extract_ip lib addr) \<and>
   (is_trusted lib nets (extract_ip lib addr) \<and> xff \<noteq> [] \<and>
    split_on CHR '','' (join '','' xff) = hs @ h # ts \<and>
    (\<forall>t \<in> set ts. \<not> stopping lib nets t) \<and>
    trim_space h \<noteq> '''' \<and> normalize_hop lib (trim_space h) = Some ip \<and> \<not> is_trusted lib nets ip \<longrightarrow>
    client_ip lib nets addr xff real = ip)"
  using xff_walk_trusted_suffix [of "rev ts" lib nets h ip "rev hs" "''''" False]
  by (auto simp: client_ip_untrusted_peer) (simp add: client_ip_def)

theorem client_ip_rightmost_witness:
  "client_ip demo_net [\<lambda>x. x = ''10.0.0.1''] ''10.0.0.1'' [''6.6.6.6,1.2.3.4,10.0.0.1''] '''' = ''1.2.3.4'' \<and>
   client_ip demo_net [\<lambda>x. x = ''10.0.0.1''] ''9.9.9.9'' [''6.6.6.6''] '''' = ''9.9.9.9''"
proof -
  have a: "is_trusted demo_net [\<lambda>x. x = ''10.0.0.1''] (extract_ip demo_net ''10.0.0.1'')"
    "\<not> is_trusted demo_net [\<lambda>x. x = ''10.0.0.1''] (extract_ip demo_net ''9.9.9.9'')"
    "split_on CHR '','' (join '','' [''6.6.6.6,1.2.3.4,10.0.0.1'']) = [''6.6.6.6''] @ ''1.2.3.4'' # [''10.0.0.1'']"
    "\<not> stopping demo_net [\<lambda>x. x = ''10.0.0.1''] ''10.0.0.1''"
    "trim_space ''1.2.3.4'' \<noteq> ''''" "normalize_hop demo_net (trim_space ''1.2.3.4'') = Some ''1.2.3.4''"
    "\<not> is_trusted demo_net [\<lambda>x. x = ''10.0.0.1''] ''1.2.3.4''"
    "extract_ip demo_net ''9.9.9.9'' = ''9.9.9.9''"
    by code_simp+
  have "client_ip demo_net [\<lambda>x. x = ''10.0.0.1''] ''10.0.0.1'' [''6.6.6.6,1.2.3.4,10.0.0.1''] '''' = ''1.2.3.4''"
    by (rule client_ip_rightmost [where hs = "[''6.6.6.6'']" and h = "''1.2.3.4''" and ts = "[''10.0.0.1'']",
          THEN conjunct2, THEN mp]) (use a in simp)
  moreover have "client_ip demo_net [\<lambda>x. x = ''10.0.0.1''] ''9.9.9.9'' [''6.6.6.6''] '''' =
      extract_ip demo_net ''9.9.9.9''"
    by (rule client_ip_rightmost [THEN conjunct1, THEN mp]) (rule a(2))
  ultimately show ?thesis using a(8) by simp
qed

end
