(* ===== verification/Webhook.thy ===== *)
theory Webhook
  imports Rate_Limiter Client_IP
begin

text \<open>
  The webhook of \<open>internal/gitops/webhook.go\<close> and \<open>webhook_metrics.go\<close>: construction, the
  handler with its checks in the order of the code, the two per-address budgets and the
  outcome counters. \<open>hmac\<close> (HMAC-SHA256 of a body under a secret) and \<open>json_ref\<close> (the \<open>ref\<close>
  field of a JSON body, \<open>None\<close> when it does not parse) belong to libraries and are fields of
  \<open>hook_lib\<close>; the reloader's verdict comes with each request.
\<close>

subsection \<open>Configuration and state\<close>

record webhook_config =
  wc_path :: string
  wc_secret :: string
  wc_allowed_events :: "string list"
  wc_allowed_ips :: "string list"
  wc_branch_filter :: string
  wc_rate_limit :: int
  wc_max_body :: int

record 'ip hook_lib = "'ip net_lib" +
  hl_hmac :: "string \<Rightarrow> string \<Rightarrow> string"
  hl_json_ref :: "string \<Rightarrow> string option"

record wh_request =
  wq_method :: string
  wq_remote :: string
  wq_xff :: "string list"
  wq_real :: string
  wq_sig :: string
  wq_event :: string
  wq_body :: string
  wq_read_fails :: bool

record wh_state =
  wh_failures :: "rate_limiter option"
  wh_verified :: "rate_limiter option"
  wh_counts :: "string \<Rightarrow> nat"
  wh_reloads :: nat

record wh_response =
  wr_status :: nat
  wr_body :: string
  wr_skipped :: "string option"

record 'ip strategy =
  ws_config :: webhook_config
  ws_resolver :: "('ip \<Rightarrow> bool) list option"

datatype setup_error = BadPath string | EmptySecret | ShortSecret nat | NoResolver

definition new_webhook ::
  "webhook_config \<Rightarrow> ('ip \<Rightarrow> bool) list option \<Rightarrow> (setup_error, 'ip strategy \<times> wh_state) result" where
  "new_webhook cfg resolver =
     (if wc_path cfg = '''' \<or> hd (wc_path cfg) \<noteq> sl then Err (BadPath (wc_path cfg))
      else if wc_secret cfg = '''' then Err EmptySecret
      else if length (wc_secret cfg) < 32 then Err (ShortSecret (length (wc_secret cfg)))
      else if resolver = None then Err NoResolver
      else Ok (\<lparr>ws_config = cfg, ws_resolver = resolver\<rparr>,
               \<lparr>wh_failures = new_rate_limiter (wc_rate_limit cfg),
                wh_verified = new_rate_limiter (wc_rate_limit cfg),
                wh_counts = (\<lambda>_. 0), wh_reloads = 0\<rparr>))"

subsection \<open>Checks\<close>

definition resolve_ip :: "('ip, 'x) hook_lib_scheme \<Rightarrow> ('ip \<Rightarrow> bool) list option \<Rightarrow> wh_request \<Rightarrow> string" where
  "resolve_ip lib resolver r =
     (case resolver of
        Some nets \<Rightarrow> client_ip (net_lib.truncate lib) nets (wq_remote r) (wq_xff r) (wq_real r)
      | None \<Rightarrow> (case nl_split_host lib (wq_remote r) of Some host \<Rightarrow> host | None \<Rightarrow> wq_remote r))"

fun any_entry :: "('ip, 'x) hook_lib_scheme \<Rightarrow> 'ip \<Rightarrow> string list \<Rightarrow> bool" where
  "any_entry lib target [] = False"
| "any_entry lib target (e # es) =
     (let entry = trim_space e in
      case nl_parse_cidr lib entry of
        Some n \<Rightarrow> if n target then True else any_entry lib target es
      | None \<Rightarrow>
          if nl_parse_ip lib entry = Some target then True else any_entry lib target es)"

definition ip_in_cidrs :: "('ip, 'x) hook_lib_scheme \<Rightarrow> string \<Rightarrow> string list \<Rightarrow> bool" where
  "ip_in_cidrs lib ip allowed =
     (case nl_parse_ip lib ip of None \<Rightarrow> False | Some target \<Rightarrow> any_entry lib target allowed)"

definition hex_value :: "char \<Rightarrow> nat option" where
  "hex_value c =
     (let b = byte c in
      if 48 \<le> b \<and> b \<le> 57 then Some (b - 48)
      else if 97 \<le> b \<and> b \<le> 102 then Some (b - 87)
      else if 65 \<le> b \<and> b \<le> 70 then Some (b - 55) else None)"

fun hex_decode :: "string \<Rightarrow> string option" where
  "hex_decode [] = Some []"
| "hex_decode [c] = None"
| "hex_decode (a # b # s) =
     (case (hex_value a, hex_value b, hex_decode s) of
        (Some x, Some y, Some t) \<Rightarrow> Some (char_of (16 * x + y) # t)
      | _ \<Rightarrow> None)"

definition sig_prefix :: string where
  "sig_prefix = ''sha256=''"

definition signature_well_formed :: "string \<Rightarrow> bool" where
  "signature_well_formed h =
     (has_prefix h sig_prefix \<and> length (trim_prefix h sig_prefix) = 2 * 32 \<and>
      hex_decode (trim_prefix h sig_prefix) \<noteq> None)"

definition verify_signature :: "('ip, 'x) hook_lib_scheme \<Rightarrow> string \<Rightarrow> string \<Rightarrow> string \<Rightarrow> bool" where
  "verify_signature lib secret payload h =
     (if \<not> has_prefix h sig_prefix then False
      else case hex_decode (trim_prefix h sig_prefix) of
        None \<Rightarrow> False
      | Some decoded \<Rightarrow> decoded = hl_hmac lib secret payload)"

text \<open>
  Reading through \<open>http.MaxBytesReader\<close>: a body longer than the limit fails with that error
  whatever comes after, a shorter one with the transport's error if it has one.
\<close>

datatype body_read = BodyTooLarge | BodyReadError | Body string

definition body_limit :: "webhook_config \<Rightarrow> int" where
  "body_limit cfg = (if wc_max_body cfg \<le> 0 then 2 ^ 20 else wc_max_body cfg)"

definition read_body :: "int \<Rightarrow> wh_request \<Rightarrow> body_read" where
  "read_body limit r =
     (if limit < int (length (wq_body r)) then BodyTooLarge
      else if wq_read_fails r then BodyReadError
      else Body (wq_body r))"

text \<open>
  The checks that do not need the secret's holder, in order: the first that fails gives the
  outcome, the status and the message of the rejection. What passes is the verified body.
\<close>

type_synonym rejection = "string \<times> nat \<times> string"

definition authenticate ::
  "('ip, 'x) hook_lib_scheme \<Rightarrow> webhook_config \<Rightarrow> string \<Rightarrow> wh_request \<Rightarrow> (rejection, string) result" where
  "authenticate lib cfg ip r =
     (if wc_allowed_ips cfg \<noteq> [] \<and> \<not> ip_in_cidrs lib ip (wc_allowed_ips cfg)
      then Err (''forbidden_ip'', 403, ''source IP not in allowed_ips'')
      else if wq_sig r = '''' then Err (''missing_signature'', 401, ''missing signature'')
      else if \<not> signature_well_formed (wq_sig r)
      then Err (''invalid_signature'', 401, ''invalid signature'')
      else case read_body (body_limit cfg) r of
        BodyTooLarge \<Rightarrow> Err (''body_too_large'', 413, ''request body too large'')
      | BodyReadError \<Rightarrow> Err (''body_read_error'', 400, ''failed to read body'')
      | Body body \<Rightarrow>
          if \<not> verify_signature lib (wc_secret cfg) body (wq_sig r)
          then Err (''invalid_signature'', 401, ''invalid signature'')
          else Ok body)"

definition plain :: "nat \<Rightarrow> string \<Rightarrow> wh_response" where
  "plain status msg = \<lparr>wr_status = status, wr_body = msg, wr_skipped = None\<rparr>"

definition max_echoed_ref_len :: nat where
  "max_echoed_ref_len = 256"

text \<open>The filters of a verified delivery: the outcome and response of the first that refuses it.\<close>

definition delivery_filter ::
  "('ip, 'x) hook_lib_scheme \<Rightarrow> webhook_config \<Rightarrow> wh_request \<Rightarrow> string \<Rightarrow> (string \<times> wh_response) option" where
  "delivery_filter lib cfg r body =
     (if wc_allowed_events cfg \<noteq> [] \<and> wq_event r = ''''
      then Some (''event_rejected'', plain 403 ''missing event header'')
      else if wc_allowed_events cfg \<noteq> [] \<and> wq_event r \<notin> set (wc_allowed_events cfg)
      then Some (''event_rejected'', plain 403 ''event type not allowed'')
      else if wc_branch_filter cfg \<noteq> '''' then
        (case hl_json_ref lib body of
           None \<Rightarrow> Some (''invalid_payload'', plain 400 ''invalid payload'')
         | Some ref \<Rightarrow>
             (if ref \<noteq> ''refs/heads/'' @ wc_branch_filter cfg then
                (let echo = (if length ref > max_echoed_ref_len then take max_echoed_ref_len ref else ref)
                 in Some (''branch_skipped'',
                      \<lparr>wr_status = 202, wr_body = echo @ '' (no action)'', wr_skipped = Some echo\<rparr>))
              else None))
      else None)"

subsection \<open>The handler\<close>

definition bump_outcome :: "string \<Rightarrow> wh_state \<Rightarrow> wh_state" where
  "bump_outcome oc s = s\<lparr>wh_counts := (wh_counts s)(oc := Suc (wh_counts s oc))\<rparr>"

text \<open>\<open>limiter == nil || limiter.allow(ip)\<close>; \<open>None\<close> if the limiter does not return.\<close>

definition budget :: "rate_limiter option \<Rightarrow> string \<Rightarrow> int \<Rightarrow> (bool \<times> rate_limiter option) option" where
  "budget rlo ip now =
     (case rlo of
        None \<Rightarrow> Some (True, None)
      | Some rl \<Rightarrow> map_option (\<lambda>(ok, rl'). (ok, Some rl')) (rl_allow ip now rl))"

definition reject ::
  "string \<Rightarrow> int \<Rightarrow> rejection \<Rightarrow> wh_state \<Rightarrow> (wh_response \<times> wh_state) option" where
  "reject ip now rej s =
     (case rej of (oc, status, msg) \<Rightarrow>
        do {
          (ok, rl) \<leftarrow> budget (wh_failures s) ip now;
          let s1 = s\<lparr>wh_failures := rl\<rparr>;
          if \<not> ok
          then Some (plain 429 ''rate limit exceeded'', bump_outcome ''failure_budget_exceeded'' s1)
          else Some (plain status msg, bump_outcome oc s1)
        })"

definition webhook_handle ::
  "('ip, 'x) hook_lib_scheme \<Rightarrow> 'ip strategy \<Rightarrow> wh_request \<Rightarrow> int \<Rightarrow> bool \<Rightarrow> wh_state \<Rightarrow>
   (wh_response \<times> wh_state) option" where
  "webhook_handle lib ws r now reload_ok s =
     (if wq_method r \<noteq> ''POST'' then Some (plain 405 ''method not allowed'', s)
      else
        let cfg = ws_config ws; ip = resolve_ip lib (ws_resolver ws) r in
        case authenticate lib cfg ip r of
          Inl rej \<Rightarrow> reject ip now rej s
        | Inr body \<Rightarrow>
            (case delivery_filter lib cfg r body of
               Some (oc, resp) \<Rightarrow> Some (resp, bump_outcome oc s)
             | None \<Rightarrow>
                 do {
                   (ok, rl) \<leftarrow> budget (wh_verified s) ip now;
                   let s1 = s\<lparr>wh_verified := rl\<rparr>;
                   if \<not> ok
                   then Some (plain 429 ''rate limit exceeded'', bump_outcome ''verified_budget_exceeded'' s1)
                   else
                     let s2 = s1\<lparr>wh_reloads := Suc (wh_reloads s1)\<rparr> in
                     if \<not> reload_ok
                     then Some (plain 500 ''reload failed'', bump_outcome ''reload_failed'' s2)
                     else Some (plain 200 ''ok'', bump_outcome ''ok'' s2)
                 }))"

end
