(* ===== verification/Webhook_Thms.thy ===== *)
theory Webhook_Thms
  imports Webhook
begin

text \<open>
  What the webhook guarantees: exactly when content is reloaded, one counted outcome per
  request, and that unauthenticated traffic cannot affect verified deliveries.
\<close>

definition wh_inv :: "wh_state \<Rightarrow> bool" where
  "wh_inv s \<longleftrightarrow> pred_option rl_inv (wh_failures s) \<and> pred_option rl_inv (wh_verified s)"

text \<open>The accepted times of a state are in the past of \<open>t\<close>.\<close>

definition wh_past :: "int \<Rightarrow> wh_state \<Rightarrow> bool" where
  "wh_past t s \<longleftrightarrow>
     pred_option (\<lambda>rl. \<forall>j. \<forall>u \<in> set (rl_view rl j). u \<le> t) (wh_failures s) \<and>
     pred_option (\<lambda>rl. \<forall>j. \<forall>u \<in> set (rl_view rl j). u \<le> t) (wh_verified s)"

lemma budget_returns:
  assumes "pred_option rl_inv rlo" and "pred_option (\<lambda>rl. \<forall>j. \<forall>u \<in> set (rl_view rl j). u \<le> t) rlo"
  shows "\<exists>ok rlo'. budget rlo ip t = Some (ok, rlo') \<and> pred_option rl_inv rlo' \<and>
    pred_option (\<lambda>rl. \<forall>j. \<forall>u \<in> set (rl_view rl j). u \<le> t) rlo'"
proof (cases rlo)
  case (Some rl)
  then obtain ok rl' where "rl_allow ip t rl = Some (ok, rl')" "rl_inv rl'"
    "\<forall>j u. u \<in> set (rl_view rl' j) \<longrightarrow> u \<le> t"
    using rl_allow_spec [of rl t ip] assms by auto
  then show ?thesis using Some by (auto simp: budget_def)
qed (auto simp: budget_def intro: exI [of _ True])

lemma wh_past_mono: "wh_past t s \<Longrightarrow> t \<le> u \<Longrightarrow> wh_past u s"
  unfolding wh_past_def pred_option_def by (meson order_trans)

lemma bump_outcome_simps [simp]:
  "wh_failures (bump_outcome oc s) = wh_failures s" "wh_verified (bump_outcome oc s) = wh_verified s"
  "wh_reloads (bump_outcome oc s) = wh_reloads s"
  "wh_counts (bump_outcome oc s) = (wh_counts s)(oc := Suc (wh_counts s oc))"
  by (simp_all add: bump_outcome_def)

text \<open>A request is authentic when it passes every check before the filters.\<close>

definition authentic ::
  "('ip, 'x) hook_lib_scheme \<Rightarrow> 'ip strategy \<Rightarrow> wh_request \<Rightarrow> bool" where
  "authentic lib ws r =
     (wq_method r = ''POST'' \<and>
      is_ok (authenticate lib (ws_config ws) (resolve_ip lib (ws_resolver ws) r) r))"

lemma webhook_handle_junk:
  assumes "\<not> authentic lib ws r" and "wh_inv s" and "wh_past now s"
  shows "\<exists>resp s'. webhook_handle lib ws r now rel s = Some (resp, s') \<and>
    wh_verified s' = wh_verified s \<and> wh_reloads s' = wh_reloads s \<and> wh_inv s' \<and> wh_past now s'"
proof -
  obtain ok rl where "budget (wh_failures s) (resolve_ip lib (ws_resolver ws) r) now = Some (ok, rl)"
    "pred_option rl_inv rl" "pred_option (\<lambda>rl. \<forall>j. \<forall>u \<in> set (rl_view rl j). u \<le> now) rl"
    using budget_returns assms(2,3) unfolding wh_inv_def wh_past_def by blast
  then show ?thesis
    using assms unfolding authentic_def webhook_handle_def reject_def wh_inv_def wh_past_def
    by (auto simp: Let_def split: sum.splits)
qed

lemma webhook_handle_genuine:
  assumes "authentic lib ws r" and "wh_inv s" and "wh_past now s"
  shows "\<exists>resp s'. webhook_handle lib ws r now rel s = Some (resp, s') \<and>
    wh_failures s' = wh_failures s \<and> wh_inv s' \<and> wh_past now s'"
proof -
  obtain ok rl where "budget (wh_verified s) (resolve_ip lib (ws_resolver ws) r) now = Some (ok, rl)"
    "pred_option rl_inv rl" "pred_option (\<lambda>rl. \<forall>j. \<forall>u \<in> set (rl_view rl j). u \<le> now) rl"
    using budget_returns assms(2,3) unfolding wh_inv_def wh_past_def by blast
  then show ?thesis
    using assms unfolding authentic_def webhook_handle_def wh_inv_def wh_past_def
    by (auto simp: Let_def split: sum.splits option.splits prod.splits)
qed

text \<open>For an authentic request, the answer and the verified side do not read the failures side.\<close>

lemma webhook_handle_verified_only:
  assumes "authentic lib ws r" and "wh_verified s = wh_verified t" and "wh_reloads s = wh_reloads t"
    and "webhook_handle lib ws r now rel s = Some (resp, s')"
  shows "\<exists>t'. webhook_handle lib ws r now rel t = Some (resp, t') \<and>
    wh_verified s' = wh_verified t' \<and> wh_reloads s' = wh_reloads t'"
proof (cases "budget (wh_verified t) (resolve_ip lib (ws_resolver ws) r) now")
  case None
  then show ?thesis
    using assms unfolding authentic_def webhook_handle_def
    by (auto simp: Let_def split: sum.splits option.splits prod.splits)
next
  case (Some x)
  obtain ok rl where x: "x = (ok, rl)" by (cases x)
  show ?thesis
    using assms Some unfolding authentic_def webhook_handle_def x
    by (cases ok) (auto simp: Let_def split: sum.splits option.splits prod.splits if_splits)
qed

subsection \<open>Traces\<close>

text \<open>A trace of requests with their times and the reloader's verdicts, and its responses.\<close>

type_synonym wh_event = "wh_request \<times> int \<times> bool"

fun wh_run ::
  "('ip, 'x) hook_lib_scheme \<Rightarrow> 'ip strategy \<Rightarrow> wh_event list \<Rightarrow> wh_state \<Rightarrow>
   (wh_response list \<times> wh_state) option" where
  "wh_run lib ws [] s = Some ([], s)"
| "wh_run lib ws ((r, now, rel) # es) s =
     do {
       (resp, s1) \<leftarrow> webhook_handle lib ws r now rel s;
       (resps, s2) \<leftarrow> wh_run lib ws es s1;
       Some (resp # resps, s2)
     }"

definition genuine :: "('ip, 'x) hook_lib_scheme \<Rightarrow> 'ip strategy \<Rightarrow> wh_event \<Rightarrow> bool" where
  "genuine lib ws e = authentic lib ws (fst e)"

lemma wh_run_genuine:
  assumes "wh_inv s" and "wh_inv t" and "wh_past now0 s" and "wh_past now0 t"
    and "wh_verified s = wh_verified t" and "wh_reloads s = wh_reloads t"
    and "sorted (now0 # map (fst \<circ> snd) es)"
  shows "\<exists>resps s' t'. wh_run lib ws es s = Some (resps, s') \<and>
    wh_run lib ws (filter (genuine lib ws) es) t =
      Some (map snd (filter (genuine lib ws \<circ> fst) (zip es resps)), t') \<and>
    wh_verified s' = wh_verified t' \<and> wh_reloads s' = wh_reloads t' \<and> length resps = length es"
  using assms
proof (induction es arbitrary: s t now0)
  case (Cons e es)
  obtain r now rel where e: "e = (r, now, rel)" by (cases e)
  have now: "now0 \<le> now" and so: "sorted (now # map (fst \<circ> snd) es)"
    using Cons.prems(7) by (auto simp: e comp_def)
  note ps = wh_past_mono [OF Cons.prems(3) now] and pt = wh_past_mono [OF Cons.prems(4) now]
  show ?case
  proof (cases "authentic lib ws r")
    case True
    obtain resp s1 where s1: "webhook_handle lib ws r now rel s = Some (resp, s1)" "wh_inv s1" "wh_past now s1"
      using webhook_handle_genuine [OF True Cons.prems(1) ps] by blast
    obtain t1 where t1: "webhook_handle lib ws r now rel t = Some (resp, t1)"
      "wh_verified s1 = wh_verified t1" "wh_reloads s1 = wh_reloads t1"
      using webhook_handle_verified_only [OF True Cons.prems(5,6) s1(1)] by blast
    have "wh_inv t1" "wh_past now t1"
      using webhook_handle_genuine [OF True Cons.prems(2) pt, of rel] t1(1) by auto
    from Cons.IH [OF s1(2) this(1) s1(3) this(2) t1(2,3) so] show ?thesis
      using s1(1) t1(1) True by (auto simp: e genuine_def)
  next
    case False
    obtain resp s1 where s1: "webhook_handle lib ws r now rel s = Some (resp, s1)"
      "wh_verified s1 = wh_verified s" "wh_reloads s1 = wh_reloads s" "wh_inv s1" "wh_past now s1"
      using webhook_handle_junk [OF False Cons.prems(1) ps] by blast
    have "wh_verified s1 = wh_verified t" "wh_reloads s1 = wh_reloads t"
      using s1 Cons.prems by auto
    from Cons.IH [OF s1(4) Cons.prems(2) s1(5) pt this so] show ?thesis
      using s1(1) False by (auto simp: e genuine_def)
  qed
qed simp

lemma new_webhook_state:
  assumes "new_webhook cfg res = Ok (ws, s)"
  shows "wh_inv s" and "wh_past t s"
proof -
  have "wh_failures s = new_rate_limiter (wc_rate_limit cfg)" "wh_verified s = new_rate_limiter (wc_rate_limit cfg)"
    using assms by (auto simp: new_webhook_def split: if_splits)
  then show "wh_inv s" and "wh_past t s"
    using rl_inv_new [of "wc_rate_limit cfg"]
    by (auto simp: wh_inv_def wh_past_def pred_option_def new_rate_limiter_def rl_view_def list_view_def
        split: if_splits)
qed

text \<open>
  C2. Junk cannot starve a delivery: in any trace at non-decreasing times, the responses to
  the authentic requests and the number of reloads are those of the trace from which every
  unauthenticated request was removed.
\<close>

theorem webhook_junk_irrelevant:
  assumes "new_webhook cfg res = Ok (ws, s)" and "sorted (map (fst \<circ> snd) es)"
  shows "\<exists>resps s' t'. wh_run lib ws es s = Some (resps, s') \<and>
    wh_run lib ws (filter (genuine lib ws) es) s =
      Some (map snd (filter (genuine lib ws \<circ> fst) (zip es resps)), t') \<and>
    wh_reloads s' = wh_reloads t'"
proof (cases es)
  case (Cons e es')
  note n = new_webhook_state [OF assms(1)]
  have "sorted (fst (snd e) # map (fst \<circ> snd) es)" using assms(2) by (simp add: Cons)
  from wh_run_genuine [OF n(1) n(1) n(2) n(2) refl refl this] show ?thesis by blast
qed simp

definition demo_lib :: "string hook_lib" where
  "demo_lib = net_lib.extend demo_net \<lparr>hl_hmac = (\<lambda>k m. replicate 32 CHR 0x41), hl_json_ref = (\<lambda>_. None)\<rparr>"

definition demo_hook :: webhook_config where
  "demo_hook = \<lparr>wc_path = ''/hook'', wc_secret = replicate 32 CHR ''k'', wc_allowed_events = [],
     wc_allowed_ips = [], wc_branch_filter = '''', wc_rate_limit = 1, wc_max_body = 0\<rparr>"

definition demo_request :: "string \<Rightarrow> wh_request" where
  "demo_request sg = \<lparr>wq_method = ''POST'', wq_remote = ''1.2.3.4'', wq_xff = [], wq_real = '''',
     wq_sig = sg, wq_event = '''', wq_body = ''b'', wq_read_fails = False\<rparr>"

theorem webhook_junk_irrelevant_witness:
  "\<exists>ws s resps s'. new_webhook demo_hook (Some [] :: (string \<Rightarrow> bool) list option) = Ok (ws, s) \<and>
     wh_run demo_lib ws [(demo_request '''', 1, True), (demo_request ''x'', 2, True)] s = Some (resps, s')"
proof -
  obtain ws s where n: "new_webhook demo_hook (Some [] :: (string \<Rightarrow> bool) list option) = Ok (ws, s)"
    by (auto simp: new_webhook_def demo_hook_def)
  show ?thesis
    using webhook_junk_irrelevant [OF n, of "[(demo_request '''', 1, True), (demo_request ''x'', 2, True)]" demo_lib] n
    by auto
qed

subsection \<open>Reloading\<close>

text \<open>What a request must be for content to be reloaded.\<close>

definition deliverable ::
  "('ip, 'x) hook_lib_scheme \<Rightarrow> 'ip strategy \<Rightarrow> wh_request \<Rightarrow> bool" where
  "deliverable lib ws r =
     (let cfg = ws_config ws; ip = resolve_ip lib (ws_resolver ws) r in
      wq_method r = ''POST'' \<and>
      (wc_allowed_ips cfg = [] \<or> ip_in_cidrs lib ip (wc_allowed_ips cfg)) \<and>
      int (length (wq_body r)) \<le> body_limit cfg \<and> \<not> wq_read_fails r \<and>
      (\<exists>sg. wq_sig r = sig_prefix @ sg \<and> length sg = 64 \<and>
         hex_decode sg = Some (hl_hmac lib (wc_secret cfg) (wq_body r))) \<and>
      (wc_allowed_events cfg = [] \<or> wq_event r \<noteq> '''' \<and> wq_event r \<in> set (wc_allowed_events cfg)) \<and>
      (wc_branch_filter cfg = '''' \<or>
         hl_json_ref lib (wq_body r) = Some (''refs/heads/'' @ wc_branch_filter cfg)))"

lemma verified_signature:
  "signature_well_formed h \<and> verify_signature lib k b h \<longleftrightarrow>
     (\<exists>sg. h = sig_prefix @ sg \<and> length sg = 64 \<and> hex_decode sg = Some (hl_hmac lib k b))"
  by (auto simp: signature_well_formed_def verify_signature_def has_prefix_iff trim_prefix_def
      split: option.splits)

lemma authenticate_iff:
  "authenticate lib cfg ip r = Ok (wq_body r) \<longleftrightarrow>
     (wc_allowed_ips cfg = [] \<or> ip_in_cidrs lib ip (wc_allowed_ips cfg)) \<and>
     int (length (wq_body r)) \<le> body_limit cfg \<and> \<not> wq_read_fails r \<and>
     (\<exists>sg. wq_sig r = sig_prefix @ sg \<and> length sg = 64 \<and>
        hex_decode sg = Some (hl_hmac lib (wc_secret cfg) (wq_body r)))"
proof -
  have "wq_sig r = '''' \<Longrightarrow> \<not> signature_well_formed (wq_sig r)"
    by (simp add: signature_well_formed_def has_prefix_iff sig_prefix_def)
  then have "authenticate lib cfg ip r = Ok (wq_body r) \<longleftrightarrow>
      (wc_allowed_ips cfg = [] \<or> ip_in_cidrs lib ip (wc_allowed_ips cfg)) \<and>
      int (length (wq_body r)) \<le> body_limit cfg \<and> \<not> wq_read_fails r \<and>
      signature_well_formed (wq_sig r) \<and> verify_signature lib (wc_secret cfg) (wq_body r) (wq_sig r)"
    by (simp add: authenticate_def read_body_def not_less)
  then show ?thesis by (simp only: verified_signature)
qed

lemma delivery_filter_iff:
  "delivery_filter lib cfg r b = None \<longleftrightarrow>
     (wc_allowed_events cfg = [] \<or> wq_event r \<noteq> '''' \<and> wq_event r \<in> set (wc_allowed_events cfg)) \<and>
     (wc_branch_filter cfg = '''' \<or> hl_json_ref lib b = Some (''refs/heads/'' @ wc_branch_filter cfg))"
  by (cases "hl_json_ref lib b") (simp_all add: delivery_filter_def Let_def)

lemma deliverable_iff:
  "deliverable lib ws r \<longleftrightarrow> wq_method r = ''POST'' \<and>
     authenticate lib (ws_config ws) (resolve_ip lib (ws_resolver ws) r) r = Ok (wq_body r) \<and>
     delivery_filter lib (ws_config ws) r (wq_body r) = None"
  unfolding deliverable_def Let_def authenticate_iff delivery_filter_iff by blast

lemma authenticate_body: "authenticate lib cfg ip r = Ok b \<Longrightarrow> b = wq_body r"
  by (auto simp: authenticate_def read_body_def split: if_splits body_read.splits)

text \<open>Either the reloader ran and decided the response, or nothing was reloaded.\<close>

lemma handle_cases:
  assumes "webhook_handle lib ws r now rel s = Some (resp, s')"
  shows "if deliverable lib ws r \<and> map_option fst (budget (wh_verified s) (resolve_ip lib (ws_resolver ws) r) now) = Some True
    then wh_reloads s' = Suc (wh_reloads s) \<and> wr_status resp = (if rel then 200 else 500)
    else wh_reloads s' = wh_reloads s \<and> wr_status resp \<notin> {200, 500}"
proof (cases "wq_method r = ''POST''")
  case False
  then show ?thesis
    using assms by (auto simp: webhook_handle_def deliverable_iff plain_def)
next
  case True
  let ?ip = "resolve_ip lib (ws_resolver ws) r" and ?cfg = "ws_config ws"
  show ?thesis
  proof (cases "authenticate lib ?cfg ?ip r")
    case (Inl rej)
    have "fst (snd rej) \<notin> {200, 500}"
      using Inl by (auto simp: authenticate_def split: if_splits body_read.splits)
    then show ?thesis
      using assms True Inl
      by (auto simp: webhook_handle_def reject_def deliverable_iff plain_def Let_def bind_eq_Some_conv
          split: prod.splits if_splits)
  next
    case (Inr b)
    note b = authenticate_body [OF Inr]
    show ?thesis
    proof (cases "delivery_filter lib ?cfg r (wq_body r)")
      case (Some x)
      have "wr_status (snd x) \<notin> {200, 500}"
        using Some by (auto simp: delivery_filter_def plain_def Let_def split: if_splits option.splits)
      then show ?thesis
        using assms True Inr Some by (auto simp: webhook_handle_def b deliverable_iff split: prod.splits)
    next
      case None
      then show ?thesis
        using assms True Inr
        by (auto simp: webhook_handle_def b deliverable_iff plain_def Let_def bind_eq_Some_conv
            split: prod.splits if_splits)
    qed
  qed
qed

text \<open>
  C4. The reloader is called for a request exactly when it is a POST from an allowed address
  whose signature is the HMAC of its body, with an allowed event and on the configured
  branch, and the verified budget of its address allows it; every other request leaves
  the content alone, and the response is 200 only when the reload succeeded.
\<close>

theorem webhook_reload_iff:
  assumes "webhook_handle lib ws r now rel s = Some (resp, s')"
  shows "(wh_reloads s' = Suc (wh_reloads s) \<longleftrightarrow>
       deliverable lib ws r \<and>
       map_option fst (budget (wh_verified s) (resolve_ip lib (ws_resolver ws) r) now) = Some True) \<and>
    (wh_reloads s' \<noteq> Suc (wh_reloads s) \<longrightarrow> wh_reloads s' = wh_reloads s) \<and>
    (wr_status resp = 200 \<longrightarrow> wh_reloads s' = Suc (wh_reloads s) \<and> rel)"
  using handle_cases [OF assms] by (auto split: if_splits)

text \<open>A signed push, and a request without a signature.\<close>

definition push :: wh_request where
  "push = demo_request (sig_prefix @ concat (replicate 32 ''41''))"

definition hook_strategy :: "string strategy" where
  "hook_strategy = \<lparr>ws_config = demo_hook, ws_resolver = Some []\<rparr>"

definition fresh_hook :: wh_state where
  "fresh_hook = \<lparr>wh_failures = None, wh_verified = None, wh_counts = (\<lambda>_. 0), wh_reloads = 0\<rparr>"

lemma push_deliverable: "deliverable demo_lib hook_strategy push"
proof -
  have sg: "push = demo_request (sig_prefix @ concat (replicate 32 ''41''))" by (rule push_def)
  have h: "hex_decode (concat (replicate 32 ''41'')) = Some (replicate 32 CHR 0x41)" "length (concat (replicate 32 ''41'')) = 64"
    by code_simp+
  show ?thesis
    unfolding deliverable_def Let_def sg hook_strategy_def
    by (intro conjI exI [of _ "concat (replicate 32 ''41'')"])
      (simp_all only: h, simp_all add: demo_hook_def demo_request_def body_limit_def demo_lib_def net_lib.defs)
qed

lemma push_answered: "\<exists>resp h'. webhook_handle demo_lib hook_strategy push 5 rel fresh_hook = Some (resp, h')"
  by (auto simp: webhook_handle_def reject_def budget_def fresh_hook_def Let_def split: sum.split option.split prod.split)

theorem webhook_reload_iff_witness:
  "(\<exists>resp s'. webhook_handle demo_lib hook_strategy push 5 True fresh_hook = Some (resp, s') \<and> wh_reloads s' = 1) \<and>
   (\<exists>resp s'. webhook_handle demo_lib hook_strategy (demo_request '''') 5 True fresh_hook = Some (resp, s') \<and>
      \<not> deliverable demo_lib hook_strategy (demo_request '''') \<and> wh_reloads s' = 0)"
proof
  obtain resp s' where h: "webhook_handle demo_lib hook_strategy push 5 True fresh_hook = Some (resp, s')"
    using push_answered by blast
  have "map_option fst (budget (wh_verified fresh_hook) (resolve_ip demo_lib (ws_resolver hook_strategy) push) 5) = Some True"
    by (simp add: fresh_hook_def budget_def)
  then have "wh_reloads s' = Suc (wh_reloads fresh_hook)"
    using webhook_reload_iff [OF h] push_deliverable by blast
  then show "\<exists>resp s'. webhook_handle demo_lib hook_strategy push 5 True fresh_hook = Some (resp, s') \<and> wh_reloads s' = 1"
    using h by (simp add: fresh_hook_def)
next
  have h: "webhook_handle demo_lib hook_strategy (demo_request '''') 5 True fresh_hook =
      Some (plain 401 ''missing signature'', bump_outcome ''missing_signature'' fresh_hook)"
    by (simp add: webhook_handle_def demo_request_def demo_hook_def hook_strategy_def fresh_hook_def
        authenticate_def reject_def budget_def Let_def)
  from webhook_reload_iff [OF h] have "\<not> deliverable demo_lib hook_strategy (demo_request '''')"
    by (auto simp: budget_def fresh_hook_def)
  then show "\<exists>resp s'. webhook_handle demo_lib hook_strategy (demo_request '''') 5 True fresh_hook = Some (resp, s') \<and>
      \<not> deliverable demo_lib hook_strategy (demo_request '''') \<and> wh_reloads s' = 0"
    using h by (simp add: fresh_hook_def)
qed

subsection \<open>Outcomes\<close>

definition webhook_outcomes :: "string list" where
  "webhook_outcomes =
     [''ok'', ''forbidden_ip'', ''missing_signature'', ''invalid_signature'', ''body_too_large'',
      ''body_read_error'', ''failure_budget_exceeded'', ''verified_budget_exceeded'',
      ''event_rejected'', ''invalid_payload'', ''branch_skipped'', ''reload_failed'']"

lemma authenticate_outcome:
  "authenticate lib cfg ip r = Err (oc, st, msg) \<Longrightarrow> oc \<in> set webhook_outcomes"
  unfolding authenticate_def webhook_outcomes_def by (auto split: if_splits body_read.splits)

lemma delivery_outcome:
  "delivery_filter lib cfg r b = Some (oc, x) \<Longrightarrow> oc \<in> set webhook_outcomes"
  unfolding delivery_filter_def webhook_outcomes_def
  by (auto simp: Let_def split: if_splits option.splits)

text \<open>
  Every POST is counted under exactly one of the declared outcomes, once; a request with
  another method is counted under none.
\<close>

theorem webhook_one_outcome:
  assumes "webhook_handle lib ws r now rel s = Some (resp, s')"
  shows "if wq_method r = ''POST''
    then \<exists>oc \<in> set webhook_outcomes. wh_counts s' = (wh_counts s)(oc := Suc (wh_counts s oc))
    else s' = s \<and> wr_status resp = 405"
proof (cases "authenticate lib (ws_config ws) (resolve_ip lib (ws_resolver ws) r) r")
  case (Inl rej)
  have o: "''failure_budget_exceeded'' \<in> set webhook_outcomes" by (simp add: webhook_outcomes_def)
  obtain oc st msg where rej: "rej = (oc, st, msg)" by (cases rej)
  show ?thesis
    using assms Inl o authenticate_outcome [of lib "ws_config ws" "resolve_ip lib (ws_resolver ws) r" r oc st msg]
    by (auto simp: webhook_handle_def rej reject_def Let_def plain_def bind_eq_Some_conv
        split: if_splits)
next
  case (Inr b)
  have o: "''ok'' \<in> set webhook_outcomes" "''reload_failed'' \<in> set webhook_outcomes"
    "''verified_budget_exceeded'' \<in> set webhook_outcomes" by (simp_all add: webhook_outcomes_def)
  show ?thesis
  proof (cases "delivery_filter lib (ws_config ws) r b")
    case (Some x)
    obtain oc y where x: "x = (oc, y)" by (cases x)
    show ?thesis
      using assms Inr Some delivery_outcome [of lib "ws_config ws" r b oc y]
      by (auto simp: webhook_handle_def x plain_def split: if_splits)
  next
    case None
    then show ?thesis
      using assms Inr o
      by (auto simp: webhook_handle_def Let_def plain_def bind_eq_Some_conv split: if_splits)
  qed
qed

theorem webhook_one_outcome_witness:
  "\<exists>resp s'. webhook_handle demo_lib \<lparr>ws_config = demo_hook, ws_resolver = Some []\<rparr> (demo_request '''') 5 True
      \<lparr>wh_failures = None, wh_verified = None, wh_counts = (\<lambda>_. 0), wh_reloads = 0\<rparr> = Some (resp, s') \<and>
    (\<exists>oc \<in> set webhook_outcomes. wh_counts s' = (\<lambda>_. 0)(oc := 1))"
proof -
  let ?ws = "\<lparr>ws_config = demo_hook, ws_resolver = Some []\<rparr>"
    and ?s = "\<lparr>wh_failures = None, wh_verified = None, wh_counts = (\<lambda>_. 0), wh_reloads = 0\<rparr>"
  have h: "webhook_handle demo_lib ?ws (demo_request '''') 5 True ?s =
      Some (plain 401 ''missing signature'', bump_outcome ''missing_signature'' ?s)"
    by (simp add: webhook_handle_def demo_request_def demo_hook_def authenticate_def reject_def budget_def Let_def)
  have "wq_method (demo_request '''') = ''POST''" by (simp add: demo_request_def)
  then show ?thesis using webhook_one_outcome [OF h] h by auto
qed

end
