(* ===== verification/Front_Matter.thy ===== *)
theory Front_Matter
  imports Go_Paths
begin

text \<open>
  Front matter, URL screening and text helpers of \<open>internal/content\<close> (\<open>frontmatter.go\<close>,
  \<open>sanitize.go\<close>, the text functions of \<open>scanner.go\<close>). The YAML decoder and \<open>strings.ToLower\<close>
  (Unicode tables) are parameters, as is \<open>html.UnescapeString\<close>.
\<close>

subsection \<open>Runes\<close>

function runes :: "string \<Rightarrow> nat list" where
  "runes s = (if s = [] then [] else fst (decode_rune s) # runes (drop (snd (decode_rune s)) s))"
  by pat_completeness auto
termination
proof (relation "measure length")
  fix s :: string
  assume "s \<noteq> []"
  then show "(drop (snd (decode_rune s)) s, s) \<in> measure length"
    using decode_rune_width [of s] by auto
qed simp

declare runes.simps [simp del]

definition encode_rune :: "nat \<Rightarrow> string" where
  "encode_rune r =
     (if r < 0x80 then [char_of r]
      else if r < 0x800 then [char_of (0xC0 + r div 64), char_of (0x80 + r mod 64)]
      else if (0xD800 \<le> r \<and> r \<le> 0xDFFF) \<or> 0x10FFFF < r
      then [char_of (0xEF :: nat), char_of (0xBF :: nat), char_of (0xBD :: nat)]
      else if r < 0x10000
      then [char_of (0xE0 + r div 4096), char_of (0x80 + r div 64 mod 64), char_of (0x80 + r mod 64)]
      else [char_of (0xF0 + r div 262144), char_of (0x80 + r div 4096 mod 64),
            char_of (0x80 + r div 64 mod 64), char_of (0x80 + r mod 64)])"

definition encode_runes :: "nat list \<Rightarrow> string" where
  "encode_runes rs = concat (map encode_rune rs)"

subsection \<open>Data\<close>

text \<open>A \<open>time.Time\<close>: its instant, zero for the zero time, and its year in its own location.\<close>

record go_time =
  gt_instant :: int
  gt_year :: int

definition is_zero_time :: "go_time \<Rightarrow> bool" where
  "is_zero_time t = (gt_instant t = 0)"

record front_matter =
  fm_title :: string
  fm_slug :: string
  fm_date :: go_time
  fm_updated :: go_time
  fm_draft :: bool
  fm_tags :: "string list"
  fm_categories :: "string list"
  fm_author :: string
  fm_description :: string
  fm_template :: string
  fm_image :: string
  fm_reading_time :: int
  fm_weight :: int

datatype fm_error = MissingClosing | FmTooLarge | BadYaml | BadImage | BadTemplate string | BadSlug string

subsection \<open>URLs\<close>

definition allowed_schemes :: "string list" where
  "allowed_schemes = [''http'', ''https'', ''mailto'']"

definition is_safe_url :: "(string \<Rightarrow> string) \<Rightarrow> string \<Rightarrow> bool" where
  "is_safe_url lc dest =
     (let s = trim_space dest in
      if s = '''' \<or> hd s = CHR ''#'' then True
      else if hd s = sl \<and> (length s < 2 \<or> s ! 1 \<noteq> sl) then True
      else if 2 \<le> length s \<and> hd s = sl \<and> s ! 1 = sl then False
      else case index_of s '':'' of
        None \<Rightarrow> True
      | Some i \<Rightarrow> lc (take i s) \<in> set allowed_schemes)"

text \<open>
  The link sanitizer's walk over the document. \<open>ast.Walk\<close> of goldmark visits a node, then its
  children from the first along \<open>NextSibling\<close>. The visit rewrites the destination of a link or
  an image in place; an automatic link it replaces by its label, and \<open>ReplaceChild\<close> clears the
  removed node's sibling pointers: the walk has no next sibling to go to, goes on with the
  siblings of the parent and never visits the ones after the replaced link.
\<close>

datatype md_node =
    Link string "md_node list"
  | Image string "md_node list"
  | AutoLink string string
  | Text string
  | Node "md_node list"

fun replaced :: "(string \<Rightarrow> string) \<Rightarrow> md_node \<Rightarrow> bool" where
  "replaced lc (AutoLink url label) = (\<not> is_safe_url lc url)"
| "replaced lc (Link d cs) = False"
| "replaced lc (Image d cs) = False"
| "replaced lc (Text t) = False"
| "replaced lc (Node cs) = False"

fun sanitize_node :: "(string \<Rightarrow> string) \<Rightarrow> md_node \<Rightarrow> md_node"
  and sanitize_children :: "(string \<Rightarrow> string) \<Rightarrow> md_node list \<Rightarrow> md_node list" where
  "sanitize_node lc (Link d cs) =
     Link (if is_safe_url lc d then d else ''#blocked'') (sanitize_children lc cs)"
| "sanitize_node lc (Image d cs) =
     Image (if is_safe_url lc d then d else ''#blocked'') (sanitize_children lc cs)"
| "sanitize_node lc (AutoLink url label) = (if is_safe_url lc url then AutoLink url label else Text label)"
| "sanitize_node lc (Text t) = Text t"
| "sanitize_node lc (Node cs) = Node (sanitize_children lc cs)"
| "sanitize_children lc [] = []"
| "sanitize_children lc (c # cs) =
     sanitize_node lc c # (if replaced lc c then cs else sanitize_children lc cs)"

subsection \<open>Parsing\<close>

definition max_front_matter_size :: nat where
  "max_front_matter_size = 64 * 1024"

definition nl :: char where "nl = CHR 0x0A"
definition cr :: char where "cr = CHR 0x0D"

definition dashes :: string where "dashes = ''---''"

lemma index_of_bound: "index_of s p = Some i \<Longrightarrow> i + length p \<le> length s"
proof (induction s p arbitrary: i rule: index_of.induct)
  case (2 c s p)
  show ?case
  proof (cases "has_prefix (c # s) p")
    case True
    then obtain t where "c # s = p @ t" using has_prefix_iff by blast
    then have "length (c # s) = length p + length t" by simp
    then show ?thesis using True 2(2) by simp
  qed (use 2 in auto)
qed (auto split: if_splits)

function find_closing_from :: "string \<Rightarrow> nat \<Rightarrow> nat option" where
  "find_closing_from data offset =
     (case index_of (drop offset data) (nl # dashes) of
        None \<Rightarrow> None
      | Some idx \<Rightarrow>
          (let pos = offset + idx; after = pos + 4 in
           if length data \<le> after \<or> data ! after = nl \<or>
              (data ! after = cr \<and> after + 1 < length data \<and> data ! (after + 1) = nl)
           then Some pos
           else find_closing_from data (pos + 1)))"
  by pat_completeness auto
termination
  by (relation "measure (\<lambda>(data, offset). length data - offset)")
     (auto dest!: index_of_bound simp: dashes_def)

declare find_closing_from.simps [simp del]

definition find_closing_delimiter :: "string \<Rightarrow> nat option" where
  "find_closing_delimiter data = find_closing_from data 0"

definition skip_newline :: "string \<Rightarrow> string" where
  "skip_newline s =
     (if s \<noteq> [] \<and> hd s = nl then tl s
      else if 1 < length s \<and> hd s = cr \<and> s ! 1 = nl then drop 2 s else s)"

definition plain_segment :: "string \<Rightarrow> bool" where
  "plain_segment s \<longleftrightarrow>
     \<not> contains s ''/'' \<and> \<not> contains s [CHR 0x5C] \<and> \<not> contains s ''..'' \<and> \<not> contains s [CHR 0x00]"

definition parse_front_matter ::
  "(string \<Rightarrow> front_matter option) \<Rightarrow> (string \<Rightarrow> string) \<Rightarrow> string \<Rightarrow>
   (fm_error, front_matter option \<times> string) result" where
  "parse_front_matter yaml lc data =
     (if \<not> has_prefix data dashes then Ok (None, data)
      else if 3 < length data \<and> data ! 3 \<noteq> nl \<and> data ! 3 \<noteq> cr then Ok (None, data)
      else
        let rest = skip_newline (drop 3 data) in
        case find_closing_delimiter rest of
          None \<Rightarrow> Err MissingClosing
        | Some end_ \<Rightarrow>
            (let fm_data = take end_ rest in
             if max_front_matter_size < length fm_data then Err FmTooLarge
             else
               let body = skip_newline (drop (end_ + 4) rest) in
               case yaml fm_data of
                 None \<Rightarrow> Err BadYaml
               | Some fm \<Rightarrow>
                   (if fm_image fm \<noteq> '''' \<and> \<not> is_safe_url lc (fm_image fm) then Err BadImage
                    else if fm_template fm \<noteq> '''' \<and> \<not> plain_segment (fm_template fm)
                    then Err (BadTemplate (fm_template fm))
                    else if fm_slug fm \<noteq> '''' \<and> \<not> plain_segment (fm_slug fm)
                    then Err (BadSlug (fm_slug fm))
                    else Ok (Some fm, body))))"

subsection \<open>Text\<close>

definition reading_time_minutes :: "string \<Rightarrow> int" where
  "reading_time_minutes t =
     (let minutes = int (length (Go_Strings.fields t) div 200) in if minutes < 1 then 1 else minutes)"

definition slug_from_path :: "string \<Rightarrow> string" where
  "slug_from_path p = (let base = path_base p in trim_suffix base (path_ext base))"

fun strip_tags :: "bool \<Rightarrow> nat list \<Rightarrow> nat list" where
  "strip_tags in_tag [] = []"
| "strip_tags in_tag (r # rs) =
     (if r = 60 then strip_tags True rs
      else if r = 62 then strip_tags False rs
      else if in_tag then strip_tags in_tag rs else r # strip_tags in_tag rs)"

definition strip_html :: "(string \<Rightarrow> string) \<Rightarrow> string \<Rightarrow> string" where
  "strip_html unescape s = unescape (encode_runes (strip_tags False (runes s)))"

definition ellipsis :: string where
  "ellipsis = encode_rune 0x2026"

definition truncate_text :: "string \<Rightarrow> nat \<Rightarrow> string" where
  "truncate_text s0 n =
     (let s = join '' '' (Go_Strings.fields s0); rs = runes s in
      if length rs \<le> n then s
      else
        let t = encode_runes (take n rs) in
        case last_index_of CHR '' '' t of
          Some i \<Rightarrow> (if 0 < i then take i t else t) @ ellipsis
        | None \<Rightarrow> t @ ellipsis)"

subsection \<open>The closing delimiter\<close>

definition standalone :: "string \<Rightarrow> nat \<Rightarrow> bool" where
  "standalone data p \<longleftrightarrow>
     has_prefix (drop p data) (nl # dashes) \<and>
     (length data \<le> p + 4 \<or> data ! (p + 4) = nl \<or>
      (data ! (p + 4) = cr \<and> p + 4 + 1 < length data \<and> data ! (p + 4 + 1) = nl))"

lemma index_of_first:
  "index_of s p = Some i \<longleftrightarrow>
     i \<le> length s \<and> has_prefix (drop i s) p \<and> (\<forall>j < i. \<not> has_prefix (drop j s) p)"
proof (induction s p arbitrary: i rule: index_of.induct)
  case (1 p)
  then show ?case by (auto simp: has_prefix_def)
next
  case (2 c s p)
  show ?case
  proof (cases "has_prefix (c # s) p")
    case True
    then show ?thesis by (cases i) auto
  next
    case False
    show ?thesis
    proof (cases i)
      case (Suc k)
      have "(\<forall>j < Suc k. \<not> has_prefix (drop j (c # s)) p) \<longleftrightarrow> (\<forall>j < k. \<not> has_prefix (drop j s) p)"
        using False by (auto simp: less_Suc_eq_0_disj)
      then show ?thesis using 2 [OF False] False Suc by auto
    qed (use False in auto)
  qed
qed

lemma all_le_Suc: "(\<forall>j \<le> Suc n. P j) \<longleftrightarrow> P 0 \<and> (\<forall>j \<le> n. P (Suc j))"
proof
  assume a: "P 0 \<and> (\<forall>j \<le> n. P (Suc j))"
  show "\<forall>j \<le> Suc n. P j"
  proof (intro allI impI)
    fix j
    assume "j \<le> Suc n"
    then show "P j" using a by (cases j) auto
  qed
qed auto

lemma index_of_None: "index_of s p = None \<longleftrightarrow> (\<forall>j \<le> length s. \<not> has_prefix (drop j s) p)"
proof (induction s p rule: index_of.induct)
  case (2 c s p)
  show ?case
    using 2 by (cases "has_prefix (c # s) p") (simp_all add: all_le_Suc)
qed (simp add: has_prefix_def)

lemma standalone_bound: "standalone data q \<Longrightarrow> q + 4 \<le> length data"
proof -
  assume "standalone data q"
  then obtain t where "drop q data = nl # dashes @ t" by (auto simp: standalone_def has_prefix_iff)
  then have "length (drop q data) = 4 + length t" by (simp add: dashes_def)
  then show "q + 4 \<le> length data" by simp
qed

text \<open>One turn of the loop: nothing standalone lies before the occurrence found.\<close>

lemma closing_turn:
  assumes "index_of (drop k data) (nl # dashes) = Some i"
  shows "k + i + 4 \<le> length data" and "has_prefix (drop (k + i) data) (nl # dashes)"
    and "\<forall>q. k \<le> q \<and> q < k + i \<longrightarrow> \<not> standalone data q"
proof -
  show "k + i + 4 \<le> length data" using index_of_bound [OF assms] by (simp add: dashes_def)
  note f = assms [unfolded index_of_first]
  show "has_prefix (drop (k + i) data) (nl # dashes)" using f by (simp add: add.commute)
  show "\<forall>q. k \<le> q \<and> q < k + i \<longrightarrow> \<not> standalone data q"
  proof (intro allI impI)
    fix q
    assume q: "k \<le> q \<and> q < k + i"
    have "q - k < i" using q by linarith
    then have "\<not> has_prefix (drop (q - k) (drop k data)) (nl # dashes)" using f by blast
    then show "\<not> standalone data q" using q by (simp add: standalone_def)
  qed
qed

lemma find_closing_turn:
  assumes "index_of (drop k data) (nl # dashes) = Some i"
  shows "find_closing_from data k =
     (if standalone data (k + i) then Some (k + i) else find_closing_from data (k + i + 1))"
  unfolding find_closing_from.simps [of data k] assms
  by (simp add: Let_def standalone_def closing_turn(2) [OF assms])

lemma find_closing_from_Some:
  "find_closing_from data k = Some p \<Longrightarrow>
     k \<le> p \<and> standalone data p \<and> (\<forall>q. k \<le> q \<and> q < p \<longrightarrow> \<not> standalone data q)"
proof (induction data k rule: find_closing_from.induct)
  case (1 data k)
  obtain i where i: "index_of (drop k data) (nl # dashes) = Some i"
    using 1(2) by (cases "index_of (drop k data) (nl # dashes)") (simp_all add: find_closing_from.simps [of data k])
  note t = closing_turn [OF i]
  show ?case
  proof (cases "standalone data (k + i)")
    case True
    then have "p = k + i"
      using 1(2) find_closing_turn [OF i] by simp
    then show ?thesis using True t by simp
  next
    case False
    then have c: "\<not> (length data \<le> k + i + 4 \<or> data ! (k + i + 4) = nl \<or>
        data ! (k + i + 4) = cr \<and> k + i + 4 + 1 < length data \<and> data ! (k + i + 4 + 1) = nl)"
      using t(2) by (simp add: standalone_def)
    have "find_closing_from data k = find_closing_from data (k + i + 1)"
      using find_closing_turn [OF i] False by simp
    then have h: "k + i + 1 \<le> p \<and> standalone data p \<and>
        (\<forall>q. k + i + 1 \<le> q \<and> q < p \<longrightarrow> \<not> standalone data q)"
      using 1(1) [OF i refl refl c] 1(2) by simp
    have "\<not> standalone data q" if "k \<le> q" "q < p" for q
    proof -
      consider "q < k + i" | "q = k + i" | "k + i + 1 \<le> q" by linarith
      then show ?thesis using that False h t(3) by cases auto
    qed
    then show ?thesis using h by simp
  qed
qed

lemma find_closing_from_None:
  "find_closing_from data k = None \<Longrightarrow> k \<le> q \<Longrightarrow> \<not> standalone data q"
proof (induction data k rule: find_closing_from.induct)
  case (1 data k)
  show ?case
  proof (cases "index_of (drop k data) (nl # dashes)")
    case None
    show ?thesis
    proof
      assume s: "standalone data q"
      have "q - k \<le> length (drop k data)" using standalone_bound [OF s] 1(3) by simp
      then have "\<not> has_prefix (drop (q - k) (drop k data)) (nl # dashes)"
        using None unfolding index_of_None by blast
      then show False using s 1(3) by (simp add: standalone_def)
    qed
  next
    case (Some i)
    note t = closing_turn [OF Some]
    have c: "\<not> (length data \<le> k + i + 4 \<or> data ! (k + i + 4) = nl \<or>
        data ! (k + i + 4) = cr \<and> k + i + 4 + 1 < length data \<and> data ! (k + i + 4 + 1) = nl)"
      using 1(2) Some by (auto simp: find_closing_from.simps [of data k] Let_def)
    then have n: "\<not> standalone data (k + i)" by (simp add: standalone_def)
    have "find_closing_from data (k + i + 1) = None"
      using 1(2) n find_closing_turn [OF Some] by simp
    then have h: "k + i + 1 \<le> q \<Longrightarrow> \<not> standalone data q"
      using 1(1) [OF Some refl refl c] by simp
    consider "q < k + i" | "q = k + i" | "k + i + 1 \<le> q" by linarith
    then show ?thesis using 1(3) n h t(3) by cases auto
  qed
qed

lemma find_closing_iff:
  "find_closing_delimiter data = Some p \<longleftrightarrow>
     standalone data p \<and> (\<forall>q < p. \<not> standalone data q)"
proof
  assume "find_closing_delimiter data = Some p"
  then show "standalone data p \<and> (\<forall>q < p. \<not> standalone data q)"
    using find_closing_from_Some [of data 0 p] by (simp add: find_closing_delimiter_def)
next
  assume s: "standalone data p \<and> (\<forall>q < p. \<not> standalone data q)"
  then obtain r where r: "find_closing_from data 0 = Some r"
    using find_closing_from_None [of data 0 p] by fastforce
  have "r = p" using find_closing_from_Some [OF r] s by (metis le0 linorder_neqE_nat)
  then show "find_closing_delimiter data = Some p" using r by (simp add: find_closing_delimiter_def)
qed

subsection \<open>Properties\<close>

lemma has_prefix_take_append:
  "k + length p \<le> length s \<Longrightarrow> has_prefix (drop k (s @ t)) p = has_prefix (drop k s) p"
  by (simp add: has_prefix_def)

text \<open>A delimiter in a text followed by a newline and more lies in the text, or at its end.\<close>

lemma standalone_before:
  assumes "standalone (y @ nl # dashes @ z) q" and "q < length y"
  shows "standalone (y @ [nl]) q"
proof -
  let ?d = "y @ nl # dashes @ z"
  have p: "has_prefix (drop q ?d) (nl # dashes)" using assms(1) by (simp add: standalone_def)
  then obtain t where t: "drop q ?d = nl # dashes @ t" by (auto simp: has_prefix_iff)
  have c: "?d ! (q + j) = (nl # dashes @ t) ! j" for j
  proof -
    have "q \<le> length ?d" using assms(2) by simp
    from nth_drop [OF this, of j] show ?thesis by (simp only: t)
  qed
  have n: "length y \<noteq> q + j" if "j \<in> {1, 2, 3}" for j
  proof
    assume "length y = q + j"
    then have "(nl # dashes @ t) ! j = nl" using c [of j] by (metis nth_append_length)
    then show False using that by (auto simp: dashes_def nl_def)
  qed
  have b: "q + 4 \<le> length y"
    using assms(2) n [of 1] n [of 2] n [of 3] by simp
  have "has_prefix (drop q (y @ [nl])) (nl # dashes)"
    using p b has_prefix_take_append [of q "nl # dashes" y "[nl]"]
      has_prefix_take_append [of q "nl # dashes" y "nl # dashes @ z"] by (simp add: dashes_def)
  moreover have "?d ! k = (y @ [nl]) ! k" if "k \<le> length y" for k
    using that by (auto simp: nth_append)
  moreover note b assms(1)
  ultimately show ?thesis
  proof (cases "q + 4 = length y")
    case False
    then have "q + 4 + 1 \<le> length y" using b by simp
    with \<open>\<And>k. k \<le> length y \<Longrightarrow> ?d ! k = (y @ [nl]) ! k\<close> [of "q + 4"]
      \<open>\<And>k. k \<le> length y \<Longrightarrow> ?d ! k = (y @ [nl]) ! k\<close> [of "q + 4 + 1"]
    show ?thesis
      using assms(1) \<open>has_prefix (drop q (y @ [nl])) (nl # dashes)\<close> unfolding standalone_def by auto
  qed (simp add: standalone_def)
qed

lemma find_closing_roundtrip:
  assumes "find_closing_delimiter (y @ [nl]) = None"
  shows "find_closing_delimiter (y @ nl # dashes @ nl # body) = Some (length y)"
proof -
  have "\<not> standalone (y @ nl # dashes @ nl # body) q" if "q < length y" for q
    using standalone_before [OF _ that, of "nl # body"] find_closing_from_None [of "y @ [nl]" 0 q] assms
    by (auto simp: find_closing_delimiter_def)
  moreover have "standalone (y @ nl # dashes @ nl # body) (length y)"
    by (simp add: standalone_def has_prefix_def dashes_def nth_append)
  ultimately show ?thesis by (simp add: find_closing_iff)
qed

definition admissible :: "(string \<Rightarrow> string) \<Rightarrow> front_matter \<Rightarrow> bool" where
  "admissible lc fm \<longleftrightarrow>
     (fm_image fm = '''' \<or> is_safe_url lc (fm_image fm)) \<and>
     (fm_template fm = '''' \<or> plain_segment (fm_template fm)) \<and>
     (fm_slug fm = '''' \<or> plain_segment (fm_slug fm))"

lemma parse_delimited:
  assumes "find_closing_delimiter (y @ [nl]) = None" and "length y \<le> max_front_matter_size"
    and "yaml y = Some fm" and "admissible lc fm"
  shows "parse_front_matter yaml lc (dashes @ nl # y @ nl # dashes @ nl # body) = Ok (Some fm, body)"
proof -
  let ?d = "dashes @ nl # y @ nl # dashes @ nl # body"
  have r: "skip_newline (drop 3 ?d) = y @ nl # dashes @ nl # body"
    by (simp add: dashes_def skip_newline_def)
  have b: "skip_newline (drop (length y + 4) (y @ nl # dashes @ nl # body)) = body"
    by (simp add: dashes_def skip_newline_def)
  have "skip_newline (drop 3 dashes @ drop (3 - length dashes) (nl # body)) = body"
    by (simp add: dashes_def skip_newline_def)
  moreover have "has_prefix ?d dashes" "?d ! 3 = nl" by (simp_all add: dashes_def)
  ultimately show ?thesis
    using assms find_closing_roundtrip [OF assms(1), of body]
    unfolding parse_front_matter_def Let_def r admissible_def by (auto simp: b)
qed


definition empty_fm :: front_matter where
  "empty_fm = \<lparr>fm_title = '''', fm_slug = '''', fm_date = \<lparr>gt_instant = 0, gt_year = 1\<rparr>,
     fm_updated = \<lparr>gt_instant = 0, gt_year = 1\<rparr>, fm_draft = False, fm_tags = [], fm_categories = [],
     fm_author = '''', fm_description = '''', fm_template = '''', fm_image = '''',
     fm_reading_time = 0, fm_weight = 0\<rparr>"


lemma parse_admissible: "parse_front_matter yaml lc data = Ok (Some fm, body) \<Longrightarrow> admissible lc fm"
  by (auto simp: parse_front_matter_def Let_def admissible_def split: if_splits option.splits)

text \<open>
  C35. Metadata that is accepted comes from the text before the first delimiter line, of
  bounded size; its slug and template are single path segments without a separator, a parent
  reference or a null byte, and its image has an allowed scheme or none.
\<close>

theorem front_matter_screened:
  assumes "parse_front_matter yaml lc data = Ok (Some fm, body)"
  shows "admissible lc fm \<and> sl \<notin> set (fm_slug fm) \<and> fm_slug fm \<noteq> ''..'' \<and>
    (\<exists>rest p. rest = skip_newline (drop 3 data) \<and> standalone rest p \<and>
       (\<forall>q < p. \<not> standalone rest q) \<and> p \<le> max_front_matter_size \<and> yaml (take p rest) = Some fm \<and>
       body = skip_newline (drop (p + 4) rest))"
proof -
  let ?rest = "skip_newline (drop 3 data)"
  obtain p where p: "find_closing_delimiter ?rest = Some p" "length (take p ?rest) \<le> max_front_matter_size"
    "yaml (take p ?rest) = Some fm" "body = skip_newline (drop (p + 4) ?rest)" "admissible lc fm"
    using assms
    by (auto simp: parse_front_matter_def Let_def admissible_def split: if_splits option.splits)
  have b: "p + 4 \<le> length ?rest" using p(1) find_closing_iff standalone_bound by blast
  have slash: "sl \<notin> set s" if "\<not> contains s ''/''" for s
  proof
    assume "sl \<in> set s"
    then obtain a c where "s = a @ sl # c" by (meson split_list)
    then have "has_prefix (drop (length a) s) ''/''" "length a \<le> length s" by simp_all
    then show False using that by (simp add: contains_def index_of_None)
  qed
  have "contains ''..'' ''..''" by code_simp
  then have "sl \<notin> set (fm_slug fm)" "fm_slug fm \<noteq> ''..''"
    using p(5) slash [of "fm_slug fm"] by (auto simp: admissible_def plain_segment_def)
  then show ?thesis
    using p b find_closing_iff [of ?rest p] by auto
qed

theorem front_matter_screened_witness:
  "admissible id (empty_fm\<lparr>fm_slug := ''hi''\<rparr>) \<and>
   (\<exists>p. standalone (''a: b'' @ nl # dashes @ nl # ''text'') p \<and> p \<le> max_front_matter_size)"
proof -
  have "find_closing_delimiter (''a: b'' @ [nl]) = None"
    unfolding find_closing_delimiter_def by (subst find_closing_from.simps) code_simp
  moreover have "plain_segment ''hi''" by code_simp
  then have "admissible id (empty_fm\<lparr>fm_slug := ''hi''\<rparr>)" by (simp add: admissible_def empty_fm_def)
  ultimately have "parse_front_matter (\<lambda>y. Some (empty_fm\<lparr>fm_slug := ''hi''\<rparr>)) id
      (dashes @ nl # ''a: b'' @ nl # dashes @ nl # ''text'') = Ok (Some (empty_fm\<lparr>fm_slug := ''hi''\<rparr>), ''text'')"
    by (intro parse_delimited) (simp_all add: max_front_matter_size_def)
  note f = front_matter_screened [OF this]
  have "skip_newline (drop 3 (dashes @ nl # ''a: b'' @ nl # dashes @ nl # ''text'')) = ''a: b'' @ nl # dashes @ nl # ''text''"
    by (simp add: dashes_def skip_newline_def)
  then show ?thesis using f by auto
qed

fun node_safe :: "(string \<Rightarrow> string) \<Rightarrow> md_node \<Rightarrow> bool" where
  "node_safe lc (Link d cs) = (is_safe_url lc d \<and> list_all (node_safe lc) cs)"
| "node_safe lc (Image d cs) = (is_safe_url lc d \<and> list_all (node_safe lc) cs)"
| "node_safe lc (AutoLink url label) = is_safe_url lc url"
| "node_safe lc (Text t) = True"
| "node_safe lc (Node cs) = list_all (node_safe lc) cs"

lemma is_safe_url_blocked: "is_safe_url lc ''#blocked''"
proof -
  have "trim_space ''#blocked'' = ''#blocked''" by code_simp
  then show ?thesis by (simp add: is_safe_url_def)
qed

text \<open>The subtrees the walk does not visit: those after an automatic link it replaces.\<close>

fun unvisited :: "(string \<Rightarrow> string) \<Rightarrow> md_node \<Rightarrow> md_node list"
  and unvisited_among :: "(string \<Rightarrow> string) \<Rightarrow> md_node list \<Rightarrow> md_node list" where
  "unvisited lc (Link d cs) = unvisited_among lc cs"
| "unvisited lc (Image d cs) = unvisited_among lc cs"
| "unvisited lc (AutoLink url label) = []"
| "unvisited lc (Text t) = []"
| "unvisited lc (Node cs) = unvisited_among lc cs"
| "unvisited_among lc [] = []"
| "unvisited_among lc (AutoLink url label # cs) = (if is_safe_url lc url then unvisited_among lc cs else cs)"
| "unvisited_among lc (c # cs) = unvisited lc c @ unvisited_among lc cs"

text \<open>The child lists of a document, and the documents whose unsafe automatic links end them.\<close>

fun sibling_lists :: "md_node \<Rightarrow> md_node list list" where
  "sibling_lists (Link d cs) = cs # concat (map sibling_lists cs)"
| "sibling_lists (Image d cs) = cs # concat (map sibling_lists cs)"
| "sibling_lists (AutoLink url label) = []"
| "sibling_lists (Text t) = []"
| "sibling_lists (Node cs) = cs # concat (map sibling_lists cs)"

definition bad_autos_last :: "(string \<Rightarrow> string) \<Rightarrow> md_node \<Rightarrow> bool" where
  "bad_autos_last lc n \<longleftrightarrow>
     (\<forall>cs \<in> set (sibling_lists n). \<forall>c \<in> set (butlast cs).
        case c of AutoLink url label \<Rightarrow> is_safe_url lc url | _ \<Rightarrow> True)"

lemma sanitize_safe_iff:
  "node_safe lc (sanitize_node lc n) \<longleftrightarrow> list_all (node_safe lc) (unvisited lc n)"
  "list_all (node_safe lc) (sanitize_children lc cs) \<longleftrightarrow> list_all (node_safe lc) (unvisited_among lc cs)"
proof (induction lc n and lc cs rule: sanitize_node_sanitize_children.induct)
  case (7 lc c cs)
  then show ?case by (cases c) auto
qed (simp_all add: is_safe_url_blocked)

lemma sanitize_id:
  "node_safe lc n \<Longrightarrow> sanitize_node lc n = n"
  "list_all (node_safe lc) cs \<Longrightarrow> sanitize_children lc cs = cs"
  by (induction lc n and lc cs rule: sanitize_node_sanitize_children.induct) simp_all

lemma unvisited_none:
  "bad_autos_last lc n \<Longrightarrow> unvisited lc n = []"
  "\<forall>l \<in> set (cs # concat (map sibling_lists cs)). \<forall>c \<in> set (butlast l).
     (case c of AutoLink url label \<Rightarrow> is_safe_url lc url | _ \<Rightarrow> True) \<Longrightarrow> unvisited_among lc cs = []"
proof (induction lc n and lc cs rule: sanitize_node_sanitize_children.induct)
  case (7 lc c cs)
  then show ?case by (cases c) (simp_all add: bad_autos_last_def ball_Un split: if_splits)
qed (auto simp: bad_autos_last_def)

text \<open>
  C36. The sanitizer makes exactly the nodes it visits safe. The visited ones are all but those
  that follow, under one parent, an automatic link it has replaced; the sanitized document
  carries no URL outside the allowed schemes exactly when the trees it did not visit carry none.
  So a document whose automatic links are all allowed, or in which each one that is not is the
  last child of its parent, comes out safe, and a document without unsafe URLs is unchanged;
  an unsafe link that follows a replaced automatic link is still there.
\<close>

theorem sanitize_removes_unsafe:
  "(node_safe lc (sanitize_node lc n) \<longleftrightarrow> list_all (node_safe lc) (unvisited lc n)) \<and>
   (bad_autos_last lc n \<longrightarrow> node_safe lc (sanitize_node lc n)) \<and>
   (node_safe lc n \<longrightarrow> sanitize_node lc n = n)"
  by (simp add: sanitize_safe_iff(1) unvisited_none(1) sanitize_id(1))

theorem sanitize_removes_unsafe_witness:
  "sanitize_node id (Node [Link ''#x'' []]) = Node [Link ''#x'' []] \<and>
   node_safe id (sanitize_node id (Node [Link ''ftp://h'' [], AutoLink ''ftp://h'' ''h''])) \<and>
   \<not> node_safe id (sanitize_node id (Node [AutoLink ''ftp://h'' ''h'', Link ''ftp://h'' []]))"
proof (intro conjI)
  have ftp: "\<not> is_safe_url id ''ftp://h''" by code_simp
  have "is_safe_url id ''#x''" by code_simp
  then show "sanitize_node id (Node [Link ''#x'' []]) = Node [Link ''#x'' []]"
    by (intro sanitize_removes_unsafe [THEN conjunct2, THEN conjunct2, THEN mp]) simp
  show "node_safe id (sanitize_node id (Node [Link ''ftp://h'' [], AutoLink ''ftp://h'' ''h'']))"
    by (rule sanitize_removes_unsafe [THEN conjunct2, THEN conjunct1, THEN mp]) (simp add: bad_autos_last_def)
  show "\<not> node_safe id (sanitize_node id (Node [AutoLink ''ftp://h'' ''h'', Link ''ftp://h'' []]))"
    using sanitize_removes_unsafe [of id "Node [AutoLink ''ftp://h'' ''h'', Link ''ftp://h'' []]"] ftp by simp
qed

end
