(* ===== verification/Content_Cache.thy ===== *)
theory Content_Cache
  imports Prelude
begin

text \<open>
  The rendered-HTML cache of \<open>internal/content/cache.go\<close>. SHA-256 is the parameter \<open>sha\<close>.
  Which entry an eviction removes depends on Go's map iteration order, so a \<open>Set\<close> that may
  evict carries the order \<open>ord\<close> in which the iteration happens to visit the keys. Slices are
  copied on the way in and out, so values stand for them.
\<close>

subsection \<open>State and operations\<close>

record cache_entry =
  ce_html :: string
  ce_etag :: string
  ce_modified :: int
  ce_expiry :: int

record cache =
  ca_entries :: "string \<rightharpoonup> cache_entry"
  ca_max :: int
  ca_ttl :: int

definition hour :: int where
  "hour = 3600 * 10 ^ 9"

definition new_cache :: "int \<Rightarrow> int \<Rightarrow> cache" where
  "new_cache max_entries ttl =
     \<lparr>ca_entries = Map.empty,
      ca_max = (if max_entries \<le> 0 then 1000 else max_entries),
      ca_ttl = (if ttl \<le> 0 then hour else ttl)\<rparr>"

definition expired :: "int \<Rightarrow> cache_entry \<Rightarrow> bool" where
  "expired now e = (ce_expiry e < now)"

definition cache_get :: "string \<Rightarrow> int \<Rightarrow> cache \<Rightarrow> string option" where
  "cache_get key now c =
     (case ca_entries c key of
        None \<Rightarrow> None
      | Some e \<Rightarrow> if expired now e then None else Some (ce_html e))"

definition cache_get_entry :: "string \<Rightarrow> int \<Rightarrow> cache \<Rightarrow> cache_entry option" where
  "cache_get_entry key now c =
     (case ca_entries c key of
        None \<Rightarrow> None
      | Some e \<Rightarrow> if expired now e then None else Some e)"

definition hex_digit :: "nat \<Rightarrow> char" where
  "hex_digit n = (if n < 10 then char_of (48 + n) else char_of (87 + n))"

definition hex_encode :: "string \<Rightarrow> string" where
  "hex_encode s = concat (map (\<lambda>c. [hex_digit (of_char c div 16), hex_digit (of_char c mod 16)]) s)"

text \<open>The loop that looks for a victim: the first expired key, or the last one visited.\<close>

fun pick_victim :: "int \<Rightarrow> (string \<rightharpoonup> cache_entry) \<Rightarrow> string list \<Rightarrow> string \<Rightarrow> string" where
  "pick_victim now m [] victim = victim"
| "pick_victim now m (k # ks) victim =
     (if (case m k of None \<Rightarrow> False | Some e \<Rightarrow> expired now e) then k else pick_victim now m ks k)"

definition cache_set ::
  "(string \<Rightarrow> string) \<Rightarrow> string \<Rightarrow> string \<Rightarrow> int \<Rightarrow> string list \<Rightarrow> cache \<Rightarrow> cache" where
  "cache_set sha key html now ord c =
     (let entry = \<lparr>ce_html = html, ce_etag = [CHR 0x22] @ hex_encode (take 16 (sha html)) @ [CHR 0x22],
                   ce_modified = now, ce_expiry = now + ca_ttl c\<rparr>;
          m = ca_entries c in
      if m key \<noteq> None then c\<lparr>ca_entries := m(key \<mapsto> entry)\<rparr>
      else
        let m1 = (if ca_max c \<le> int (card (dom m)) then m(pick_victim now m ord '''' := None) else m)
        in c\<lparr>ca_entries := m1(key \<mapsto> entry)\<rparr>)"

definition cache_invalidate :: "string \<Rightarrow> cache \<Rightarrow> cache" where
  "cache_invalidate key c = c\<lparr>ca_entries := (ca_entries c)(key := None)\<rparr>"

definition cache_invalidate_all :: "cache \<Rightarrow> cache" where
  "cache_invalidate_all c = c\<lparr>ca_entries := Map.empty\<rparr>"

definition cache_len :: "cache \<Rightarrow> nat" where
  "cache_len c = card (dom (ca_entries c))"

subsection \<open>Sequences of operations\<close>

datatype cache_op =
    SetOp string string int "string list"
  | InvalidateOp string
  | InvalidateAllOp

text \<open>An order is one of the iteration when it visits every key once; other orders do not occur.\<close>

definition iteration_order :: "cache \<Rightarrow> string list \<Rightarrow> bool" where
  "iteration_order c ord \<longleftrightarrow> distinct ord \<and> set ord = dom (ca_entries c)"

fun cache_step :: "(string \<Rightarrow> string) \<Rightarrow> cache_op \<Rightarrow> cache \<Rightarrow> cache" where
  "cache_step sha (SetOp key html now ord) c =
     (if iteration_order c ord then cache_set sha key html now ord c else c)"
| "cache_step sha (InvalidateOp key) c = cache_invalidate key c"
| "cache_step sha InvalidateAllOp c = cache_invalidate_all c"

definition cache_inv :: "cache \<Rightarrow> bool" where
  "cache_inv c \<longleftrightarrow> 0 < ca_max c \<and> 0 < ca_ttl c \<and> finite (dom (ca_entries c)) \<and>
     int (card (dom (ca_entries c))) \<le> ca_max c"

lemma pick_victim_in: "ks \<noteq> [] \<Longrightarrow> pick_victim now m ks v \<in> set ks"
  by (induction ks arbitrary: v) (auto, metis pick_victim.simps(1) list.exhaust)

lemma cache_set_inv:
  assumes "cache_inv c" and "iteration_order c ord"
  shows "cache_inv (cache_set sha key html now ord c)"
proof (cases "ca_entries c key")
  case None
  note f = assms(1) [unfolded cache_inv_def]
  show ?thesis
  proof (cases "ca_max c \<le> int (card (dom (ca_entries c)))")
    case True
    then have "ord \<noteq> []" using f assms(2) by (auto simp: iteration_order_def)
    let ?v = "pick_victim now (ca_entries c) ord ''''"
    have v: "?v \<in> dom (ca_entries c)"
      using pick_victim_in [OF \<open>ord \<noteq> []\<close>] assms(2) by (auto simp: iteration_order_def)
    have "key \<noteq> ?v" using None v by auto
    then have "dom ((ca_entries c)(?v := None, key \<mapsto> x)) = insert key (dom (ca_entries c) - {?v})" for x
      by auto
    moreover have "card (insert key (dom (ca_entries c) - {?v})) = card (dom (ca_entries c))"
    proof -
      have "0 < card (dom (ca_entries c))" using v f by (auto simp: card_gt_0_iff)
      moreover have "key \<notin> dom (ca_entries c)" using None by auto
      ultimately show ?thesis using f v by (simp add: card_insert_if)
    qed
    ultimately show ?thesis
      using f True None by (simp add: cache_set_def Let_def cache_inv_def)
  next
    case False
    then show ?thesis
      using f None by (simp add: cache_set_def Let_def cache_inv_def card_insert_if)
  qed
next
  case (Some e)
  then have "insert key (dom (ca_entries c)) = dom (ca_entries c)" by auto
  then show ?thesis using assms(1) Some by (simp add: cache_set_def Let_def cache_inv_def)
qed

lemma cache_step_inv:
  "cache_inv c \<Longrightarrow> cache_inv (cache_step sha x c) \<and> ca_max (cache_step sha x c) = ca_max c \<and>
     ca_ttl (cache_step sha x c) = ca_ttl c"
proof (cases x)
  case (InvalidateOp k)
  assume c: "cache_inv c"
  have "card (dom (ca_entries c) - {k}) \<le> card (dom (ca_entries c))"
    using c by (intro card_mono) (auto simp: cache_inv_def)
  then show ?thesis using c InvalidateOp by (simp add: cache_invalidate_def cache_inv_def)
qed (auto simp: cache_set_inv cache_invalidate_all_def, auto simp: cache_inv_def cache_set_def Let_def)

interpretation cb: bounded_store "cache_step sha" cache_len n "\<lambda>c. cache_inv c \<and> ca_max c = int n"
  for sha n
  by unfold_locales (auto simp: cache_step_inv cache_len_def, simp add: cache_inv_def)

lemma cache_inv_new: "cache_inv (new_cache mx ttl)"
  by (simp add: cache_inv_def new_cache_def hour_def)

text \<open>
  C33. Whatever is set and invalidated, and whichever entries the iteration order makes it
  evict, the cache never holds more entries than it is configured for.
\<close>

theorem cache_bounded:
  "int (cache_len (run (cache_step sha) ops (new_cache mx ttl))) \<le> (if mx \<le> 0 then 1000 else mx)"
proof -
  have "ca_max (new_cache mx ttl) = (if mx \<le> 0 then 1000 else mx)" by (simp add: new_cache_def)
  then show ?thesis
    using cb.run_weight [of "new_cache mx ttl" "nat (if mx \<le> 0 then 1000 else mx)" sha ops] cache_inv_new
    by (auto split: if_splits)
qed

subsection \<open>Freshness\<close>

text \<open>The reference: the last value set for each key and not invalidated since, with its time.\<close>

fun ref_step :: "cache_op \<Rightarrow> (string \<rightharpoonup> string \<times> int) \<Rightarrow> (string \<rightharpoonup> string \<times> int)" where
  "ref_step (SetOp key html now ord) r = r(key \<mapsto> (html, now))"
| "ref_step (InvalidateOp key) r = r(key := None)"
| "ref_step InvalidateAllOp r = Map.empty"

text \<open>The set operations of a sequence all come with an order that their cache allows.\<close>

fun orders_ok :: "(string \<Rightarrow> string) \<Rightarrow> cache_op list \<Rightarrow> cache \<Rightarrow> bool" where
  "orders_ok sha [] c = True"
| "orders_ok sha (x # xs) c =
     ((case x of SetOp _ _ _ ord \<Rightarrow> iteration_order c ord | _ \<Rightarrow> True) \<and>
      orders_ok sha xs (cache_step sha x c))"

definition tracks :: "cache \<Rightarrow> (string \<rightharpoonup> string \<times> int) \<Rightarrow> bool" where
  "tracks c r \<longleftrightarrow> (\<forall>k e. ca_entries c k = Some e \<longrightarrow>
     r k = Some (ce_html e, ce_modified e) \<and> ce_expiry e = ce_modified e + ca_ttl c)"

lemma tracks_step:
  assumes "tracks c r" and "case x of SetOp _ _ _ ord \<Rightarrow> iteration_order c ord | _ \<Rightarrow> True"
  shows "tracks (cache_step sha x c) (ref_step x r)"
  using assms
  by (cases x) (auto simp: tracks_def cache_set_def Let_def cache_invalidate_def cache_invalidate_all_def
      split: if_splits)

lemma tracks_run:
  "tracks c r \<Longrightarrow> orders_ok sha ops c \<Longrightarrow> tracks (run (cache_step sha) ops c) (run ref_step ops r)"
  by (induction ops arbitrary: c r) (auto simp: tracks_step)

lemma run_ttl: "cache_inv c \<Longrightarrow> ca_ttl (run (cache_step sha) ops c) = ca_ttl c"
proof (induction ops arbitrary: c)
  case (Cons x ops)
  then show ?case using cache_step_inv [OF Cons.prems, of sha x] by simp
qed simp

text \<open>
  C32. A hit is never wrong and never stale: what \<open>Get\<close> returns at a time is the last value
  set for the key and not invalidated since, set at most one TTL before; and right after a
  \<open>Set\<close> the value is returned for the whole TTL.
\<close>

theorem cache_hit_fresh:
  assumes "orders_ok sha ops (new_cache mx ttl)"
  defines "c \<equiv> run (cache_step sha) ops (new_cache mx ttl)"
  shows "(cache_get key now c = Some html \<longrightarrow>
       (\<exists>t. run ref_step ops Map.empty key = Some (html, t) \<and> now \<le> t + ca_ttl (new_cache mx ttl))) \<and>
    (iteration_order c ord \<and> now \<le> t0 + ca_ttl c \<longrightarrow>
       cache_get key now (cache_set sha key html t0 ord c) = Some html)"
proof -
  have "tracks (new_cache mx ttl) Map.empty" by (simp add: tracks_def new_cache_def)
  then have "tracks c (run ref_step ops Map.empty)" unfolding c_def by (rule tracks_run [OF _ assms(1)])
  moreover have "ca_ttl c = ca_ttl (new_cache mx ttl)"
    unfolding c_def by (rule run_ttl [OF cache_inv_new])
  ultimately show ?thesis
    by (fastforce simp: cache_get_def tracks_def expired_def cache_set_def Let_def split: option.splits if_splits)
qed

theorem cache_hit_fresh_witness:
  "cache_get ''k'' 5 (cache_set id ''k'' ''<p>'' 3 [] (run (cache_step id) [InvalidateAllOp] (new_cache 2 10)))
     = Some ''<p>''"
proof -
  have "orders_ok id [InvalidateAllOp] (new_cache 2 10)" by simp
  from cache_hit_fresh [OF this, of "''k''" 5 "''<p>''" "[]" 3] show ?thesis
    by (simp add: iteration_order_def cache_invalidate_all_def new_cache_def)
qed

end
