(* ===== verification/Scanner.thy ===== *)
theory Scanner
  imports Front_Matter Layer_FS "HOL-Library.List_Lexorder" "HOL-Library.Char_ord"
    "HOL-Library.Product_Lexorder"
begin

text \<open>
  The content scanner of \<open>internal/content/scanner.go\<close>: one pass over the posts and the pages
  directory, building the index the handlers serve from. The file system is given by the
  visits \<open>fs.WalkDir\<close> makes and by \<open>fs.ReadFile\<close>; the Markdown converter, the YAML decoder,
  \<open>strings.ToLower\<close> and \<open>html.UnescapeString\<close> are the fields of \<open>scan_lib\<close>. Pointers to posts
  are posts: nothing changes a post once it is built.
\<close>

subsection \<open>Data\<close>

record post =
  po_fm :: front_matter
  po_slug :: string
  po_content :: string
  po_summary :: string
  po_reading_time :: int
  po_path :: string

text \<open>The canonical plain text of a post.\<close>

definition plain_text :: "(string \<Rightarrow> string) \<Rightarrow> post \<Rightarrow> string" where
  "plain_text unescape p = strip_html unescape (po_content p)"

datatype walk_error =
    WalkFailed fs_error
  | Duplicate bool string string string   \<comment> \<open>page?, slug, path, path of the first\<close>

datatype scan_error =
    WalkAt string fs_error
  | DuplicateSlug bool string string string
  | ScanningPosts walk_error
  | ScanningPages walk_error
  | SlugConflict string string string

record index =
  ix_posts :: "post list"
  ix_by_slug :: "string \<rightharpoonup> post"
  ix_by_tag :: "string \<rightharpoonup> post list"
  ix_by_year :: "int \<rightharpoonup> post list"
  ix_pages :: "post list"
  ix_page_by_slug :: "string \<rightharpoonup> post"
  ix_errors :: "scan_error list"

definition empty_index :: index where
  "empty_index = \<lparr>ix_posts = [], ix_by_slug = Map.empty, ix_by_tag = Map.empty,
     ix_by_year = Map.empty, ix_pages = [], ix_page_by_slug = Map.empty, ix_errors = []\<rparr>"

text \<open>\<open>Errors()\<close>: a copy, nil (here empty) when nothing was collected.\<close>

definition index_errors :: "index \<Rightarrow> scan_error list" where
  "index_errors idx = ix_errors idx"

record scan_lib =
  sc_yaml :: "string \<Rightarrow> front_matter option"
  sc_lower :: "string \<Rightarrow> string"
  sc_convert :: "string \<Rightarrow> string option"
  sc_unescape :: "string \<Rightarrow> string"

record scanner =
  sn_posts_dir :: string
  sn_pages_dir :: string
  sn_summary_len :: int

definition new_scanner :: "string \<Rightarrow> string \<Rightarrow> int \<Rightarrow> scanner" where
  "new_scanner posts pages n =
     \<lparr>sn_posts_dir = (if posts = '''' then ''posts'' else posts),
      sn_pages_dir = (if pages = '''' then ''pages'' else pages),
      sn_summary_len = (if n \<le> 0 then 200 else n)\<rparr>"

text \<open>What \<open>fs.WalkDir\<close> reports, in its order, and \<open>fs.ReadFile\<close>.\<close>

datatype visit = VisitErr string fs_error | VisitDir string | VisitFile string

record content_fs =
  cf_walk :: "string \<Rightarrow> visit list"
  cf_read :: "string \<Rightarrow> (fs_error, string) result"

subsection \<open>One file\<close>

definition max_render_size :: nat where
  "max_render_size = 10 * 1024 * 1024"

definition render :: "scan_lib \<Rightarrow> string \<Rightarrow> string option" where
  "render lib src = (if max_render_size < length src then None else sc_convert lib src)"

datatype file_outcome = Ignored | Skipped | Built post

definition build_post :: "scan_lib \<Rightarrow> scanner \<Rightarrow> content_fs \<Rightarrow> bool \<Rightarrow> string \<Rightarrow> file_outcome" where
  "build_post lib sn fs is_page path =
     (case cf_read fs path of
        Inl e \<Rightarrow> Skipped
      | Inr data \<Rightarrow>
          (case parse_front_matter (sc_yaml lib) (sc_lower lib) data of
             Inl e \<Rightarrow> Skipped
           | Inr (None, body) \<Rightarrow> Ignored
           | Inr (Some fm, body) \<Rightarrow>
               (if fm_draft fm then Ignored
                else if \<not> is_page \<and> is_zero_time (fm_date fm) then Skipped
                else (case render lib body of
                   None \<Rightarrow> Skipped
                 | Some rendered \<Rightarrow>
                     (let slug = (if fm_slug fm = '''' then slug_from_path path else fm_slug fm) in
                      if fm_slug fm = '''' \<and> (\<not> plain_segment slug \<or> contains_any slug [CHR '' '', CHR 0x09])
                      then Skipped
                      else Built
                        \<lparr>po_fm = fm, po_slug = slug, po_content = rendered,
                         po_summary = truncate_text (strip_html (sc_unescape lib) rendered) (nat (sn_summary_len sn)),
                         po_reading_time =
                           (if fm_reading_time fm = 0 then reading_time_minutes body else fm_reading_time fm),
                         po_path = path\<rparr>)))))"

subsection \<open>One directory\<close>

definition add_post :: "bool \<Rightarrow> post \<Rightarrow> index \<Rightarrow> index" where
  "add_post is_page p idx =
     (if is_page
      then idx\<lparr>ix_pages := ix_pages idx @ [p], ix_page_by_slug := (ix_page_by_slug idx)(po_slug p \<mapsto> p)\<rparr>
      else idx\<lparr>ix_posts := ix_posts idx @ [p], ix_by_slug := (ix_by_slug idx)(po_slug p \<mapsto> p)\<rparr>)"

definition add_error :: "scan_error \<Rightarrow> index \<Rightarrow> index" where
  "add_error e idx = idx\<lparr>ix_errors := ix_errors idx @ [e]\<rparr>"

text \<open>The callback of the walk: the index and the count of skipped files after the visit, and
  the error that stops the walk, if it returns one.\<close>

definition scan_visit ::
  "scan_lib \<Rightarrow> scanner \<Rightarrow> content_fs \<Rightarrow> bool \<Rightarrow> bool \<Rightarrow> visit \<Rightarrow> index \<times> nat \<Rightarrow>
   (index \<times> nat) \<times> walk_error option" where
  "scan_visit lib sn fs is_page best v s =
     (case s of (idx, skipped) \<Rightarrow>
      (case v of
         VisitErr path err \<Rightarrow>
           (if best \<and> \<not> is_not_exist err then ((add_error (WalkAt path err) idx, skipped), None)
            else (s, Some (WalkFailed err)))
       | VisitDir path \<Rightarrow> (s, None)
       | VisitFile path \<Rightarrow>
           (if \<not> has_suffix path ''.md'' then (s, None)
            else (case build_post lib sn fs is_page path of
               Ignored \<Rightarrow> (s, None)
             | Skipped \<Rightarrow> ((idx, Suc skipped), None)
             | Built p \<Rightarrow>
                 (case (if is_page then ix_page_by_slug idx else ix_by_slug idx) (po_slug p) of
                    Some existing \<Rightarrow>
                      (if best
                       then ((add_error (DuplicateSlug is_page (po_slug p) path (po_path existing)) idx,
                              Suc skipped), None)
                       else (s, Some (Duplicate is_page (po_slug p) path (po_path existing))))
                  | None \<Rightarrow> ((add_post is_page p idx, skipped), None))))))"

fun scan_visits ::
  "scan_lib \<Rightarrow> scanner \<Rightarrow> content_fs \<Rightarrow> bool \<Rightarrow> bool \<Rightarrow> visit list \<Rightarrow> index \<times> nat \<Rightarrow>
   (index \<times> nat) \<times> walk_error option" where
  "scan_visits lib sn fs is_page best [] s = (s, None)"
| "scan_visits lib sn fs is_page best (v # vs) s =
     (case scan_visit lib sn fs is_page best v s of
        (s1, Some e) \<Rightarrow> (s1, Some e)
      | (s1, None) \<Rightarrow> scan_visits lib sn fs is_page best vs s1)"

definition scan_dir ::
  "scan_lib \<Rightarrow> scanner \<Rightarrow> content_fs \<Rightarrow> bool \<Rightarrow> bool \<Rightarrow> index \<Rightarrow> (index \<times> nat) \<times> walk_error option" where
  "scan_dir lib sn fs is_page best idx =
     scan_visits lib sn fs is_page best
       (cf_walk fs (if is_page then sn_pages_dir sn else sn_posts_dir sn)) (idx, 0)"

subsection \<open>The scan\<close>

fun walk_not_exist :: "walk_error \<Rightarrow> bool" where
  "walk_not_exist (WalkFailed e) = is_not_exist e"
| "walk_not_exist (Duplicate _ _ _ _) = False"

text \<open>One directory's result taken into the scan: a missing directory is no error.\<close>

definition absorb ::
  "bool \<Rightarrow> (walk_error \<Rightarrow> scan_error) \<Rightarrow> (index \<times> nat) \<times> walk_error option \<Rightarrow> (scan_error, index) result" where
  "absorb best wrap r =
     (case r of
        ((idx, skipped), None) \<Rightarrow> Ok idx
      | ((idx, skipped), Some e) \<Rightarrow>
          (if walk_not_exist e then Ok idx
           else if best then Ok (add_error (wrap e) idx)
           else Err (wrap e)))"

text \<open>The collision check; the code ranges over the map of pages, here in the order of \<open>Pages\<close>.\<close>

fun check_conflicts :: "bool \<Rightarrow> post list \<Rightarrow> index \<Rightarrow> (scan_error, index) result" where
  "check_conflicts best [] idx = Ok idx"
| "check_conflicts best (page # pages) idx =
     (case ix_by_slug idx (po_slug page) of
        None \<Rightarrow> check_conflicts best pages idx
      | Some post \<Rightarrow>
          (let e = SlugConflict (po_path page) (po_path post) (po_slug page) in
           if best then check_conflicts best pages (add_error e idx) else Err e))"

definition date_key :: "post \<Rightarrow> int" where
  "date_key p = - gt_instant (fm_date (po_fm p))"

definition page_key :: "scan_lib \<Rightarrow> post \<Rightarrow> int \<times> string" where
  "page_key lib p = (fm_weight (po_fm p), sc_lower lib (fm_title (po_fm p)))"

definition append_at :: "'k \<Rightarrow> 'v \<Rightarrow> ('k \<rightharpoonup> 'v list) \<Rightarrow> ('k \<rightharpoonup> 'v list)" where
  "append_at k v m = m(k \<mapsto> (case m k of None \<Rightarrow> [] | Some vs \<Rightarrow> vs) @ [v])"

definition norm_tag :: "scan_lib \<Rightarrow> string \<Rightarrow> string" where
  "norm_tag lib tag = sc_lower lib (trim_space tag)"

definition add_tag :: "scan_lib \<Rightarrow> post \<Rightarrow> string \<Rightarrow> (string \<rightharpoonup> post list) \<Rightarrow> (string \<rightharpoonup> post list)" where
  "add_tag lib p tag m = (let t = norm_tag lib tag in if t \<noteq> '''' then append_at t p m else m)"

definition index_post :: "scan_lib \<Rightarrow> post \<Rightarrow> index \<Rightarrow> index" where
  "index_post lib p idx =
     idx\<lparr>ix_by_tag := fold (add_tag lib p) (fm_tags (po_fm p)) (ix_by_tag idx),
         ix_by_year := append_at (gt_year (fm_date (po_fm p))) p (ix_by_year idx)\<rparr>"

definition finish_index :: "scan_lib \<Rightarrow> index \<Rightarrow> index" where
  "finish_index lib idx =
     (let posts = sort_key date_key (ix_posts idx);
          idx1 = idx\<lparr>ix_posts := posts, ix_pages := sort_key (page_key lib) (ix_pages idx),
                     ix_by_tag := Map.empty, ix_by_year := Map.empty\<rparr>
      in fold (index_post lib) posts idx1)"

definition scan_content ::
  "scan_lib \<Rightarrow> scanner \<Rightarrow> content_fs \<Rightarrow> bool \<Rightarrow> (scan_error, index) result" where
  "scan_content lib sn fs best =
     (case absorb best ScanningPosts (scan_dir lib sn fs False best empty_index) of
        Inl e \<Rightarrow> Err e
      | Inr idx1 \<Rightarrow>
          (case absorb best ScanningPages (scan_dir lib sn fs True best idx1) of
             Inl e \<Rightarrow> Err e
           | Inr idx2 \<Rightarrow>
               (case check_conflicts best (ix_pages idx2) idx2 of
                  Inl e \<Rightarrow> Err e
                | Inr idx3 \<Rightarrow> Ok (finish_index lib idx3))))"

subsection \<open>The index while it is built\<close>

text \<open>
  A built post: not a draft, dated unless it is a page, from a Markdown file, with a slug that
  is one path segment.
\<close>

definition good_post :: "bool \<Rightarrow> post \<Rightarrow> bool" where
  "good_post is_page p \<longleftrightarrow>
     \<not> fm_draft (po_fm p) \<and> (is_page \<or> \<not> is_zero_time (fm_date (po_fm p))) \<and>
     has_suffix (po_path p) ''.md'' \<and> plain_segment (po_slug p)"

definition slug_table :: "post list \<Rightarrow> (string \<rightharpoonup> post)" where
  "slug_table ps = map_of (map (\<lambda>p. (po_slug p, p)) ps)"

definition building :: "index \<Rightarrow> bool" where
  "building idx \<longleftrightarrow>
     distinct (map po_slug (ix_posts idx)) \<and> ix_by_slug idx = slug_table (ix_posts idx) \<and>
     distinct (map po_slug (ix_pages idx)) \<and> ix_page_by_slug idx = slug_table (ix_pages idx) \<and>
     (\<forall>p \<in> set (ix_posts idx). good_post False p) \<and> (\<forall>p \<in> set (ix_pages idx). good_post True p)"

lemma building_empty [inv_intros]: "building empty_index"
  by (simp add: building_def empty_index_def slug_table_def)

lemma building_error [inv_intros]: "building idx \<Longrightarrow> building (add_error e idx)"
  by (simp add: building_def add_error_def)

lemma slug_table_None: "slug_table ps s = None \<longleftrightarrow> s \<notin> po_slug ` set ps"
  by (auto simp: slug_table_def map_of_eq_None_iff image_iff)

lemma slug_table_snoc:
  "po_slug p \<notin> po_slug ` set ps \<Longrightarrow> slug_table (ps @ [p]) = (slug_table ps)(po_slug p \<mapsto> p)"
  by (induction ps) (auto simp: slug_table_def)

lemma build_post_good:
  assumes "build_post lib sn fs is_page path = Built p" and "has_suffix path ''.md''"
  shows "good_post is_page p" and "po_path p = path"
proof -
  obtain data fm body where d: "cf_read fs path = Ok data"
    "parse_front_matter (sc_yaml lib) (sc_lower lib) data = Ok (Some fm, body)"
    using assms(1) by (auto simp: build_post_def split: sum.splits option.splits)
  have a: "fm_slug fm = '''' \<or> plain_segment (fm_slug fm)"
    using parse_admissible [OF d(2)] by (simp add: admissible_def)
  obtain rendered where "render lib body = Some rendered"
    using assms(1) d by (auto simp: build_post_def split: option.splits if_splits)
  then show "good_post is_page p" and "po_path p = path"
    using assms d a by (auto simp: build_post_def Let_def good_post_def split: if_splits)
qed

lemma building_add:
  assumes "building idx" and "good_post is_page p"
    and "(if is_page then ix_page_by_slug idx else ix_by_slug idx) (po_slug p) = None"
  shows "building (add_post is_page p idx)"
  using assms by (auto simp: building_def add_post_def slug_table_None slug_table_snoc)

lemma building_visit:
  assumes "building (fst s)" and "scan_visit lib sn fs is_page best v s = (s', r)"
  shows "building (fst s')"
proof (cases v)
  case (VisitFile path)
  show ?thesis
  proof (cases "has_suffix path ''.md''")
    case True
    then show ?thesis
      using assms VisitFile build_post_good(1) [of lib sn fs is_page path]
      by (auto simp: scan_visit_def intro!: building_error building_add
          split: prod.splits file_outcome.splits option.splits if_splits)
  qed (use assms VisitFile in \<open>auto simp: scan_visit_def split: prod.splits\<close>)
qed (use assms in \<open>auto simp: scan_visit_def intro: building_error split: prod.splits if_splits\<close>)

lemma building_visits:
  "building (fst s) \<Longrightarrow> scan_visits lib sn fs is_page best vs s = (s', r) \<Longrightarrow> building (fst s')"
proof (induction vs arbitrary: s)
  case (Cons v vs)
  obtain s1 e where v: "scan_visit lib sn fs is_page best v s = (s1, e)"
    by (cases "scan_visit lib sn fs is_page best v s")
  have "building (fst s1)" by (rule building_visit [OF Cons.prems(1) v])
  then show ?case using Cons v by (cases e) auto
qed simp

lemma building_absorb:
  assumes "building idx" and "absorb best w (scan_dir lib sn fs is_page best idx) = Ok idx'"
  shows "building idx'"
proof -
  obtain idx1 n e where d: "scan_dir lib sn fs is_page best idx = ((idx1, n), e)"
    by (metis surj_pair)
  have "building idx1"
    using building_visits [of "(idx, 0)"] assms(1) d unfolding scan_dir_def by fastforce
  then show ?thesis
    using assms(2) d by (auto simp: absorb_def intro: building_error split: option.splits if_splits)
qed

lemma check_conflicts_result:
  assumes "check_conflicts best pages idx = Ok idx'"
  shows "ix_posts idx' = ix_posts idx" and "ix_pages idx' = ix_pages idx"
    and "ix_by_slug idx' = ix_by_slug idx" and "ix_page_by_slug idx' = ix_page_by_slug idx"
    and "\<not> best \<Longrightarrow> idx' = idx \<and> (\<forall>p \<in> set pages. ix_by_slug idx (po_slug p) = None)"
  using assms
  by (induction pages arbitrary: idx)
     (auto simp: add_error_def Let_def split: option.splits if_splits)

lemma index_post_keeps:
  "ix_posts (fold (index_post lib) ps idx) = ix_posts idx \<and>
   ix_pages (fold (index_post lib) ps idx) = ix_pages idx \<and>
   ix_by_slug (fold (index_post lib) ps idx) = ix_by_slug idx \<and>
   ix_page_by_slug (fold (index_post lib) ps idx) = ix_page_by_slug idx \<and>
   ix_errors (fold (index_post lib) ps idx) = ix_errors idx"
  by (induction ps arbitrary: idx) (simp_all add: index_post_def)

lemma finish_index_simps [simp]:
  "ix_posts (finish_index lib idx) = sort_key date_key (ix_posts idx)"
  "ix_pages (finish_index lib idx) = sort_key (page_key lib) (ix_pages idx)"
  "ix_by_slug (finish_index lib idx) = ix_by_slug idx"
  "ix_page_by_slug (finish_index lib idx) = ix_page_by_slug idx"
  "ix_errors (finish_index lib idx) = ix_errors idx"
  by (simp_all add: finish_index_def Let_def index_post_keeps)

lemma slug_table_iff:
  "distinct (map po_slug ps) \<Longrightarrow> slug_table ps s = Some p \<longleftrightarrow> p \<in> set ps \<and> po_slug p = s"
  by (induction ps) (auto simp: slug_table_def image_iff)

lemma slug_table_sort:
  assumes "distinct (map po_slug ps)"
  shows "slug_table (sort_key f ps) = slug_table ps" and "distinct (map po_slug (sort_key f ps))"
proof -
  show d: "distinct (map po_slug (sort_key f ps))"
    using assms by (simp add: distinct_map)
  show "slug_table (sort_key f ps) = slug_table ps"
    proof
    fix s
    show "slug_table (sort_key f ps) s = slug_table ps s"
      by (rule option_eq_by_Some) (simp add: slug_table_iff [OF d] slug_table_iff [OF assms])
  qed
qed

lemma scan_content_steps:
  assumes "scan_content lib sn fs best = Ok idx"
  obtains idx3 where "building idx3" and "idx = finish_index lib idx3"
    and "\<not> best \<Longrightarrow> \<forall>p \<in> set (ix_pages idx3). ix_by_slug idx3 (po_slug p) = None"
proof -
  obtain idx1 where 1: "absorb best ScanningPosts (scan_dir lib sn fs False best empty_index) = Ok idx1"
    using assms by (auto simp: scan_content_def split: sum.splits)
  obtain idx2 where 2: "absorb best ScanningPages (scan_dir lib sn fs True best idx1) = Ok idx2"
    using assms 1 by (auto simp: scan_content_def split: sum.splits)
  obtain idx3 where 3: "check_conflicts best (ix_pages idx2) idx2 = Ok idx3" "idx = finish_index lib idx3"
    using assms 1 2 by (auto simp: scan_content_def split: sum.splits)
  have "building idx2" by (rule building_absorb [OF building_absorb [OF building_empty 1] 2])
  then have "building idx3"
    using check_conflicts_result [OF 3(1)] by (simp add: building_def)
  then show ?thesis using that 3 check_conflicts_result [OF 3(1)] by auto
qed

subsection \<open>What the walk finds\<close>

text \<open>
  A reference for the scan of one directory: the posts (or pages) of the visited files, in the
  order of the walk, up to the first entry reported as missing, which ends the walk; and the
  first of every slug.
\<close>

fun missing_entry :: "visit \<Rightarrow> bool" where
  "missing_entry (VisitErr path err) = is_not_exist err"
| "missing_entry (VisitDir path) = False"
| "missing_entry (VisitFile path) = False"

fun found_at :: "scan_lib \<Rightarrow> scanner \<Rightarrow> content_fs \<Rightarrow> bool \<Rightarrow> visit \<Rightarrow> post list" where
  "found_at lib sn fs is_page (VisitFile path) =
     (if has_suffix path ''.md''
      then (case build_post lib sn fs is_page path of Built p \<Rightarrow> [p] | Ignored \<Rightarrow> [] | Skipped \<Rightarrow> [])
      else [])"
| "found_at lib sn fs is_page (VisitDir path) = []"
| "found_at lib sn fs is_page (VisitErr path err) = []"

definition found :: "scan_lib \<Rightarrow> scanner \<Rightarrow> content_fs \<Rightarrow> bool \<Rightarrow> visit list \<Rightarrow> post list" where
  "found lib sn fs is_page vs =
     concat (map (found_at lib sn fs is_page) (takeWhile (\<lambda>v. \<not> missing_entry v) vs))"

fun first_slugs :: "post list \<Rightarrow> post list" where
  "first_slugs [] = []"
| "first_slugs (p # ps) = p # filter (\<lambda>q. po_slug q \<noteq> po_slug p) (first_slugs ps)"

text \<open>The list a directory's walk extends, and the one it leaves alone.\<close>

definition listed_in :: "bool \<Rightarrow> index \<Rightarrow> post list" where
  "listed_in is_page idx = (if is_page then ix_pages idx else ix_posts idx)"

definition fresh_in :: "bool \<Rightarrow> index \<Rightarrow> post \<Rightarrow> bool" where
  "fresh_in is_page idx p \<longleftrightarrow> po_slug p \<notin> po_slug ` set (listed_in is_page idx)"

lemma listed_in_simps [simp]:
  "listed_in is_page (add_error e idx) = listed_in is_page idx"
  "listed_in is_page (add_post is_page p idx) = listed_in is_page idx @ [p]"
  "listed_in (\<not> is_page) (add_post is_page p idx) = listed_in (\<not> is_page) idx"
  "listed_in False (add_post True p idx) = listed_in False idx"
  "listed_in True (add_post False p idx) = listed_in True idx"
  by (simp_all add: listed_in_def add_error_def add_post_def)

lemma fresh_lookup:
  "building idx \<Longrightarrow>
     (if is_page then ix_page_by_slug idx else ix_by_slug idx) (po_slug p) = None \<longleftrightarrow> fresh_in is_page idx p"
  by (simp add: building_def fresh_in_def listed_in_def slug_table_None)

text \<open>One visit that does not stop the walk.\<close>

lemma scan_visit_found:
  assumes "building (fst s)" and "scan_visit lib sn fs is_page best v s = (s', None)"
  shows "listed_in is_page (fst s') =
      listed_in is_page (fst s) @ filter (fresh_in is_page (fst s)) (found_at lib sn fs is_page v) \<and>
    listed_in (\<not> is_page) (fst s') = listed_in (\<not> is_page) (fst s) \<and> \<not> missing_entry v"
proof (cases v)
  case (VisitFile path)
  obtain idx n where s: "s = (idx, n)" by (cases s)
  show ?thesis
  proof (cases "\<exists>p. has_suffix path ''.md'' \<and> build_post lib sn fs is_page path = Built p")
    case True
    then obtain p where p: "has_suffix path ''.md''" "build_post lib sn fs is_page path = Built p" by blast
    show ?thesis
      using assms(2) fresh_lookup [of idx is_page p] assms(1) unfolding VisitFile s
      by (cases "(if is_page then ix_page_by_slug idx else ix_by_slug idx) (po_slug p)")
         (auto simp: scan_visit_def p split: if_splits)
  next
    case False
    then have "found_at lib sn fs is_page v = []"
      by (auto simp: VisitFile split: file_outcome.splits)
    moreover have "fst s' = fst s"
      using assms(2) False unfolding VisitFile s
      by (cases "build_post lib sn fs is_page path") (auto simp: scan_visit_def split: if_splits)
    ultimately show ?thesis by (simp add: VisitFile)
  qed
qed (use assms in \<open>auto simp: scan_visit_def split: prod.splits if_splits\<close>)

lemma best_walk_error:
  "scan_visits lib sn fs is_page True vs s = (s', Some e) \<Longrightarrow> walk_not_exist e"
proof (induction vs arbitrary: s)
  case (Cons v vs)
  obtain s1 r where v: "scan_visit lib sn fs is_page True v s = (s1, r)"
    by (cases "scan_visit lib sn fs is_page True v s")
  show ?case
  proof (cases r)
    case (Some err)
    then show ?thesis using Cons.prems v
      by (auto simp: scan_visit_def split: prod.splits visit.splits file_outcome.splits option.splits if_splits)
  qed (use Cons v in auto)
qed simp

lemma found_Cons:
  "\<not> missing_entry v \<Longrightarrow> found lib sn fs is_page (v # vs) = found_at lib sn fs is_page v @ found lib sn fs is_page vs"
  by (simp add: found_def)

lemma found_at_cases: "found_at lib sn fs is_page v = [] \<or> (\<exists>p. found_at lib sn fs is_page v = [p])"
  by (cases v) (auto split: file_outcome.splits)

lemma scan_visits_found:
  assumes "building (fst s)" and "scan_visits lib sn fs is_page best vs s = (s', r)"
    and "r = None \<or> (\<exists>e. r = Some e \<and> walk_not_exist e)"
  shows "listed_in is_page (fst s') =
      listed_in is_page (fst s) @ filter (fresh_in is_page (fst s)) (first_slugs (found lib sn fs is_page vs)) \<and>
    listed_in (\<not> is_page) (fst s') = listed_in (\<not> is_page) (fst s)"
  using assms
proof (induction vs arbitrary: s)
  case Nil
  then show ?case by (simp add: found_def)
next
  case (Cons v vs)
  obtain s1 e where v: "scan_visit lib sn fs is_page best v s = (s1, e)"
    by (cases "scan_visit lib sn fs is_page best v s")
  show ?case
  proof (cases e)
    case (Some err)
    have "missing_entry v \<and> s1 = s"
      using v Cons.prems(2,3) Some
      by (auto simp: scan_visit_def split: prod.splits visit.splits file_outcome.splits option.splits if_splits)
    then show ?thesis using Cons.prems(2) v Some by (simp add: found_def)
  next
    case None
    have b: "building (fst s1)" by (rule building_visit [OF Cons.prems(1) v])
    note 1 = scan_visit_found [OF Cons.prems(1) v [unfolded None]]
    have 2: "listed_in is_page (fst s') =
        listed_in is_page (fst s1) @ filter (fresh_in is_page (fst s1)) (first_slugs (found lib sn fs is_page vs)) \<and>
      listed_in (\<not> is_page) (fst s') = listed_in (\<not> is_page) (fst s1)"
      by (rule Cons.IH [OF b]) (use Cons.prems(2,3) v None in simp_all)
    have f: "found lib sn fs is_page (v # vs) = found_at lib sn fs is_page v @ found lib sn fs is_page vs"
      using 1 by (simp add: found_Cons)
    show ?thesis
    proof (cases "\<exists>p. found_at lib sn fs is_page v = [p] \<and> fresh_in is_page (fst s) p")
      case True
      then obtain p where p: "found_at lib sn fs is_page v = [p]" "fresh_in is_page (fst s) p" by blast
      have l: "listed_in is_page (fst s1) = listed_in is_page (fst s) @ [p]" using 1 p by simp
      have "fresh_in is_page (fst s1) = (\<lambda>q. fresh_in is_page (fst s) q \<and> po_slug q \<noteq> po_slug p)"
        by (auto simp: fun_eq_iff fresh_in_def l)
      then show ?thesis using 1 2 p by (simp add: f l conj_commute)
    next
      case False
      have l: "listed_in is_page (fst s1) = listed_in is_page (fst s)"
        using 1 False found_at_cases [of lib sn fs is_page v] by auto
      have "filter (fresh_in is_page (fst s)) (first_slugs (found lib sn fs is_page (v # vs))) =
          filter (fresh_in is_page (fst s)) (first_slugs (found lib sn fs is_page vs))"
        using found_at_cases [of lib sn fs is_page v]
      proof
        assume "\<exists>p. found_at lib sn fs is_page v = [p]"
        then obtain p where p: "found_at lib sn fs is_page v = [p]" by blast
        then have old: "\<not> fresh_in is_page (fst s) p" using False by blast
        then have "(\<lambda>q. po_slug q \<noteq> po_slug p \<and> fresh_in is_page (fst s) q) = fresh_in is_page (fst s)"
          by (auto simp: fun_eq_iff fresh_in_def)
        then show ?thesis using old by (simp add: f p conj_commute)
      qed (simp add: f)
      then show ?thesis using 1 2 l by (simp add: fresh_in_def [abs_def])
    qed
  qed
qed

lemma absorb_found:
  assumes "building idx" and "absorb best w (scan_dir lib sn fs is_page best idx) = Ok idx'"
    and "listed_in is_page idx = []"
  shows "listed_in is_page idx' = first_slugs (found lib sn fs is_page
      (cf_walk fs (if is_page then sn_pages_dir sn else sn_posts_dir sn))) \<and>
    listed_in (\<not> is_page) idx' = listed_in (\<not> is_page) idx"
proof -
  obtain idx1 n e where d: "scan_dir lib sn fs is_page best idx = ((idx1, n), e)" by (metis surj_pair)
  have "e = None \<or> (\<exists>x. e = Some x \<and> walk_not_exist x)"
    using assms(2) d best_walk_error [of lib sn fs is_page _ "(idx, 0)" "(idx1, n)"]
    by (cases best) (auto simp: absorb_def scan_dir_def split: option.splits if_splits)
  note 1 = scan_visits_found [OF _ d [unfolded scan_dir_def] this]
  have 2: "listed_in b idx' = listed_in b idx1" for b
    using assms(2) d by (auto simp: absorb_def split: option.splits if_splits)
  show ?thesis using 1 assms(1,3) by (simp add: 2 fresh_in_def [abs_def])
qed

lemma scan_content_found:
  assumes "scan_content lib sn fs best = Ok idx"
  obtains idx3 where "idx = finish_index lib idx3"
    and "ix_posts idx3 = first_slugs (found lib sn fs False (cf_walk fs (sn_posts_dir sn)))"
    and "ix_pages idx3 = first_slugs (found lib sn fs True (cf_walk fs (sn_pages_dir sn)))"
proof -
  obtain idx1 where 1: "absorb best ScanningPosts (scan_dir lib sn fs False best empty_index) = Ok idx1"
    using assms by (auto simp: scan_content_def split: sum.splits)
  obtain idx2 where 2: "absorb best ScanningPages (scan_dir lib sn fs True best idx1) = Ok idx2"
    using assms 1 by (auto simp: scan_content_def split: sum.splits)
  obtain idx3 where 3: "check_conflicts best (ix_pages idx2) idx2 = Ok idx3" "idx = finish_index lib idx3"
    using assms 1 2 by (auto simp: scan_content_def split: sum.splits)
  have b: "building idx1" by (rule building_absorb [OF building_empty 1])
  have l1: "listed_in False idx1 = first_slugs (found lib sn fs False (cf_walk fs (sn_posts_dir sn)))"
    "listed_in True idx1 = []"
    using absorb_found [OF building_empty 1] by (simp_all add: listed_in_def empty_index_def)
  have l2: "listed_in True idx2 = first_slugs (found lib sn fs True (cf_walk fs (sn_pages_dir sn)))"
    "listed_in False idx2 = listed_in False idx1"
    using absorb_found [OF b 2 l1(2)] by simp_all
  show ?thesis
    by (rule that [OF 3(2)]) (use l1 l2 check_conflicts_result [OF 3(1)] in \<open>simp_all add: listed_in_def\<close>)
qed

subsection \<open>Properties of the scan\<close>

lemma scan_consistent:
  assumes "scan_content lib sn fs best = Ok idx"
  shows "distinct (map po_slug (ix_posts idx)) \<and> distinct (map po_slug (ix_pages idx)) \<and>
    (\<forall>s p. ix_by_slug idx s = Some p \<longleftrightarrow> p \<in> set (ix_posts idx) \<and> po_slug p = s) \<and>
    (\<forall>s p. ix_page_by_slug idx s = Some p \<longleftrightarrow> p \<in> set (ix_pages idx) \<and> po_slug p = s) \<and>
    (\<forall>p \<in> set (ix_posts idx). good_post False p) \<and> (\<forall>p \<in> set (ix_pages idx). good_post True p) \<and>
    (best \<or> po_slug ` set (ix_posts idx) \<inter> po_slug ` set (ix_pages idx) = {})"
proof -
  obtain idx3 where b: "building idx3" and idx: "idx = finish_index lib idx3"
    and c: "\<not> best \<Longrightarrow> \<forall>p \<in> set (ix_pages idx3). ix_by_slug idx3 (po_slug p) = None"
    using scan_content_steps [OF assms] by blast
  note b = b [unfolded building_def]
  have "distinct (map po_slug (ix_posts idx))" "distinct (map po_slug (ix_pages idx))"
    using b by (simp_all add: idx slug_table_sort(2))
  moreover have "\<forall>s p. ix_by_slug idx s = Some p \<longleftrightarrow> p \<in> set (ix_posts idx) \<and> po_slug p = s"
    "\<forall>s p. ix_page_by_slug idx s = Some p \<longleftrightarrow> p \<in> set (ix_pages idx) \<and> po_slug p = s"
    using b by (simp_all add: idx slug_table_iff)
  moreover have "best \<or> po_slug ` set (ix_posts idx) \<inter> po_slug ` set (ix_pages idx) = {}"
  proof (rule disjCI)
    assume "po_slug ` set (ix_posts idx) \<inter> po_slug ` set (ix_pages idx) \<noteq> {}"
    then obtain p q where "p \<in> set (ix_posts idx3)" "q \<in> set (ix_pages idx3)" "po_slug q = po_slug p"
      unfolding idx finish_index_simps set_sort by force
    then show best using c b by (metis image_eqI slug_table_None)
  qed
  ultimately show ?thesis using b by (simp add: idx)
qed

text \<open>
  C22. Every index a scan returns is consistent: slugs are unique among the posts and among
  the pages, the lookup tables hold exactly the listed posts and pages under their slugs, no
  draft, no undated post and no unsafe slug is listed; and a strict scan leaves no slug that
  is both a post's and a page's.
\<close>

theorem scan_index_consistent:
  assumes "scan_content lib sn fs best = Ok idx"
  shows "distinct (map po_slug (ix_posts idx)) \<and> distinct (map po_slug (ix_pages idx)) \<and>
    (\<forall>s p. ix_by_slug idx s = Some p \<longleftrightarrow> p \<in> set (ix_posts idx) \<and> po_slug p = s) \<and>
    (\<forall>s p. ix_page_by_slug idx s = Some p \<longleftrightarrow> p \<in> set (ix_pages idx) \<and> po_slug p = s) \<and>
    (\<forall>p \<in> set (ix_posts idx). good_post False p) \<and> (\<forall>p \<in> set (ix_pages idx). good_post True p) \<and>
    (best \<or> po_slug ` set (ix_posts idx) \<inter> po_slug ` set (ix_pages idx) = {})"
  by (rule scan_consistent [OF assms])

definition demo_scan_lib :: scan_lib where
  "demo_scan_lib = \<lparr>sc_yaml = (\<lambda>y. Some (empty_fm\<lparr>fm_date := \<lparr>gt_instant = 7, gt_year = 2026\<rparr>,
       fm_slug := ''s'', fm_tags := [''go'']\<rparr>)),
     sc_lower = id, sc_convert = Some, sc_unescape = id\<rparr>"

definition demo_content :: content_fs where
  "demo_content = \<lparr>cf_walk = (\<lambda>d. if d = ''posts'' then [VisitDir ''posts''] else [VisitErr d (RawError ErrNotExist)]),
     cf_read = (\<lambda>p. Err (RawError ErrNotExist))\<rparr>"

lemma demo_scan:
  "scan_content demo_scan_lib (new_scanner '''' '''' 0) demo_content False = Ok (finish_index demo_scan_lib empty_index)"
  by (simp add: scan_content_def scan_dir_def demo_content_def new_scanner_def scan_visit_def absorb_def
      is_not_exist_def empty_index_def)

text \<open>Two posts of one date, the walk visiting them against the order of their names; each has a tag twice.\<close>

definition twin_lib :: scan_lib where
  "twin_lib = demo_scan_lib\<lparr>sc_yaml := (\<lambda>y. Some (empty_fm\<lparr>fm_date := \<lparr>gt_instant = 7, gt_year = 2026\<rparr>, fm_tags := [''go'', '' go'']\<rparr>))\<rparr>"

definition twin_fs :: content_fs where
  "twin_fs = \<lparr>cf_walk = (\<lambda>d. if d = ''posts'' then [VisitDir ''posts'', VisitFile ''posts/b.md'', VisitFile ''posts/a.md'']
       else [VisitErr d (RawError ErrNotExist)]),
     cf_read = (\<lambda>p. Ok (dashes @ nl # ''x'' @ nl # dashes @ nl # ''hello''))\<rparr>"

definition twin_post :: "string \<Rightarrow> post" where
  "twin_post slug = \<lparr>po_fm = empty_fm\<lparr>fm_date := \<lparr>gt_instant = 7, gt_year = 2026\<rparr>, fm_tags := [''go'', '' go'']\<rparr>,
     po_slug = slug, po_content = ''hello'', po_summary = ''hello'', po_reading_time = 1,
     po_path = ''posts/'' @ slug @ ''.md''\<rparr>"

lemma twin_built:
  assumes "slug = ''a'' \<or> slug = ''b''"
  shows "build_post twin_lib (new_scanner '''' '''' 0) twin_fs False (''posts/'' @ slug @ ''.md'') = Built (twin_post slug)"
proof -
  have 1: "parse_front_matter (sc_yaml twin_lib) id (dashes @ nl # ''x'' @ nl # dashes @ nl # ''hello'') =
      Ok (Some (po_fm (twin_post slug)), ''hello'')"
  proof (rule parse_delimited)
    show "find_closing_delimiter (''x'' @ [nl]) = None"
      unfolding find_closing_delimiter_def by (subst find_closing_from.simps) code_simp
    show "admissible id (po_fm (twin_post slug))" by (simp add: admissible_def twin_post_def empty_fm_def)
  qed (simp_all add: max_front_matter_size_def twin_lib_def twin_post_def)
  have 2: "reading_time_minutes ''hello'' = 1" by code_simp
  have 3: "truncate_text (strip_html id ''hello'') 200 = ''hello''" by code_simp
  have 4: "slug_from_path (''posts/'' @ slug @ ''.md'') = slug \<and> plain_segment slug \<and> \<not> contains_any slug [CHR '' '', CHR 0x09]"
    using assms by (elim disjE; hypsubst) code_simp+
  have lib: "sc_lower twin_lib = id" "sc_unescape twin_lib = id" "render twin_lib ''hello'' = Some ''hello''"
    by (simp_all add: twin_lib_def demo_scan_lib_def render_def max_render_size_def)
  have fm: "\<not> fm_draft (po_fm (twin_post slug))" "\<not> is_zero_time (fm_date (po_fm (twin_post slug)))"
    "fm_slug (po_fm (twin_post slug)) = ''''" "fm_reading_time (po_fm (twin_post slug)) = 0"
    by (simp_all add: twin_post_def empty_fm_def is_zero_time_def)
  have r: "cf_read twin_fs p = Ok (dashes @ nl # ''x'' @ nl # dashes @ nl # ''hello'')" for p
    by (simp add: twin_fs_def)
  have n: "nat (sn_summary_len (new_scanner '''' '''' 0)) = 200" by (simp add: new_scanner_def)
  show ?thesis
    unfolding build_post_def r sum.case lib 1 option.case prod.case n
    by (simp only: fm 2 3 4 Let_def simp_thms if_True if_False refl) (simp add: twin_post_def)
qed

definition twin_index :: index where
  "twin_index = finish_index twin_lib (add_post False (twin_post ''a'') (add_post False (twin_post ''b'') empty_index))"

lemma twin_simps [simp]:
  "po_slug (twin_post x) = x" "gt_instant (fm_date (po_fm (twin_post x))) = 7"
  "fm_tags (po_fm (twin_post x)) = [''go'', '' go'']" "gt_year (fm_date (po_fm (twin_post x))) = 2026"
  by (simp_all add: twin_post_def)

lemma twin_walk:
  "cf_walk twin_fs ''posts'' = [VisitDir ''posts'', VisitFile ''posts/b.md'', VisitFile ''posts/a.md'']"
  "cf_walk twin_fs ''pages'' = [VisitErr ''pages'' (RawError ErrNotExist)]"
  by (simp_all add: twin_fs_def)

lemma twin_files: "has_suffix ''posts/a.md'' ''.md''" "has_suffix ''posts/b.md'' ''.md''"
  by code_simp+

lemmas twin_posts = twin_built [of "''a''", simplified] twin_built [of "''b''", simplified]

lemma default_dirs: "sn_posts_dir (new_scanner '''' '''' n) = ''posts''" "sn_pages_dir (new_scanner '''' '''' n) = ''pages''"
  by (simp_all add: new_scanner_def)

lemma twin_scan: "scan_content twin_lib (new_scanner '''' '''' 0) twin_fs False = Ok twin_index"
  unfolding scan_content_def scan_dir_def twin_index_def
  by (simp add: default_dirs twin_walk twin_posts twin_files scan_visit_def absorb_def is_not_exist_def
      empty_index_def add_post_def)

lemma twin_listed: "ix_posts twin_index = [twin_post ''b'', twin_post ''a'']"
  by (simp add: twin_index_def add_post_def empty_index_def date_key_def)

theorem scan_index_consistent_witness:
  "ix_by_slug twin_index ''a'' = Some (twin_post ''a'') \<and> good_post False (twin_post ''b'')"
  using scan_index_consistent [OF twin_scan] by (simp add: twin_listed)

text \<open>
  C39. Posts are listed from the newest to the oldest, pages by weight and then by title
  without regard to case. Both sorts are stable with respect to the walk of the directory: the
  posts of one date stand in the order in which the walk came to their files, and so do the
  pages of one weight and title. What is listed is what the walk found: the files it visits
  until it meets a missing entry, each once if it makes a post or a page, a later file with
  the slug of an earlier one left out.
\<close>

theorem scan_index_sorted:
  assumes "scan_content lib sn fs best = Ok idx"
  shows "sorted_wrt (\<lambda>p q. gt_instant (fm_date (po_fm p)) \<ge> gt_instant (fm_date (po_fm q))) (ix_posts idx) \<and>
    sorted_wrt (\<lambda>p q. page_key lib p \<le> page_key lib q) (ix_pages idx) \<and>
    (\<forall>d. filter (\<lambda>p. gt_instant (fm_date (po_fm p)) = d) (ix_posts idx) =
         filter (\<lambda>p. gt_instant (fm_date (po_fm p)) = d)
           (first_slugs (found lib sn fs False (cf_walk fs (sn_posts_dir sn))))) \<and>
    (\<forall>k. filter (\<lambda>p. page_key lib p = k) (ix_pages idx) =
         filter (\<lambda>p. page_key lib p = k)
           (first_slugs (found lib sn fs True (cf_walk fs (sn_pages_dir sn))))) \<and>
    mset (ix_posts idx) = mset (first_slugs (found lib sn fs False (cf_walk fs (sn_posts_dir sn)))) \<and>
    mset (ix_pages idx) = mset (first_slugs (found lib sn fs True (cf_walk fs (sn_pages_dir sn))))"
proof -
  obtain idx3 where idx: "idx = finish_index lib idx3"
    and posts: "ix_posts idx3 = first_slugs (found lib sn fs False (cf_walk fs (sn_posts_dir sn)))"
    and pages: "ix_pages idx3 = first_slugs (found lib sn fs True (cf_walk fs (sn_pages_dir sn)))"
    by (rule scan_content_found [OF assms])
  have "sorted (map date_key (ix_posts idx))" "sorted (map (page_key lib) (ix_pages idx))"
    by (simp_all add: idx)
  then have "sorted_wrt (\<lambda>p q. gt_instant (fm_date (po_fm p)) \<ge> gt_instant (fm_date (po_fm q))) (ix_posts idx)"
    "sorted_wrt (\<lambda>p q. page_key lib p \<le> page_key lib q) (ix_pages idx)"
    by (simp_all add: sorted_wrt_map date_key_def)
  moreover have "filter (\<lambda>p. date_key p = - d) (ix_posts idx) = filter (\<lambda>p. date_key p = - d) (ix_posts idx3)" for d
    by (simp add: idx sort_key_stable)
  then have "filter (\<lambda>p. gt_instant (fm_date (po_fm p)) = d) (ix_posts idx) =
      filter (\<lambda>p. gt_instant (fm_date (po_fm p)) = d) (ix_posts idx3)" for d
    by (simp add: date_key_def)
  moreover have "filter (\<lambda>p. page_key lib p = k) (ix_pages idx) = filter (\<lambda>p. page_key lib p = k) (ix_pages idx3)" for k
    by (simp add: idx sort_key_stable)
  moreover have "mset (ix_posts idx) = mset (ix_posts idx3)" "mset (ix_pages idx) = mset (ix_pages idx3)"
    by (simp_all add: idx)
  ultimately show ?thesis by (simp add: posts pages)
qed

theorem scan_index_sorted_witness:
  "filter (\<lambda>p. gt_instant (fm_date (po_fm p)) = 7) (ix_posts twin_index) = [twin_post ''b'', twin_post ''a'']"
proof -
  have "found twin_lib (new_scanner '''' '''' 0) twin_fs False (cf_walk twin_fs ''posts'') = [twin_post ''b'', twin_post ''a'']"
    by (simp add: twin_walk found_def twin_posts twin_files)
  then show ?thesis using scan_index_sorted [OF twin_scan] by (simp add: default_dirs)
qed

text \<open>The occurrences of a tag among a post's tags, after trimming and lower-casing.\<close>

definition tag_count :: "scan_lib \<Rightarrow> string \<Rightarrow> post \<Rightarrow> nat" where
  "tag_count lib t p = length (filter (\<lambda>tag. norm_tag lib tag = t) (fm_tags (po_fm p)))"

definition listed :: "('k \<rightharpoonup> 'v list) \<Rightarrow> 'k \<Rightarrow> 'v list" where
  "listed m k = (case m k of None \<Rightarrow> [] | Some vs \<Rightarrow> vs)"

lemma listed_append_at [simp]: "listed (append_at k v m) j = listed m j @ (if j = k then [v] else [])"
  by (auto simp: listed_def append_at_def)

lemma listed_empty [simp]: "listed Map.empty k = []"
  by (simp add: listed_def)

lemma listed_add_tags:
  "t \<noteq> '''' \<Longrightarrow> listed (fold (add_tag lib p) tags m) t =
     listed m t @ replicate (length (filter (\<lambda>tag. norm_tag lib tag = t) tags)) p"
  by (induction tags arbitrary: m) (auto simp: add_tag_def Let_def replicate_append_same)

lemma listed_no_empty_tag: "listed (fold (add_tag lib p) tags m) '''' = listed m ''''"
  by (induction tags arbitrary: m) (auto simp: add_tag_def Let_def)

lemma index_posts_tags:
  "listed (ix_by_tag (fold (index_post lib) ps idx)) t =
     listed (ix_by_tag idx) t @ (if t = '''' then [] else concat (map (\<lambda>p. replicate (tag_count lib t p) p) ps))"
proof (induction ps arbitrary: idx)
  case (Cons p ps)
  have "listed (ix_by_tag (index_post lib p idx)) t =
      listed (ix_by_tag idx) t @ (if t = '''' then [] else replicate (tag_count lib t p) p)"
    using listed_add_tags [of t lib p "fm_tags (po_fm p)"] listed_no_empty_tag [of lib p "fm_tags (po_fm p)"]
    by (simp add: index_post_def tag_count_def)
  then show ?case using Cons by simp
qed simp

lemma index_posts_years:
  "listed (ix_by_year (fold (index_post lib) ps idx)) y =
     listed (ix_by_year idx) y @ filter (\<lambda>p. gt_year (fm_date (po_fm p)) = y) ps"
  by (induction ps arbitrary: idx) (auto simp: index_post_def)

text \<open>
  C37. The tag and year tables agree with the sorted posts: under a tag stand the posts that
  carry it, newest first, once for every time they carry it in whatever case and spacing; the
  empty tag has no posts; under a year stand the posts of that year.
\<close>

theorem scan_tables_exact:
  assumes "scan_content lib sn fs best = Ok idx"
  shows "listed (ix_by_tag idx) t =
      (if t = '''' then [] else concat (map (\<lambda>p. replicate (tag_count lib t p) p) (ix_posts idx))) \<and>
    listed (ix_by_year idx) y = filter (\<lambda>p. gt_year (fm_date (po_fm p)) = y) (ix_posts idx)"
proof -
  obtain idx3 where idx: "idx = finish_index lib idx3"
    using scan_content_steps [OF assms] by blast
  show ?thesis
    unfolding idx finish_index_simps(1)
    by (simp add: finish_index_def Let_def index_posts_tags index_posts_years)
qed

theorem scan_tables_exact_witness:
  "listed (ix_by_tag twin_index) ''go'' = [twin_post ''b'', twin_post ''b'', twin_post ''a'', twin_post ''a''] \<and>
   listed (ix_by_year twin_index) 2026 = [twin_post ''b'', twin_post ''a'']"
proof -
  have t: "trim_space ''go'' = ''go''" "trim_space '' go'' = ''go''" by code_simp+
  have "tag_count twin_lib ''go'' (twin_post x) = 2" for x
    by (simp add: tag_count_def norm_tag_def twin_lib_def demo_scan_lib_def t)
  then show ?thesis
    using scan_tables_exact [OF twin_scan, of "''go''" 2026] by (simp add: twin_listed numeral_2_eq_2)
qed

text \<open>
  C38. A best-effort scan always returns an index; a strict scan that returns one has
  collected no error.
\<close>

lemma visits_strict_errors:
  "scan_visits lib sn fs is_page False vs s = (s', r) \<Longrightarrow> ix_errors (fst s') = ix_errors (fst s)"
proof (induction vs arbitrary: s)
  case (Cons v vs)
  obtain s1 e where v: "scan_visit lib sn fs is_page False v s = (s1, e)"
    by (cases "scan_visit lib sn fs is_page False v s")
  have "ix_errors (fst s1) = ix_errors (fst s)"
    using v by (auto simp: scan_visit_def add_post_def
        split: prod.splits visit.splits file_outcome.splits option.splits if_splits)
  then show ?case using Cons v by (cases e) auto
qed simp

lemma absorb_strict:
  assumes "absorb False w (scan_dir lib sn fs is_page False idx) = Ok idx'"
  shows "ix_errors idx' = ix_errors idx"
proof -
  obtain idx1 n e where d: "scan_dir lib sn fs is_page False idx = ((idx1, n), e)" by (metis surj_pair)
  have "ix_errors idx1 = ix_errors idx"
    using visits_strict_errors [OF d [unfolded scan_dir_def]] by simp
  then show ?thesis using assms d by (auto simp: absorb_def split: option.splits if_splits)
qed

lemma absorb_best: "is_ok (absorb True w r)"
  by (auto simp: absorb_def split: prod.splits option.splits)

lemma check_conflicts_best: "is_ok (check_conflicts True pages idx)"
  by (induction pages arbitrary: idx) (auto simp: Let_def split: option.splits)

theorem scan_modes:
  "is_ok (scan_content lib sn fs True) \<and>
   (scan_content lib sn fs False = Ok idx \<longrightarrow> index_errors idx = [])"
proof
  obtain idx1 where 1: "absorb True ScanningPosts (scan_dir lib sn fs False True empty_index) = Ok idx1"
    using absorb_best [of ScanningPosts] by (metis is_ok_simps(2) sum.exhaust_sel sum.collapse)
  obtain idx2 where 2: "absorb True ScanningPages (scan_dir lib sn fs True True idx1) = Ok idx2"
    using absorb_best [of ScanningPages] by (metis is_ok_simps(2) sum.exhaust_sel sum.collapse)
  obtain idx3 where "check_conflicts True (ix_pages idx2) idx2 = Ok idx3"
    using check_conflicts_best by (metis is_ok_simps(2) sum.exhaust_sel sum.collapse)
  then show "is_ok (scan_content lib sn fs True)" using 1 2 by (simp add: scan_content_def)
next
  show "scan_content lib sn fs False = Ok idx \<longrightarrow> index_errors idx = []"
  proof
    assume s: "scan_content lib sn fs False = Ok idx"
    obtain idx1 where 1: "absorb False ScanningPosts (scan_dir lib sn fs False False empty_index) = Ok idx1"
      using s by (auto simp: scan_content_def split: sum.splits)
    obtain idx2 where 2: "absorb False ScanningPages (scan_dir lib sn fs True False idx1) = Ok idx2"
      using s 1 by (auto simp: scan_content_def split: sum.splits)
    obtain idx3 where 3: "check_conflicts False (ix_pages idx2) idx2 = Ok idx3" "idx = finish_index lib idx3"
      using s 1 2 by (auto simp: scan_content_def split: sum.splits)
    show "index_errors idx = []"
      using absorb_strict [OF 1] absorb_strict [OF 2] check_conflicts_result(5) [OF 3(1)] 3(2)
      by (simp add: index_errors_def empty_index_def)
  qed
qed

theorem scan_modes_witness:
  "index_errors twin_index = []"
  using scan_modes [of twin_lib "new_scanner '''' '''' 0" twin_fs] twin_scan by blast

end
