(* ===== verification/Renderer.thy ===== *)
theory Renderer
  imports Scanner
begin

text \<open>
  The renderer (\<open>internal/content/renderer.go\<close>): its options and the ways to render. goldmark is a
  parameter: the error of a conversion, if any, and what it has written. The link sanitizer and the
  checks of the size are part of every renderer.
\<close>

datatype render_option = UnsafeHTML | HardWraps

record renderer_options =
  ro_unsafe_html :: bool
  ro_hard_wraps :: bool

definition apply_render_option :: "render_option \<Rightarrow> renderer_options \<Rightarrow> renderer_options" where
  "apply_render_option opt o' =
     (case opt of UnsafeHTML \<Rightarrow> o'\<lparr>ro_unsafe_html := True\<rparr> | HardWraps \<Rightarrow> o'\<lparr>ro_hard_wraps := True\<rparr>)"

datatype renderer_feature = GFM | Footnote | Typographer | HighlightClasses | AutoHeadingID | LinkSanitizer | Unsafe | Wraps

definition new_renderer :: "render_option list \<Rightarrow> renderer_feature list" where
  "new_renderer opts =
     (let o' = fold apply_render_option opts \<lparr>ro_unsafe_html = False, ro_hard_wraps = False\<rparr> in
      [GFM, Footnote, Typographer, HighlightClasses, AutoHeadingID, LinkSanitizer] @
      (if ro_unsafe_html o' then [Unsafe] else []) @ (if ro_hard_wraps o' then [Wraps] else []))"

type_synonym convert = "renderer_feature list \<Rightarrow> string \<Rightarrow> string option \<times> string"

datatype render_error = TooLarge | NilWriter | ConvertFailed string

definition render_bytes :: "convert \<Rightarrow> renderer_feature list \<Rightarrow> string \<Rightarrow> (render_error, string) result" where
  "render_bytes conv md src =
     (if max_render_size < length src then Err TooLarge
      else case conv md src of (Some e, out) \<Rightarrow> Err (ConvertFailed e) | (None, out) \<Rightarrow> Ok out)"

definition render_string :: "convert \<Rightarrow> renderer_feature list \<Rightarrow> string \<Rightarrow> (render_error, string) result" where
  "render_string conv md src = (case render_bytes conv md src of Inl e \<Rightarrow> Err e | Inr data \<Rightarrow> Ok data)"

text \<open>Rendering to a writer that takes all it is given; \<open>None\<close> is the nil writer.\<close>

definition render_to :: "convert \<Rightarrow> renderer_feature list \<Rightarrow> string option \<Rightarrow> string \<Rightarrow> render_error option \<times> string option" where
  "render_to conv md w src =
     (case w of
        None \<Rightarrow> (Some NilWriter, None)
      | Some old \<Rightarrow>
          if max_render_size < length src then (Some TooLarge, w)
          else (case conv md src of (e, out) \<Rightarrow> (map_option ConvertFailed e, Some (old @ out))))"

lemma render_options_fold:
  "ro_unsafe_html (fold apply_render_option opts o') \<longleftrightarrow> ro_unsafe_html o' \<or> UnsafeHTML \<in> set opts"
  "ro_hard_wraps (fold apply_render_option opts o') \<longleftrightarrow> ro_hard_wraps o' \<or> HardWraps \<in> set opts"
  by (induction opts arbitrary: o') (auto simp: apply_render_option_def split: render_option.splits)

text \<open>
  The link sanitizer runs in every renderer, raw HTML passes only when it was asked for, and the
  order and repetition of the options do not matter.
\<close>

theorem renderer_secure:
  "LinkSanitizer \<in> set (new_renderer opts) \<and> (Unsafe \<in> set (new_renderer opts) \<longleftrightarrow> UnsafeHTML \<in> set opts) \<and>
   (set opts = set opts' \<longrightarrow> new_renderer opts = new_renderer opts')"
  by (auto simp: new_renderer_def Let_def render_options_fold)

text \<open>Rendering to a writer agrees with rendering bytes, and the scanner's \<open>render\<close> is the one of bytes without the error.\<close>

theorem render_agrees:
  "(case render_bytes conv md src of
      Inl e \<Rightarrow> \<exists>w. render_to conv md (Some old) src = (Some e, w)
    | Inr data \<Rightarrow> render_to conv md (Some old) src = (None, Some (old @ data))) \<and>
   (sc_convert lib = (\<lambda>s. case conv md s of (Some e, out) \<Rightarrow> None | (None, out) \<Rightarrow> Some out) \<longrightarrow>
      render lib src = (case render_bytes conv md src of Inl e \<Rightarrow> None | Inr data \<Rightarrow> Some data))"
  by (auto simp: render_bytes_def render_to_def render_def split: sum.splits prod.splits option.splits)

end
