(* ===== verification/Config.thy ===== *)
theory Config
  imports Webhook
begin

text \<open>
  The configuration of \<open>internal/config\<close> (\<open>config.go\<close> and the validation of \<open>loader.go\<close>): the
  sections as records, the defaults, redaction for logs and every check of \<open>Validate\<close>, in
  the order of the code. Durations are nanoseconds. \<open>url.Parse\<close> (scheme and host of a URL),
  \<open>time.ParseDuration\<close> and the address parsers are the fields of \<open>cfg_lib\<close>. Of a
  \<open>FieldError\<close> the model keeps the field and the message.
\<close>

subsection \<open>Sections\<close>

record site_config =
  si_title :: string
  si_description :: string
  si_base_url :: string
  si_language :: string
  si_author_name :: string
  si_author_email :: string
  si_homepage :: string
  si_twitter :: string

record content_config =
  co_posts_dir :: string
  co_pages_dir :: string
  co_media_dir :: string
  co_posts_per_page :: int
  co_date_format :: string
  co_summary_length :: int

record theme_config =
  th_name :: string
  th_path :: string

record server_config =
  sv_port :: int
  sv_ops_port :: int
  sv_metrics_port :: int
  sv_private_health :: bool
  sv_read_timeout :: int
  sv_write_timeout :: int
  sv_idle_timeout :: int
  sv_tls_terminated :: bool
  sv_hsts_max_age :: int
  sv_trusted_proxy_cidrs :: "string list"

record cache_config =
  cc_enabled :: bool
  cc_ttl :: int
  cc_max_entries :: int

record sync_config =
  sy_strategy :: string
  sy_repo :: string
  sy_branch :: string
  sy_clone_depth :: int
  sy_poll_interval :: string
  sy_sparse_dirs :: "string list"
  sy_webhook :: webhook_config

record feed_config =
  fe_enabled :: bool
  fe_type :: string
  fe_items :: int

record search_config =
  se_enabled :: bool
  se_max_results :: int
  se_max_query_length :: int
  se_min_query_length :: int
  se_max_query_terms :: int
  se_excerpt_length :: int
  se_max_docs :: int
  se_max_tokens :: int
  se_max_index_bytes :: int

record config =
  cg_site :: site_config
  cg_content :: content_config
  cg_theme :: theme_config
  cg_server :: server_config
  cg_cache :: cache_config
  cg_sync :: sync_config
  cg_feed :: feed_config
  cg_search :: search_config

definition effective_ops_port :: "server_config \<Rightarrow> int" where
  "effective_ops_port s = (if sv_ops_port s \<noteq> 0 then sv_ops_port s else sv_metrics_port s)"

definition second :: int where
  "second = 10 ^ 9"

definition default_config :: config where
  "default_config =
     \<lparr>cg_site = \<lparr>si_title = ''My Blog'', si_description = ''A blog powered by BlogFlow'',
        si_base_url = ''http://localhost:8080'', si_language = ''en'', si_author_name = '''',
        si_author_email = '''', si_homepage = ''post_list'', si_twitter = ''''\<rparr>,
      cg_content = \<lparr>co_posts_dir = ''posts'', co_pages_dir = ''pages'', co_media_dir = ''media'',
        co_posts_per_page = 10, co_date_format = ''January 2, 2006'', co_summary_length = 200\<rparr>,
      cg_theme = \<lparr>th_name = ''default'', th_path = ''''\<rparr>,
      cg_server = \<lparr>sv_port = 8080, sv_ops_port = 0, sv_metrics_port = 0, sv_private_health = False,
        sv_read_timeout = 5 * second, sv_write_timeout = 10 * second, sv_idle_timeout = 120 * second,
        sv_tls_terminated = False, sv_hsts_max_age = 63072000, sv_trusted_proxy_cidrs = []\<rparr>,
      cg_cache = \<lparr>cc_enabled = True, cc_ttl = 3600 * second, cc_max_entries = 1000\<rparr>,
      cg_sync = \<lparr>sy_strategy = ''watch'', sy_repo = '''', sy_branch = ''main'', sy_clone_depth = 1,
        sy_poll_interval = '''', sy_sparse_dirs = [],
        sy_webhook = \<lparr>wc_path = ''/api/webhook'', wc_secret = '''', wc_allowed_events = [''push''],
          wc_allowed_ips = [], wc_branch_filter = ''main'', wc_rate_limit = 10, wc_max_body = 0\<rparr>\<rparr>,
      cg_feed = \<lparr>fe_enabled = True, fe_type = ''atom'', fe_items = 20\<rparr>,
      cg_search = \<lparr>se_enabled = False, se_max_results = 20, se_max_query_length = 128,
        se_min_query_length = 2, se_max_query_terms = 32, se_excerpt_length = 200,
        se_max_docs = 10000, se_max_tokens = 2000000, se_max_index_bytes = 67108864\<rparr>\<rparr>"

subsection \<open>Logging\<close>

definition redact_webhook :: "webhook_config \<Rightarrow> webhook_config" where
  "redact_webhook w = (if wc_secret w \<noteq> '''' then w\<lparr>wc_secret := ''[REDACTED]''\<rparr> else w)"

definition redact_config :: "config \<Rightarrow> config" where
  "redact_config c =
     (if wc_secret (sy_webhook (cg_sync c)) \<noteq> ''''
      then c\<lparr>cg_sync := (cg_sync c)\<lparr>sy_webhook := (sy_webhook (cg_sync c))\<lparr>wc_secret := ''[REDACTED]''\<rparr>\<rparr>\<rparr>
      else c)"

subsection \<open>Validation\<close>

record 'ip cfg_lib = "'ip net_lib" +
  cl_url :: "string \<Rightarrow> (string \<times> string) option"
  cl_duration :: "string \<Rightarrow> int option"

type_synonym field_error = "string \<times> string"

definition check :: "bool \<Rightarrow> string \<Rightarrow> string \<Rightarrow> field_error list" where
  "check bad field msg = (if bad then [(field, msg)] else [])"

definition outside :: "int \<Rightarrow> int \<Rightarrow> int \<Rightarrow> bool" where
  "outside lo hi x \<longleftrightarrow> x < lo \<or> hi < x"

definition validate_server_ports :: "server_config \<Rightarrow> field_error list" where
  "validate_server_ports s =
     (let ops = effective_ops_port s;
          ops_field = (if sv_ops_port s = 0 \<and> sv_metrics_port s \<noteq> 0
                       then ''server.metrics_port'' else ''server.ops_port'') in
      check (outside 1 65535 (sv_port s)) ''server.port'' ''must be between 1 and 65535'' @
      (if ops \<noteq> 0
       then check (outside 1 65535 ops) ops_field ''must be between 1 and 65535'' @
            check (ops = sv_port s) ops_field ''must be different from server.port''
       else []) @
      check (sv_ops_port s \<noteq> 0 \<and> sv_metrics_port s \<noteq> 0 \<and> sv_ops_port s \<noteq> sv_metrics_port s)
        ''server.metrics_port'' ''conflicts with server.ops_port'' @
      check (sv_private_health s \<and> ops = 0) ''server.private_health'' ''requires server.ops_port'' @
      check (sv_read_timeout s \<le> 0) ''server.read_timeout'' ''must be greater than 0'' @
      check (sv_write_timeout s \<le> 0) ''server.write_timeout'' ''must be greater than 0'' @
      check (sv_idle_timeout s \<le> 0) ''server.idle_timeout'' ''must be greater than 0'')"

definition validate_base_url :: "('ip, 'x) cfg_lib_scheme \<Rightarrow> site_config \<Rightarrow> field_error list" where
  "validate_base_url lib s =
     check (case cl_url lib (si_base_url s) of
              None \<Rightarrow> True
            | Some (scheme, host) \<Rightarrow> (scheme \<noteq> ''http'' \<and> scheme \<noteq> ''https'') \<or> host = '''')
       ''site.base_url'' ''must be a valid URL with http or https scheme and a non-empty host''"

definition validate_homepage :: "site_config \<Rightarrow> field_error list" where
  "validate_homepage s =
     (let hp = si_homepage s in
      if hp \<noteq> '''' \<and> hp \<noteq> ''post_list'' then
        (if has_prefix hp ''page:'' \<and> trim_prefix hp ''page:'' \<noteq> '''' then []
         else if has_prefix hp ''static:'' then
           (let sp = trim_prefix hp ''static:'' in
            if sp = '''' then [(''site.homepage'', ''static: requires a non-empty file path'')]
            else if \<not> valid_path sp then [(''site.homepage'', ''static path must be a clean, relative path'')]
            else [])
         else [(''site.homepage'', ''must be post_list, page:<slug>, or static:<path>'')])
      else [])"

definition validate_dir :: "string \<Rightarrow> string \<Rightarrow> field_error list" where
  "validate_dir field d =
     check (is_abs d) field ''must be a relative path (no leading /)'' @
     check (contains d ''..'') field ''must not contain .. (path traversal)''"

definition validate_content :: "content_config \<Rightarrow> field_error list" where
  "validate_content c =
     concat (map (\<lambda>(f, d). validate_dir f d)
       [(''content.posts_dir'', co_posts_dir c), (''content.pages_dir'', co_pages_dir c),
        (''content.media_dir'', co_media_dir c)]) @
     check (outside 1 100 (co_posts_per_page c)) ''content.posts_per_page'' ''must be between 1 and 100'' @
     check (co_date_format c = '''') ''content.date_format'' ''must not be empty'' @
     check (outside 50 1000 (co_summary_length c)) ''content.summary_length'' ''must be between 50 and 1000''"

definition validate_theme :: "theme_config \<Rightarrow> field_error list" where
  "validate_theme t = (if th_path t \<noteq> '''' then validate_dir ''theme.path'' (th_path t) else [])"

definition validate_cache :: "cache_config \<Rightarrow> field_error list" where
  "validate_cache c =
     check (outside 0 100000 (cc_max_entries c)) ''cache.max_entries'' ''must be between 0 and 100000'' @
     (if cc_enabled c
      then check (cc_ttl c \<le> 0 \<or> 24 * 3600 * second < cc_ttl c) ''cache.ttl''
             ''must be > 0 and <= 24h when cache is enabled''
      else [])"

definition valid_strategies :: "string list" where
  "valid_strategies = [''watch'', ''webhook'', ''sidecar'', ''poll'']"

definition valid_feed_types :: "string list" where
  "valid_feed_types = [''atom'', ''rss'']"

definition valid_allowed_events :: "string list" where
  "valid_allowed_events = [''push'', ''ping'', ''pull_request'', ''release'', ''workflow_dispatch'']"

definition validate_sync :: "('ip, 'x) cfg_lib_scheme \<Rightarrow> sync_config \<Rightarrow> field_error list" where
  "validate_sync lib s =
     check (sy_strategy s \<notin> set valid_strategies) ''sync.strategy''
       ''must be one of: watch, webhook, sidecar, poll'' @
     (if sy_poll_interval s \<noteq> '''' then
        (case cl_duration lib (sy_poll_interval s) of
           None \<Rightarrow> [(''sync.poll_interval'', ''must be a valid Go duration'')]
         | Some d \<Rightarrow> check (d < 30 * second) ''sync.poll_interval'' ''must be >= 30s'')
      else []) @
     check (sy_strategy s = ''poll'' \<and> sy_poll_interval s = '''') ''sync.poll_interval''
       ''must be set when strategy is poll'' @
     check (sy_clone_depth s < 1) ''sync.clone_depth'' ''must be >= 1''"

definition validate_cidr_or_ip :: "('ip, 'x) cfg_lib_scheme \<Rightarrow> string \<Rightarrow> string option" where
  "validate_cidr_or_ip lib s0 =
     (let s = trim_space s0 in
      if s = '''' then Some ''must not be empty''
      else if nl_parse_cidr lib s \<noteq> None then None
      else if nl_parse_ip lib s \<noteq> None then None
      else Some ''invalid IP or CIDR'')"

definition validate_ip_list :: "('ip, 'x) cfg_lib_scheme \<Rightarrow> string \<Rightarrow> string list \<Rightarrow> field_error list" where
  "validate_ip_list lib field ips =
     concat (map (\<lambda>(j, ip). case validate_cidr_or_ip lib ip of
                None \<Rightarrow> []
              | Some msg \<Rightarrow> [(field @ ''['' @ itoa (int j) @ '']'', msg)])
       (List.enumerate 0 ips))"

definition max_allowed_body_size :: int where
  "max_allowed_body_size = 10 * 2 ^ 20"

definition validate_webhook :: "('ip, 'x) cfg_lib_scheme \<Rightarrow> webhook_config \<Rightarrow> field_error list" where
  "validate_webhook lib w =
     check (length (wc_secret w) < 32) ''sync.webhook.secret'' ''must be >= 32 bytes (256 bits)'' @
     check (wc_allowed_events w = []) ''sync.webhook.allowed_events''
       ''must not be empty when strategy is webhook'' @
     concat (map (\<lambda>ev. check (ev \<notin> set valid_allowed_events) ''sync.webhook.allowed_events'' ''unknown event'')
       (wc_allowed_events w)) @
     check (\<not> has_prefix (wc_path w) ''/'') ''sync.webhook.path'' ''must start with /'' @
     check (outside 1 100 (wc_rate_limit w)) ''sync.webhook.rate_limit'' ''must be between 1 and 100'' @
     check (outside 0 max_allowed_body_size (wc_max_body w)) ''sync.webhook.max_body_size''
       ''must be between 0 (default 1 MB) and 10485760 (10 MB)'' @
     validate_ip_list lib ''sync.webhook.allowed_ips'' (wc_allowed_ips w)"

definition validate_proxies :: "('ip, 'x) cfg_lib_scheme \<Rightarrow> server_config \<Rightarrow> field_error list" where
  "validate_proxies lib s =
     check (outside 0 63072000 (sv_hsts_max_age s)) ''server.hsts_max_age''
       ''must be between 0 and 63072000 (2 years)'' @
     validate_ip_list lib ''server.trusted_proxy_cidrs'' (sv_trusted_proxy_cidrs s)"

definition validate_feed :: "feed_config \<Rightarrow> field_error list" where
  "validate_feed f =
     (if fe_enabled f
      then check (fe_type f \<notin> set valid_feed_types) ''feed.type'' ''must be one of: atom, rss'' @
           check (outside 1 100 (fe_items f)) ''feed.items'' ''must be between 1 and 100''
      else [])"

definition min_search_index_bytes :: int where
  "min_search_index_bytes = 2 ^ 20"

definition validate_search :: "search_config \<Rightarrow> field_error list" where
  "validate_search s =
     check (outside 1 100 (se_max_results s)) ''search.max_results'' ''must be between 1 and 100'' @
     check (outside 1 16 (se_min_query_length s)) ''search.min_query_length'' ''must be between 1 and 16'' @
     check (outside 8 1024 (se_max_query_length s)) ''search.max_query_length'' ''must be between 8 and 1024'' @
     check (se_max_query_length s < se_min_query_length s) ''search.max_query_length''
       ''must be >= search.min_query_length'' @
     check (outside 1 128 (se_max_query_terms s)) ''search.max_query_terms'' ''must be between 1 and 128'' @
     check (outside 50 1000 (se_excerpt_length s)) ''search.excerpt_length'' ''must be between 50 and 1000'' @
     check (outside 1 1000000 (se_max_docs s)) ''search.max_docs'' ''must be between 1 and 1000000'' @
     check (se_max_tokens s < 1) ''search.max_tokens'' ''must be >= 1'' @
     check (se_max_index_bytes s < min_search_index_bytes) ''search.max_index_bytes''
       ''must be >= 1048576 (1 MiB)''"

definition validate :: "('ip, 'x) cfg_lib_scheme \<Rightarrow> config \<Rightarrow> field_error list" where
  "validate lib c =
     validate_server_ports (cg_server c) @
     validate_base_url lib (cg_site c) @ validate_homepage (cg_site c) @
     validate_content (cg_content c) @ validate_theme (cg_theme c) @
     validate_cache (cg_cache c) @ validate_sync lib (cg_sync c) @
     (if sy_strategy (cg_sync c) = ''webhook'' then validate_webhook lib (sy_webhook (cg_sync c)) else []) @
     validate_proxies lib (cg_server c) @
     validate_feed (cg_feed c) @ validate_search (cg_search c)"

subsection \<open>What a valid configuration guarantees\<close>

lemma check_Nil [simp]: "check b f m = [] \<longleftrightarrow> \<not> b"
  by (simp add: check_def)

lemma validate_ip_list_Nil:
  "validate_ip_list lib f ips = [] \<longleftrightarrow> (\<forall>ip \<in> set ips. validate_cidr_or_ip lib ip = None)"
proof -
  have "(\<forall>x \<in> set (List.enumerate k ips). Q (snd x)) \<longleftrightarrow> (\<forall>ip \<in> set ips. Q ip)" for k and Q :: "string \<Rightarrow> bool"
    by (induction ips arbitrary: k) auto
  from this [of 0 "\<lambda>ip. validate_cidr_or_ip lib ip = None"] show ?thesis
    by (auto simp: validate_ip_list_def split: option.splits)
qed

lemma valid_cidr_resolves:
  "validate_cidr_or_ip lib c = None \<Longrightarrow>
     nl_parse_cidr lib (trim_space c) \<noteq> None \<or> nl_parse_ip lib (trim_space c) \<noteq> None"
  by (auto simp: validate_cidr_or_ip_def Let_def split: if_splits)

lemma new_client_ip_resolver_ok:
  "\<forall>c \<in> set cs. nl_parse_cidr lib (trim_space c) \<noteq> None \<or> nl_parse_ip lib (trim_space c) \<noteq> None \<Longrightarrow>
     is_ok (new_client_ip_resolver lib cs)"
  by (induction cs) (auto simp: Let_def is_ok_def split: option.splits sum.splits)

lemma valid_resolver:
  assumes "validate lib c = []"
  shows "is_ok (new_client_ip_resolver (net_lib.truncate lib) (sv_trusted_proxy_cidrs (cg_server c)))"
proof -
  have "validate_proxies lib (cg_server c) = []" using assms by (auto simp: validate_def)
  then have "\<forall>x \<in> set (sv_trusted_proxy_cidrs (cg_server c)). validate_cidr_or_ip lib x = None"
    by (simp add: validate_proxies_def validate_ip_list_Nil)
  then show ?thesis
    using valid_cidr_resolves by (intro new_client_ip_resolver_ok) (force simp: net_lib.truncate_def)
qed

text \<open>
  A configuration that validates lets everything that depends on it be built: the
  trusted-proxy list resolves entry by entry; with the webhook strategy the webhook is
  constructed, both of its budgets exist, no entry of its address list is skipped and no body
  above ten megabytes is read; the content directories are relative and without a parent
  reference.
\<close>

theorem valid_config_usable:
  assumes "validate lib c = []"
  shows "is_ok (new_client_ip_resolver (net_lib.truncate lib) (sv_trusted_proxy_cidrs (cg_server c))) \<and>
    (\<forall>d \<in> {co_posts_dir (cg_content c), co_pages_dir (cg_content c), co_media_dir (cg_content c)}.
       \<not> is_abs d \<and> \<not> contains d ''..'') \<and>
    (sy_strategy (cg_sync c) = ''webhook'' \<longrightarrow>
      (let w = sy_webhook (cg_sync c) in
       body_limit w \<le> 10 * 2 ^ 20 \<and>
       (\<forall>ip \<in> set (wc_allowed_ips w).
          nl_parse_cidr lib (trim_space ip) \<noteq> None \<or> nl_parse_ip lib (trim_space ip) \<noteq> None) \<and>
       (\<forall>nets. \<exists>ws s. new_webhook w (Some nets) = Ok (ws, s) \<and>
          wh_failures s \<noteq> None \<and> wh_verified s \<noteq> None)))"
proof -
  have v: "validate_content (cg_content c) = []"
    "sy_strategy (cg_sync c) = ''webhook'' \<Longrightarrow> validate_webhook lib (sy_webhook (cg_sync c)) = []"
    using assms by (auto simp: validate_def)
  note valid_resolver [OF assms]
  moreover have "\<forall>d \<in> {co_posts_dir (cg_content c), co_pages_dir (cg_content c), co_media_dir (cg_content c)}.
       \<not> is_abs d \<and> \<not> contains d ''..''"
    using v(1) by (simp add: validate_content_def validate_dir_def)
  moreover have "let w = sy_webhook (cg_sync c) in
       body_limit w \<le> 10 * 2 ^ 20 \<and>
       (\<forall>ip \<in> set (wc_allowed_ips w).
          nl_parse_cidr lib (trim_space ip) \<noteq> None \<or> nl_parse_ip lib (trim_space ip) \<noteq> None) \<and>
       (\<forall>nets. \<exists>ws s. new_webhook w (Some nets) = Ok (ws, s) \<and>
          wh_failures s \<noteq> None \<and> wh_verified s \<noteq> None)"
    if s: "sy_strategy (cg_sync c) = ''webhook''"
  proof -
    define w where "w = sy_webhook (cg_sync c)"
    have ips: "\<forall>ip \<in> set (wc_allowed_ips w). validate_cidr_or_ip lib ip = None"
      and w: "\<not> length (wc_secret w) < 32" "has_prefix (wc_path w) ''/''" "1 \<le> wc_rate_limit w"
      "wc_max_body w \<le> 10 * 2 ^ 20"
      using v(2) [OF s] unfolding w_def
      by (simp_all add: validate_webhook_def validate_ip_list_Nil outside_def max_allowed_body_size_def)
    have "wc_path w \<noteq> ''''" "hd (wc_path w) = sl" using w(2) by (auto simp: has_prefix_iff)
    moreover have "wc_secret w \<noteq> ''''" using w(1) by auto
    ultimately have "\<forall>nets. \<exists>ws s. new_webhook w (Some nets) = Ok (ws, s) \<and>
        wh_failures s \<noteq> None \<and> wh_verified s \<noteq> None"
      using w by (simp add: new_webhook_def new_rate_limiter_def)
    moreover have "body_limit w \<le> 10 * 2 ^ 20" using w(4) by (simp add: body_limit_def)
    ultimately show ?thesis
      using ips valid_cidr_resolves unfolding Let_def w_def [symmetric] by blast
  qed
  ultimately show ?thesis by blast
qed

definition demo_cfg_lib :: "string cfg_lib" where
  "demo_cfg_lib = net_lib.extend demo_net
     \<lparr>cl_url = (\<lambda>u. Some (''http'', u)), cl_duration = (\<lambda>d. None)\<rparr>"

lemma default_valid: "cl_url lib ''http://localhost:8080'' = Some (''http'', ''localhost:8080'') \<Longrightarrow>
    validate lib default_config = []"
proof -
  assume u: "cl_url lib ''http://localhost:8080'' = Some (''http'', ''localhost:8080'')"
  have d: "\<not> contains ''posts'' ''..''" "\<not> contains ''pages'' ''..''" "\<not> contains ''media'' ''..''"
    "\<not> is_abs ''posts''" "\<not> is_abs ''pages''" "\<not> is_abs ''media''" by code_simp+
  show ?thesis
    by (simp add: validate_def default_config_def validate_server_ports_def validate_base_url_def
        validate_homepage_def validate_content_def validate_dir_def validate_theme_def
        validate_cache_def validate_sync_def validate_proxies_def validate_feed_def
        validate_search_def validate_ip_list_def outside_def effective_ops_port_def second_def
        valid_strategies_def valid_feed_types_def min_search_index_bytes_def Let_def check_def u d)
qed

theorem valid_config_usable_witness:
  "\<exists>lib :: string cfg_lib. validate lib default_config = [] \<and>
     is_ok (new_client_ip_resolver (net_lib.truncate lib) (sv_trusted_proxy_cidrs (cg_server default_config)))"
proof -
  have "validate (demo_cfg_lib\<lparr>cl_url := (\<lambda>u. Some (''http'', ''localhost:8080''))\<rparr>) default_config = []"
    by (rule default_valid) simp
  from valid_config_usable [OF this] this show ?thesis by blast
qed

text \<open>
  A configuration that is logged does not disclose the webhook secret: two
  configurations that differ only in which non-empty secret they hold are logged alike.
\<close>

theorem redaction_hides_secret:
  assumes "s \<noteq> ''''" and "t \<noteq> ''''"
  defines "with_secret \<equiv> \<lambda>c k. c\<lparr>cg_sync := (cg_sync c)\<lparr>sy_webhook := (sy_webhook (cg_sync c))\<lparr>wc_secret := k\<rparr>\<rparr>\<rparr>"
  shows "redact_config (with_secret c s) = redact_config (with_secret c t) \<and>
    redact_webhook (w\<lparr>wc_secret := s\<rparr>) = redact_webhook (w\<lparr>wc_secret := t\<rparr>)"
  using assms by (simp add: redact_config_def redact_webhook_def)

theorem redaction_hides_secret_witness:
  "redact_webhook ((sy_webhook (cg_sync default_config))\<lparr>wc_secret := ''a''\<rparr>) = redact_webhook ((sy_webhook (cg_sync default_config))\<lparr>wc_secret := ''b''\<rparr>)"
  using redaction_hides_secret [of "''a''" "''b''"] by simp

end
