(* ===== verification/Env_File.thy ===== *)
theory Env_File
  imports Layer_FS
begin

text \<open>
  Secrets from the environment (\<open>internal/envfile/envfile.go\<close>) and the git credentials built
  from them (\<open>internal/gitops/auth.go\<close>). The operating system is a value: its environment and
  its files, of which the code asks mode, size and contents. Log lines are left out.
\<close>

subsection \<open>The operating system\<close>

record os_stat =
  st_regular :: bool
  st_perm :: nat
  st_size :: int

text \<open>An open file: what \<open>Stat\<close> reports, and the bytes a read yields, unless it fails.\<close>

record os_file =
  of_stat :: "os_stat option"
  of_bytes :: "string option"

record os =
  os_env :: "string \<Rightarrow> string option"
  os_open :: "string \<Rightarrow> os_file option"

text \<open>\<open>os.Getenv\<close> and \<open>os.Stat\<close>.\<close>

definition getenv :: "os \<Rightarrow> string \<Rightarrow> string" where
  "getenv os key = (case os_env os key of None \<Rightarrow> '''' | Some v \<Rightarrow> v)"

definition os_stat_path :: "os \<Rightarrow> string \<Rightarrow> os_stat option" where
  "os_stat_path os path = (case os_open os path of None \<Rightarrow> None | Some f \<Rightarrow> of_stat f)"

subsection \<open>Secrets\<close>

datatype secret_error =
    SecretOpen string | SecretStat string | SecretNotRegular | SecretTooLarge int | SecretRead string

definition max_secret_size :: int where
  "max_secret_size = 2 ^ 20"

definition read_secret_file :: "os \<Rightarrow> string \<Rightarrow> (secret_error, string) result" where
  "read_secret_file os path =
     (case os_open os path of
        None \<Rightarrow> Err (SecretOpen path)
      | Some f \<Rightarrow>
          (case of_stat f of
             None \<Rightarrow> Err (SecretStat path)
           | Some fi \<Rightarrow>
               (if \<not> st_regular fi then Err SecretNotRegular
                else if max_secret_size < st_size fi then Err (SecretTooLarge (st_size fi))
                else (case of_bytes f of
                   None \<Rightarrow> Err (SecretRead path)
                 | Some bytes \<Rightarrow>
                     (let data = take (nat (max_secret_size + 1)) bytes in
                      if max_secret_size < int (length data) then Err (SecretTooLarge (int (length data)))
                      else Ok data)))))"

text \<open>\<open>ReadEnvOrFile\<close>: its \<open>(value, false, nil)\<close> is \<open>Ok None\<close>.\<close>

definition read_env_or_file :: "os \<Rightarrow> string \<Rightarrow> (secret_error, string option) result" where
  "read_env_or_file os key =
     (let file_path = os_env os (key @ ''_FILE''); plain = os_env os key in
      if file_path \<noteq> None \<and> the file_path \<noteq> '''' then
        (case read_secret_file os (the file_path) of
           Inl e \<Rightarrow> Err e
         | Inr val \<Rightarrow> Ok (Some (trim_space val)))
      else if plain \<noteq> None \<and> the plain \<noteq> '''' then Ok plain
      else Ok None)"

subsection \<open>Git credentials\<close>

datatype auth_method = AuthNone | AuthSSH | AuthToken

definition auth_method_string :: "auth_method \<Rightarrow> string" where
  "auth_method_string m = (case m of AuthSSH \<Rightarrow> ''ssh'' | AuthToken \<Rightarrow> ''token'' | AuthNone \<Rightarrow> ''none'')"

record auth_config =
  au_method :: auth_method
  au_ssh_key_path :: string
  au_token :: string

definition auth_string :: "auth_config \<Rightarrow> string" where
  "auth_string a =
     (case au_method a of
        AuthSSH \<Rightarrow> ''AuthConfig{Method:ssh, SSHKeyPath:'' @ au_ssh_key_path a @ ''}''
      | AuthToken \<Rightarrow> ''AuthConfig{Method:token, Token:[REDACTED]}''
      | AuthNone \<Rightarrow> ''AuthConfig{Method:none}'')"

text \<open>The attributes of the log group.\<close>

definition auth_log_value :: "auth_config \<Rightarrow> (string \<times> string) list" where
  "auth_log_value a =
     (case au_method a of
        AuthSSH \<Rightarrow> [(''method'', ''ssh''), (''ssh_key_path'', au_ssh_key_path a)]
      | AuthToken \<Rightarrow> [(''method'', ''token''), (''token'', ''[REDACTED]'')]
      | AuthNone \<Rightarrow> [(''method'', ''none'')])"

datatype auth_error =
    EmptyKeyPath | KeyNotAccessible string | UnsafePermissions string nat | EmptyToken
  | ReadingToken secret_error

text \<open>\<open>perm & 0o077\<close>: any bit for group or others.\<close>

definition group_or_other :: "nat \<Rightarrow> bool" where
  "group_or_other perm \<longleftrightarrow> perm mod 64 \<noteq> 0"

definition auth_validate :: "os \<Rightarrow> auth_config \<Rightarrow> auth_error option" where
  "auth_validate os a =
     (case au_method a of
        AuthSSH \<Rightarrow>
          (if au_ssh_key_path a = '''' then Some EmptyKeyPath
           else (case os_stat_path os (au_ssh_key_path a) of
              None \<Rightarrow> Some (KeyNotAccessible (au_ssh_key_path a))
            | Some info \<Rightarrow>
                (if group_or_other (st_perm info)
                 then Some (UnsafePermissions (au_ssh_key_path a) (st_perm info)) else None)))
      | AuthToken \<Rightarrow> (if au_token a = '''' then Some EmptyToken else None)
      | AuthNone \<Rightarrow> None)"

definition load_auth_from_env :: "os \<Rightarrow> (auth_error, auth_config) result" where
  "load_auth_from_env os =
     (let key_path = getenv os ''BLOGFLOW_GIT_SSH_KEY'' in
      if key_path \<noteq> '''' then
        (let cfg = \<lparr>au_method = AuthSSH, au_ssh_key_path = key_path, au_token = ''''\<rparr> in
         case auth_validate os cfg of Some e \<Rightarrow> Err e | None \<Rightarrow> Ok cfg)
      else (case read_env_or_file os ''BLOGFLOW_GIT_TOKEN'' of
         Inl e \<Rightarrow> Err (ReadingToken e)
       | Inr None \<Rightarrow> Ok \<lparr>au_method = AuthNone, au_ssh_key_path = '''', au_token = ''''\<rparr>
       | Inr (Some token) \<Rightarrow>
           (if token \<noteq> '''' then
              (let cfg = \<lparr>au_method = AuthToken, au_ssh_key_path = '''', au_token = token\<rparr> in
               case auth_validate os cfg of Some e \<Rightarrow> Err e | None \<Rightarrow> Ok cfg)
            else Ok \<lparr>au_method = AuthNone, au_ssh_key_path = '''', au_token = ''''\<rparr>)))"

subsection \<open>Facts\<close>

lemma read_secret_file_Ok:
  assumes "read_secret_file os path = Ok s"
  obtains f fi where "os_open os path = Some f" and "of_stat f = Some fi" and "st_regular fi"
    and "of_bytes f = Some s" and "int (length s) \<le> max_secret_size"
proof -
  have take_all: "take (nat (max_secret_size + 1)) b = b"
    if "\<not> max_secret_size < int (length (take (nat (max_secret_size + 1)) b))" for b :: string
    using that by (simp add: max_secret_size_def min_def split: if_splits)
  from assms show thesis
    by (auto simp: read_secret_file_def Let_def take_all not_less intro: that
        split: option.splits if_splits)
qed

lemma read_env_or_file_not_set:
  "read_env_or_file os key = Ok None \<longleftrightarrow>
     getenv os (key @ ''_FILE'') = '''' \<and> getenv os key = ''''"
  by (auto simp: read_env_or_file_def Let_def getenv_def split: option.splits sum.splits)

lemma read_env_or_file_set:
  "read_env_or_file os key = Ok (Some v) \<Longrightarrow>
     (v = getenv os key \<and> v \<noteq> '''' \<and> getenv os (key @ ''_FILE'') = '''') \<or>
     (\<exists>s. read_secret_file os (getenv os (key @ ''_FILE'')) = Ok s \<and> v = trim_space s)"
  by (auto simp: read_env_or_file_def Let_def getenv_def split: option.splits sum.splits if_splits)

lemma load_auth_anonymous:
  "load_auth_from_env os = Ok a \<Longrightarrow> au_method a = AuthNone \<Longrightarrow>
     getenv os ''BLOGFLOW_GIT_SSH_KEY'' = '''' \<and>
     (read_env_or_file os ''BLOGFLOW_GIT_TOKEN'' = Ok None \<or>
      read_env_or_file os ''BLOGFLOW_GIT_TOKEN'' = Ok (Some ''''))"
  by (auto simp: load_auth_from_env_def Let_def split: option.splits sum.splits if_splits)

lemma blank_secret:
  "read_env_or_file os key = Ok (Some '''') \<Longrightarrow>
     \<exists>s. read_secret_file os (getenv os (key @ ''_FILE'')) = Ok s \<and> trim_space s = ''''"
  using read_env_or_file_set [of os key "''''"] by auto

text \<open>
  C34. Git credentials from the environment are usable or refused: the credentials returned
  pass their own check, a configured SSH key is always the one used and nobody else may read
  it, and anonymous access is chosen only when neither a key nor a token is configured, or
  when the token file is blank (which the code does not report as an error).
\<close>

theorem git_auth_sound:
  assumes "load_auth_from_env os = Ok a"
  shows "auth_validate os a = None \<and>
    (getenv os ''BLOGFLOW_GIT_SSH_KEY'' \<noteq> '''' \<longrightarrow>
       au_method a = AuthSSH \<and> au_ssh_key_path a = getenv os ''BLOGFLOW_GIT_SSH_KEY'' \<and>
       (\<exists>info. os_stat_path os (au_ssh_key_path a) = Some info \<and> st_perm info mod 64 = 0)) \<and>
    (au_method a = AuthNone \<longrightarrow>
       getenv os ''BLOGFLOW_GIT_SSH_KEY'' = '''' \<and>
       ((getenv os ''BLOGFLOW_GIT_TOKEN_FILE'' = '''' \<and> getenv os ''BLOGFLOW_GIT_TOKEN'' = '''') \<or>
        (\<exists>s. read_secret_file os (getenv os ''BLOGFLOW_GIT_TOKEN_FILE'') = Ok s \<and> trim_space s = '''')))"
proof (intro conjI impI)
  show "auth_validate os a = None"
    using assms by (auto simp: load_auth_from_env_def Let_def auth_validate_def
        split: option.splits sum.splits if_splits)
  assume "getenv os ''BLOGFLOW_GIT_SSH_KEY'' \<noteq> ''''"
  then show "au_method a = AuthSSH" "au_ssh_key_path a = getenv os ''BLOGFLOW_GIT_SSH_KEY''"
    "\<exists>info. os_stat_path os (au_ssh_key_path a) = Some info \<and> st_perm info mod 64 = 0"
    using assms by (auto simp: load_auth_from_env_def Let_def auth_validate_def group_or_other_def
        split: option.splits if_splits)
next
  assume n: "au_method a = AuthNone"
  from load_auth_anonymous [OF assms n] show "getenv os ''BLOGFLOW_GIT_SSH_KEY'' = ''''" ..
  from load_auth_anonymous [OF assms n] read_env_or_file_not_set [of os "''BLOGFLOW_GIT_TOKEN''"]
    blank_secret [of os "''BLOGFLOW_GIT_TOKEN''"]
  show "(getenv os ''BLOGFLOW_GIT_TOKEN_FILE'' = '''' \<and> getenv os ''BLOGFLOW_GIT_TOKEN'' = '''') \<or>
        (\<exists>s. read_secret_file os (getenv os ''BLOGFLOW_GIT_TOKEN_FILE'') = Ok s \<and> trim_space s = '''')"
    by auto
qed

definition demo_os :: os where
  "demo_os = \<lparr>os_env = [''BLOGFLOW_GIT_TOKEN_FILE'' \<mapsto> ''/run/token''],
     os_open = [''/run/token'' \<mapsto>
       \<lparr>of_stat = Some \<lparr>st_regular = True, st_perm = 0x180, st_size = 1\<rparr>, of_bytes = Some ''t''\<rparr>]\<rparr>"

theorem git_auth_sound_witness:
  "load_auth_from_env demo_os = Ok \<lparr>au_method = AuthToken, au_ssh_key_path = '''', au_token = ''t''\<rparr> \<and>
   auth_validate demo_os \<lparr>au_method = AuthToken, au_ssh_key_path = '''', au_token = ''t''\<rparr> = None"
proof -
  have l: "load_auth_from_env demo_os = Ok \<lparr>au_method = AuthToken, au_ssh_key_path = '''', au_token = ''t''\<rparr>"
  proof -
    have t: "trim_space ''t'' = ''t''" by code_simp
    show ?thesis
      by (simp add: load_auth_from_env_def getenv_def read_env_or_file_def read_secret_file_def
          demo_os_def max_secret_size_def auth_validate_def t Let_def)
  qed
  from git_auth_sound [OF l] l show ?thesis by simp
qed

end
