(* ===== verification/Secret_Scan.thy ===== *)
theory Secret_Scan
  imports Layer_FS
begin

text \<open>
  The screening of the configuration file before it is parsed (\<open>internal/config/loader.go\<close>):
  the secret patterns with the part of \<open>regexp\<close> they use, and the scan for YAML anchors and
  aliases.
\<close>

subsection \<open>Regular expressions\<close>

text \<open>
  A matcher of one rune gives the number of bytes it consumes, 0 for no match. A pattern is a
  sequence of single runes, repetitions (\<open>*\<close>) and alternatives; matching a pattern at the
  start of a string gives everything that can be left of it.
\<close>

type_synonym rune_class = "string \<Rightarrow> nat"

datatype atom = One rune_class | Many rune_class | Alts "atom list list"

function many_rests :: "rune_class \<Rightarrow> string \<Rightarrow> string list" where
  "many_rests f s =
     s # (if s = [] \<or> f s = 0 then [] else many_rests f (drop (f s) s))"
  by pat_completeness auto
termination
  by (relation "measure (\<lambda>(f, s). length s)") (auto simp: diff_less)

declare many_rests.simps [simp del]

fun atom_rests :: "atom \<Rightarrow> string \<Rightarrow> string list"
  and seq_rests :: "atom list \<Rightarrow> string \<Rightarrow> string list"
  and alt_rests :: "atom list list \<Rightarrow> string \<Rightarrow> string list" where
  "atom_rests (One f) s = (if s = [] \<or> f s = 0 then [] else [drop (f s) s])"
| "atom_rests (Many f) s = many_rests f s"
| "atom_rests (Alts alts) s = alt_rests alts s"
| "seq_rests [] s = [s]"
| "seq_rests (a # rest) s = concat (map (seq_rests rest) (atom_rests a s))"
| "alt_rests [] s = []"
| "alt_rests (alt # alts) s = seq_rests alt s @ alt_rests alts s"

text \<open>\<open>Match\<close> of a pattern that may start anywhere, and of one that starts with \<open>(?m)^\<close>.\<close>

fun matches :: "atom list \<Rightarrow> string \<Rightarrow> bool" where
  "matches p [] = (seq_rests p [] \<noteq> [])"
| "matches p (c # s) = (seq_rests p (c # s) \<noteq> [] \<or> matches p s)"

fun matches_lines :: "bool \<Rightarrow> atom list \<Rightarrow> string \<Rightarrow> bool" where
  "matches_lines bol p [] = (bol \<and> seq_rests p [] \<noteq> [])"
| "matches_lines bol p (c # s) =
     ((bol \<and> seq_rests p (c # s) \<noteq> []) \<or> matches_lines (c = CHR 0x0A) p s)"

subsection \<open>Rune classes\<close>

definition ascii :: "(char \<Rightarrow> bool) \<Rightarrow> rune_class" where
  "ascii P s = (case s of [] \<Rightarrow> 0 | c # _ \<Rightarrow> if P c then 1 else 0)"

definition lit :: "string \<Rightarrow> atom list" where
  "lit = map (\<lambda>c. One (ascii (\<lambda>d. d = c)))"

definition alnum :: "char \<Rightarrow> bool" where
  "alnum c \<longleftrightarrow> is_alpha_char c \<or> is_digit_char c"

definition upper_or_digit :: "char \<Rightarrow> bool" where
  "upper_or_digit c \<longleftrightarrow> (65 \<le> byte c \<and> byte c \<le> 90) \<or> is_digit_char c"

definition is_word_char :: "char \<Rightarrow> bool" where
  "is_word_char c \<longleftrightarrow> is_alpha_char c \<or> is_digit_char c \<or> c = CHR ''_''"

definition re_space :: "char \<Rightarrow> bool" where
  "re_space c \<longleftrightarrow> byte c \<in> {9, 10, 12, 13, 32}"

definition any_but :: "(char \<Rightarrow> bool) \<Rightarrow> rune_class" where
  "any_but P s = (case s of [] \<Rightarrow> 0 | c # _ \<Rightarrow> if P c then 0 else snd (decode_rune s))"

text \<open>
  Case folding (\<open>(?i)\<close>): besides the two cases of an ASCII letter, U+017F folds to \<open>s\<close> and
  U+212A to \<open>k\<close>.
\<close>

definition long_s :: string where "long_s = [char_of (0xC5 :: nat), char_of (0xBF :: nat)]"
definition kelvin :: string where
  "kelvin = [char_of (0xE2 :: nat), char_of (0x84 :: nat), char_of (0xAA :: nat)]"

definition fold_class :: "(char \<Rightarrow> bool) \<Rightarrow> rune_class" where
  "fold_class P s =
     (case s of
        [] \<Rightarrow> 0
      | c # _ \<Rightarrow>
          (if P (to_lower_char c) then 1
           else if P (CHR ''s'') \<and> has_prefix s long_s then 2
           else if P (CHR ''k'') \<and> has_prefix s kelvin then 3
           else 0))"

definition lit_i :: "string \<Rightarrow> atom list" where
  "lit_i = map (\<lambda>c. One (fold_class (\<lambda>d. d = c)))"

subsection \<open>The patterns\<close>

definition token_patterns :: "(atom list \<times> string) list" where
  "token_patterns =
    [(lit ''ghp_'' @ replicate 36 (One (ascii alnum)), ''GitHub personal access token (ghp_)''),
     (lit ''gho_'' @ [One (ascii alnum)], ''GitHub OAuth token (gho_)''),
     (lit ''ghu_'' @ [One (ascii alnum)], ''GitHub user-to-server token (ghu_)''),
     (lit ''ghs_'' @ [One (ascii alnum)], ''GitHub server-to-server token (ghs_)''),
     (lit ''ghr_'' @ [One (ascii alnum)], ''GitHub refresh token (ghr_)''),
     (lit ''github_pat_'' @ [One (ascii alnum)], ''GitHub fine-grained PAT (github_pat_)''),
     (lit ''glpat-'' @ [One (ascii alnum)], ''GitLab token (glpat-)''),
     (lit ''xoxb-'' @ [One (ascii alnum)], ''Slack bot token (xoxb-)''),
     (lit ''xoxp-'' @ [One (ascii alnum)], ''Slack user token (xoxp-)''),
     (lit ''sk-'' @ replicate 20 (One (ascii alnum)) @ [Many (ascii alnum)], ''API key (sk-)''),
     (lit ''-----BEGIN'' @ [Many (any_but (\<lambda>c. c = CHR 0x0A))] @ lit ''PRIVATE KEY-----'', ''private key''),
     (lit ''AKIA'' @ replicate 16 (One (ascii upper_or_digit)), ''AWS access key''),
     (lit ''${BLOGFLOW_'' @ [One (ascii is_word_char), Many (ascii is_word_char)] @ lit ''}'',
      ''env var placeholder in YAML (use env vars directly)''),
     (lit ''dsn://'', ''DSN connection string (dsn://)''),
     (lit ''postgres://'', ''PostgreSQL connection string (postgres://)''),
     (lit ''mysql://'', ''MySQL connection string (mysql://)''),
     (lit ''redis://'', ''Redis connection string (redis://)'')]"

definition sensitive_words :: "string list" where
  "sensitive_words = [''password'', ''secret'', ''token'', ''credential'', ''apikey'', ''api_key'']"

definition key_pattern :: "atom list" where
  "key_pattern =
     [Many (ascii re_space), Many (fold_class is_word_char), Alts (map lit_i sensitive_words),
      Many (fold_class is_word_char), Many (ascii re_space), One (ascii (\<lambda>c. c = CHR '':'')),
      Many (ascii re_space), One (any_but re_space)]"

fun first_match :: "(atom list \<times> string) list \<Rightarrow> string \<Rightarrow> string option" where
  "first_match [] data = None"
| "first_match ((p, desc) # ps) data = (if matches p data then Some desc else first_match ps data)"

definition scan_for_secrets :: "string \<Rightarrow> string option" where
  "scan_for_secrets data =
     (case first_match token_patterns data of
        Some desc \<Rightarrow> Some desc
      | None \<Rightarrow>
          (if matches_lines True key_pattern data then Some ''sensitive YAML key with inline value''
           else None))"

subsection \<open>Anchors and aliases\<close>

text \<open>
  The walk over one trimmed line: \<open>prev\<close> is the character before the rest, if any; the result
  is the first bare \<open>&\<close> or \<open>*\<close> that starts an anchor or alias.
\<close>

definition prev_ok :: "char option \<Rightarrow> bool" where
  "prev_ok prev \<longleftrightarrow> prev \<in> {None, Some CHR '' '', Some CHR 0x09, Some CHR '':''}"

definition next_ok :: "string \<Rightarrow> bool" where
  "next_ok rest \<longleftrightarrow> (case rest of [] \<Rightarrow> False | c # _ \<Rightarrow> is_word_char c)"

fun scan_line :: "bool \<Rightarrow> bool \<Rightarrow> char option \<Rightarrow> string \<Rightarrow> char option" where
  "scan_line in_single in_double prev [] = None"
| "scan_line in_single in_double prev (ch # rest) =
     (if ch = CHR 0x27 \<and> \<not> in_double then scan_line (\<not> in_single) in_double (Some ch) rest
      else if ch = CHR 0x22 \<and> \<not> in_single then scan_line in_single (\<not> in_double) (Some ch) rest
      else if (ch = CHR ''&'' \<or> ch = CHR ''*'') \<and> \<not> in_single \<and> \<not> in_double \<and>
              prev_ok prev \<and> next_ok rest
      then Some ch
      else scan_line in_single in_double (Some ch) rest)"

fun scan_yaml_lines :: "string list \<Rightarrow> char option" where
  "scan_yaml_lines [] = None"
| "scan_yaml_lines (line # lines) =
     (let stripped = trim_space line in
      if stripped = '''' \<or> hd stripped = CHR ''#'' then scan_yaml_lines lines
      else case scan_line False False None stripped of
             Some ch \<Rightarrow> Some ch
           | None \<Rightarrow> scan_yaml_lines lines)"

definition scan_for_anchors_aliases :: "string \<Rightarrow> char option" where
  "scan_for_anchors_aliases data = scan_yaml_lines (split_on (CHR 0x0A) data)"

subsection \<open>Matching\<close>

text \<open>\<open>consumes p w s\<close>: on \<open>w @ s\<close> the pattern can match exactly \<open>w\<close>.\<close>

definition consumes :: "atom list \<Rightarrow> string \<Rightarrow> string \<Rightarrow> bool" where
  "consumes p w s \<longleftrightarrow> s \<in> set (seq_rests p (w @ s))"

lemma seq_rests_append:
  "set (seq_rests (p @ q) s) = (\<Union>u \<in> set (seq_rests p s). set (seq_rests q u))"
  by (induction p arbitrary: s) auto

lemma consumes_append:
  assumes "consumes p w (v @ s)" and "consumes q v s"
  shows "consumes (p @ q) (w @ v) s"
  using assms by (auto simp: consumes_def seq_rests_append)

lemma consumes_Cons:
  assumes "v @ s \<in> set (atom_rests a (w @ v @ s))" and "consumes q v s"
  shows "consumes (a # q) (w @ v) s"
  using assms by (auto simp: consumes_def)

lemma consumes_Nil [simp]: "consumes [] [] s"
  by (simp add: consumes_def)

lemma consumes_lit: "consumes (lit t) t s"
proof (induction t)
  case Nil
  then show ?case by (simp add: lit_def)
next
  case (Cons c t)
  have "consumes (One (ascii (\<lambda>d. d = c)) # lit t) ([c] @ t) s"
    by (rule consumes_Cons [OF _ Cons]) (simp add: ascii_def)
  then show ?case by (simp add: lit_def)
qed

lemma consumes_replicate:
  "list_all P w \<Longrightarrow> consumes (replicate (length w) (One (ascii P))) w s"
proof (induction w)
  case (Cons c w)
  have "consumes (One (ascii P) # replicate (length w) (One (ascii P))) ([c] @ w) s"
    by (rule consumes_Cons) (use Cons in \<open>auto simp: ascii_def [of P "c # _"]\<close>)
  then show ?case by simp
qed simp

lemma many_rests_self: "s \<in> set (many_rests f s)"
  by (subst many_rests.simps) simp

lemma many_rests_step:
  "s \<noteq> [] \<Longrightarrow> f s \<noteq> 0 \<Longrightarrow> t \<in> set (many_rests f (drop (f s) s)) \<Longrightarrow> t \<in> set (many_rests f s)"
  by (subst many_rests.simps) simp

lemma many_rests_skip:
  assumes "w \<noteq> []" and "f (w @ s) = length w" and "t \<in> set (many_rests f s)"
  shows "t \<in> set (many_rests f (w @ s))"
  by (rule many_rests_step) (use assms in simp_all)

lemma many_ascii: "list_all P w \<Longrightarrow> s \<in> set (many_rests (ascii P) (w @ s))"
proof (induction w)
  case (Cons c w)
  have "ascii P ([c] @ (w @ s)) = length [c]" using Cons.prems by (simp add: ascii_def)
  from many_rests_skip [of "[c]" "ascii P" "w @ s" s, OF _ this] Cons show ?case by simp
qed (simp add: many_rests_self)

lemma byte_to_lower: "byte (to_lower_char c) = (if 65 \<le> byte c \<and> byte c \<le> 90 then byte c + 32 else byte c)"
  by (simp add: to_lower_char_def)

lemma word_char_lower: "is_word_char c \<Longrightarrow> is_word_char (to_lower_char c)"
proof -
  assume w: "is_word_char c"
  show ?thesis
  proof (cases "65 \<le> byte c \<and> byte c \<le> 90")
    case True
    then have "is_alpha_char (to_lower_char c)" by (simp add: is_alpha_char_def byte_to_lower)
    then show ?thesis by (simp add: is_word_char_def)
    next
    case False
    then have "to_lower_char c = c" unfolding to_lower_char_def by (rule if_not_P)
    with w show ?thesis by simp
  qed
qed

lemma many_word_i: "list_all is_word_char w \<Longrightarrow> s \<in> set (many_rests (fold_class is_word_char) (w @ s))"
proof (induction w)
  case (Cons c w)
  have "fold_class is_word_char ([c] @ (w @ s)) = length [c]"
    using Cons.prems by (simp add: fold_class_def word_char_lower)
  from many_rests_skip [of "[c]" "fold_class is_word_char" "w @ s" s, OF _ this] Cons show ?case by simp
qed (simp add: many_rests_self)

lemma dec_cont:
  "dec2 a b = Some (r, n) \<Longrightarrow> n = 2 \<and> 0x80 \<le> b"
  "dec3 a b c = Some (r, n) \<Longrightarrow> n = 3 \<and> 0x80 \<le> b \<and> 0x80 \<le> c"
  "dec4 a b c d = Some (r, n) \<Longrightarrow> n = 4 \<and> 0x80 \<le> b \<and> 0x80 \<le> c \<and> 0x80 \<le> d"
  by (auto simp: dec2_def dec3_def dec4_def cont_def split: if_splits)

lemma or_else_Some: "or_else x y = Some v \<Longrightarrow> x = Some v \<or> y = Some v"
  by (cases x) (auto simp: or_else_def)

lemma below_4: "(1::nat) \<le> i \<Longrightarrow> i < 4 \<Longrightarrow> i = 1 \<or> i = 2 \<or> i = 3"
  by auto

lemma decode_multi_cont4:
  assumes "decode_multi (a # b # c # d # t) = Some (r, n)" and "1 \<le> i" and "i < n"
  shows "0x80 \<le> byte ((a # b # c # d # t) ! i)"
proof -
  consider "dec2 (byte a) (byte b) = Some (r, n)" | "dec3 (byte a) (byte b) (byte c) = Some (r, n)"
    | "dec4 (byte a) (byte b) (byte c) (byte d) = Some (r, n)"
    using assms(1) by (auto dest!: or_else_Some simp del: of_char_of)
  then show ?thesis
  proof cases
    case 1
    with assms dec_cont(1) [OF 1] have "i = 1" by simp
    with dec_cont(1) [OF 1] show ?thesis by simp
  next
    case 2
    with assms dec_cont(2) [OF 2] have "i = 1 \<or> i = 2" by auto
    with dec_cont(2) [OF 2] show ?thesis by auto
  next
    case 3
    with assms dec_cont(3) [OF 3] below_4 [of i] have "i = 1 \<or> i = 2 \<or> i = 3" by simp
    with dec_cont(3) [OF 3] show ?thesis by auto
  qed
qed

lemma decode_multi_cont3:
  assumes "decode_multi [a, b, c] = Some (r, n)" and "1 \<le> i" and "i < n"
  shows "0x80 \<le> byte ([a, b, c] ! i)"
proof -
  consider "dec2 (byte a) (byte b) = Some (r, n)" | "dec3 (byte a) (byte b) (byte c) = Some (r, n)"
    using assms(1) by (auto dest!: or_else_Some)
  then show ?thesis
  proof cases
    case 1
    with assms dec_cont(1) [OF 1] have "i = 1" by simp
    with dec_cont(1) [OF 1] show ?thesis by simp
  next
    case 2
    with assms dec_cont(2) [OF 2] have "i = 1 \<or> i = 2" by auto
    with dec_cont(2) [OF 2] show ?thesis by auto
  qed
qed

lemma decode_multi_cont:
  assumes "decode_multi s = Some (r, n)" and "1 \<le> i" and "i < n"
  shows "0x80 \<le> byte (s ! i)"
proof (cases s rule: decode_multi.cases)
  case (1 a b c d t)
  with decode_multi_cont4 [of a b c d t r n i] assms show ?thesis by simp
next
  case (2 a b c)
  with decode_multi_cont3 [of a b c r n i] assms show ?thesis by simp
next
  case (3 a b)
  with assms have "dec2 (byte a) (byte b) = Some (r, n)" by simp
  from dec_cont(1) [OF this] assms(2,3) have "i = 1" "0x80 \<le> byte b" by auto
  then show ?thesis using 3 by simp
qed (use assms in auto)

lemma decode_rune_within:
  assumes "x \<noteq> []" and "byte c < 0x80"
  shows "snd (decode_rune (x @ c # y)) \<le> length x"
proof -
  obtain d z where x: "x = d # z" using assms(1) by (cases x) auto
  show ?thesis
  proof (cases "decode_multi (x @ c # y)")
    case (Some rn)
    obtain r n where rn: "rn = (r, n)" by (cases rn)
    have "\<not> length x < n"
      using decode_multi_cont [of "x @ c # y" r n "length x"] Some rn assms x by auto
    then show ?thesis using Some rn x by (auto split: if_splits)
  qed (use x in \<open>auto\<close>)
qed

lemma many_any_but:
  assumes "byte c < 0x80" and "list_all (\<lambda>d. \<not> P d) x"
  shows "c # y \<in> set (many_rests (any_but P) (x @ c # y))"
  using assms(2)
proof (induction "length x" arbitrary: x rule: less_induct)
  case less
  show ?case
  proof (cases x)
    case (Cons d z)
    let ?n = "snd (decode_rune (x @ c # y))"
    have n: "1 \<le> ?n" "?n \<le> length x"
      using decode_rune_width [of "x @ c # y"] decode_rune_within [of x c y] Cons assms(1) by auto
    have f: "any_but P (x @ c # y) = ?n" using Cons less.prems by (simp add: any_but_def)
    have "c # y \<in> set (many_rests (any_but P) (drop ?n x @ c # y))"
    proof (rule less.hyps)
      show "length (drop ?n x) < length x" using n by simp
      show "list_all (\<lambda>d. \<not> P d) (drop ?n x)"
        using less.prems by (meson in_set_dropD list_all_iff)
    qed
    moreover have "any_but P (take ?n x @ (drop ?n x @ c # y)) = length (take ?n x)"
      using f n by (simp flip: append_assoc)
    moreover have "take ?n x \<noteq> []" using n by auto
    ultimately have "c # y \<in> set (many_rests (any_but P) (take ?n x @ (drop ?n x @ c # y)))"
      using many_rests_skip [of "take ?n x" "any_but P" "drop ?n x @ c # y" "c # y"] by blast
    then show ?thesis by (simp flip: append_assoc)
  qed (simp add: many_rests_self)
qed

lemma matches_at: "consumes p w s \<Longrightarrow> matches p (pre @ w @ s)"
proof (induction pre)
  case Nil
  then have "seq_rests p (w @ s) \<noteq> []" by (auto simp: consumes_def)
  then show ?case by (cases "w @ s") auto
qed simp

lemma matches_lines_at:
  assumes "consumes p w s" and "pre = [] \<and> bol \<or> pre \<noteq> [] \<and> last pre = CHR 0x0A"
  shows "matches_lines bol p (pre @ w @ s)"
  using assms(2)
proof (induction pre arbitrary: bol)
  case Nil
  then have "seq_rests p (w @ s) \<noteq> []" using assms(1) by (auto simp: consumes_def)
  with Nil show ?case by (cases "w @ s") auto
next
  case (Cons c pre)
  then show ?case by (cases pre) auto
qed

lemma first_match_hit:
  "(p, desc) \<in> set ps \<Longrightarrow> matches p data \<Longrightarrow> first_match ps data \<noteq> None"
  by (induction ps) auto

lemma scan_token_hit:
  assumes "p \<in> fst ` set token_patterns" and "consumes p w s"
  shows "scan_for_secrets (pre @ w @ s) \<noteq> None"
proof -
  from assms(1) obtain desc where "(p, desc) \<in> set token_patterns" by auto
  from first_match_hit [OF this matches_at [OF assms(2)], of pre] show ?thesis
    by (auto simp: scan_for_secrets_def)
qed

lemmas pattern_simps =
  token_patterns_def list.set image_insert image_empty fst_conv insert_iff simp_thms

subsection \<open>What is always refused\<close>

text \<open>A text that discloses a secret, wherever it stands in the file.\<close>

inductive secret_text :: "string \<Rightarrow> bool" where
  connection: "t \<in> {''dsn://'', ''postgres://'', ''mysql://'', ''redis://''} \<Longrightarrow> secret_text t"
| token: "t \<in> {''gho_'', ''ghu_'', ''ghs_'', ''ghr_'', ''github_pat_'', ''glpat-'', ''xoxb-'', ''xoxp-''} \<Longrightarrow>
    alnum c \<Longrightarrow> secret_text (t @ [c])"
| personal: "list_all alnum w \<Longrightarrow> length w = 36 \<Longrightarrow> secret_text (''ghp_'' @ w)"
| api_key: "list_all alnum w \<Longrightarrow> length w = 20 \<Longrightarrow> secret_text (''sk-'' @ w)"
| aws_key: "list_all upper_or_digit w \<Longrightarrow> length w = 16 \<Longrightarrow> secret_text (''AKIA'' @ w)"
| private_key: "CHR 0x0A \<notin> set x \<Longrightarrow> secret_text (''-----BEGIN'' @ x @ ''PRIVATE KEY-----'')"
| placeholder: "list_all is_word_char w \<Longrightarrow> w \<noteq> '''' \<Longrightarrow> secret_text (''${BLOGFLOW_'' @ w @ ''}'')"

text \<open>A line that gives a sensitive key a value.\<close>

definition sensitive_line :: "string \<Rightarrow> bool" where
  "sensitive_line l \<longleftrightarrow>
     (\<exists>indent a w b sp1 sp2 c rest.
        l = indent @ a @ w @ b @ sp1 @ '':'' @ sp2 @ c # rest \<and>
        list_all re_space indent \<and> list_all is_word_char a \<and>
        map to_lower_char w \<in> set sensitive_words \<and> list_all is_word_char b \<and>
        list_all re_space sp1 \<and> list_all re_space sp2 \<and> \<not> re_space c)"

lemma consumes_lit_then:
  assumes "consumes q v s"
  shows "consumes (lit t @ q) (t @ v) s"
  by (rule consumes_append [OF consumes_lit assms])

lemma consumes_one: "P c \<Longrightarrow> consumes [One (ascii P)] [c] s"
  using consumes_replicate [of P "[c]" s] by simp

lemma consumes_runs:
  assumes "list_all P w" and "length w = n"
  shows "consumes (replicate n (One (ascii P))) w s"
  using consumes_replicate [OF assms(1)] assms(2) by simp

lemma secret_text_found: "secret_text t \<Longrightarrow> scan_for_secrets (pre @ t @ post) \<noteq> None"
proof (induction t rule: secret_text.induct)
  case (connection t)
  then have "lit t \<in> fst ` set token_patterns"
    by (elim insertE emptyE; hypsubst) (simp_all only: pattern_simps)
  then show ?case by (rule scan_token_hit) (rule consumes_lit)
next
  case (token t c)
  from token(1) have "lit t @ [One (ascii alnum)] \<in> fst ` set token_patterns"
    by (elim insertE emptyE; hypsubst) (simp_all only: pattern_simps)
  from scan_token_hit [OF this consumes_lit_then [OF consumes_one [of alnum c]]] token(2)
  show ?case by simp
next
  case (personal w)
  show ?case
    by (rule scan_token_hit [OF _ consumes_lit_then [OF consumes_runs [OF personal]]])
      (simp only: pattern_simps)
next
  case (api_key w)
  have "consumes [Many (ascii alnum)] [] post"
    by (simp add: consumes_def many_rests_self)
  from consumes_append [OF consumes_runs [OF api_key, of "[] @ post"] this]
  have "consumes (lit ''sk-'' @ replicate 20 (One (ascii alnum)) @ [Many (ascii alnum)]) (''sk-'' @ w @ []) post"
    by (rule consumes_lit_then)
  from scan_token_hit [OF _ this] show ?case unfolding pattern_simps by simp
next
  case (aws_key w)
  show ?case
    by (rule scan_token_hit [OF _ consumes_lit_then [OF consumes_runs [OF aws_key]]])
      (simp only: pattern_simps)
next
  case (private_key x)
  have "consumes (Many (any_but (\<lambda>c. c = CHR 0x0A)) # lit ''PRIVATE KEY-----'') (x @ ''PRIVATE KEY-----'') post"
    using private_key
    by (intro consumes_Cons consumes_lit) (auto simp: list_all_iff intro!: many_any_but)
  from scan_token_hit [OF _ consumes_lit_then [OF this], of "''-----BEGIN''"]
  show ?case unfolding pattern_simps by simp
next
  case (placeholder w)
  then obtain c v where w: "w = c # v" "is_word_char c" "list_all is_word_char v" by (cases w) auto
  have "consumes (Many (ascii is_word_char) # lit ''}'') (v @ ''}'') post"
    by (intro consumes_Cons consumes_lit) (simp add: many_ascii w)
  from consumes_append [OF consumes_one [of is_word_char c, OF w(2)] this]
  have "consumes ([One (ascii is_word_char), Many (ascii is_word_char)] @ lit ''}'') (w @ ''}'') post"
    by (simp add: w)
  from scan_token_hit [OF _ consumes_lit_then [OF this], of "''${BLOGFLOW_''"]
  show ?case unfolding pattern_simps by simp
qed

lemma consumes_word_i:
  "map to_lower_char w = t \<Longrightarrow> consumes (lit_i t) w s"
proof (induction w arbitrary: t)
  case Nil
  then show ?case by (simp add: lit_i_def)
next
  case (Cons c w)
  let ?f = "fold_class (\<lambda>d. d = to_lower_char c)"
  have "consumes (One ?f # lit_i (map to_lower_char w)) ([c] @ w) s"
    by (rule consumes_Cons [OF _ Cons.IH]) (simp_all add: fold_class_def)
  with Cons.prems show ?case by (auto simp: lit_i_def)
qed

lemma alt_rests_mem: "alt \<in> set alts \<Longrightarrow> u \<in> set (seq_rests alt s) \<Longrightarrow> u \<in> set (alt_rests alts s)"
  by (induction alts) auto

lemma consumes_alts:
  assumes "map to_lower_char w \<in> set sensitive_words" and "consumes q v s"
  shows "consumes (Alts (map lit_i sensitive_words) # q) (w @ v) s"
proof (rule consumes_Cons [OF _ assms(2)])
  have "v @ s \<in> set (seq_rests (lit_i (map to_lower_char w)) (w @ v @ s))"
    using consumes_word_i [OF refl, of w "v @ s"] by (simp add: consumes_def)
  then show "v @ s \<in> set (atom_rests (Alts (map lit_i sensitive_words)) (w @ v @ s))"
    using assms(1) alt_rests_mem [of "lit_i (map to_lower_char w)" "map lit_i sensitive_words"] by simp
qed

lemma consumes_many:
  assumes "\<And>s. s \<in> set (many_rests f (w @ s))" and "consumes q v s"
  shows "consumes (Many f # q) (w @ v) s"
  by (rule consumes_Cons) (use assms in simp_all)

lemma consumes_class: "f (w @ s) = length w \<Longrightarrow> w \<noteq> [] \<Longrightarrow> consumes [One f] w s"
  by (simp add: consumes_def)

lemma consumes_key_pattern:
  assumes "list_all re_space indent" and "list_all is_word_char a"
    and "map to_lower_char w \<in> set sensitive_words" and "list_all is_word_char b"
    and "list_all re_space sp1" and "list_all re_space sp2" and "\<not> re_space c"
  shows "\<exists>v s. c # rest = v @ s \<and>
    consumes key_pattern (indent @ a @ w @ b @ sp1 @ '':'' @ sp2 @ v) s"
proof -
  let ?n = "snd (decode_rune (c # rest))"
  have n: "1 \<le> ?n" "?n \<le> length (c # rest)" using decode_rune_width [of "c # rest"] by auto
  define v s where "v = take ?n (c # rest)" and "s = drop ?n (c # rest)"
  have cr: "v @ s = c # rest" by (simp add: v_def s_def)
  have "any_but re_space (c # rest) = ?n" using assms(7) by (simp add: any_but_def)
  also have "?n = length v" using n by (simp add: v_def)
  finally have "any_but re_space (v @ s) = length v" by (simp only: cr)
  moreover have "v \<noteq> []" using n(1) by (auto simp: v_def)
  ultimately have "consumes [One (any_but re_space)] v s" by (rule consumes_class)
  then have last: "consumes [Many (ascii re_space), One (any_but re_space)] (sp2 @ v) s"
    using assms(6) by (intro consumes_many many_ascii)
  have "consumes [One (ascii (\<lambda>c. c = CHR '':'')), Many (ascii re_space), One (any_but re_space)]
      ('':'' @ sp2 @ v) s"
    by (rule consumes_Cons [OF _ last]) (simp add: ascii_def)
  then have "consumes key_pattern (indent @ a @ w @ b @ sp1 @ '':'' @ sp2 @ v) s"
    unfolding key_pattern_def using assms
    by (intro consumes_many consumes_alts many_ascii many_word_i)
  with cr show ?thesis by metis
qed

lemma sensitive_line_found:
  assumes "sensitive_line l" and "pre = '''' \<or> last pre = CHR 0x0A"
  shows "scan_for_secrets (pre @ l) \<noteq> None"
proof -
  from assms(1) obtain indent a w b sp1 sp2 c rest where
    l: "l = indent @ a @ w @ b @ sp1 @ '':'' @ sp2 @ c # rest" and
    parts: "list_all re_space indent" "list_all is_word_char a" "map to_lower_char w \<in> set sensitive_words"
      "list_all is_word_char b" "list_all re_space sp1" "list_all re_space sp2" "\<not> re_space c"
    unfolding sensitive_line_def by blast
  from consumes_key_pattern [OF parts] obtain v s where
    cr: "c # rest = v @ s" and k: "consumes key_pattern (indent @ a @ w @ b @ sp1 @ '':'' @ sp2 @ v) s"
    by blast
  have "pre = [] \<and> True \<or> pre \<noteq> [] \<and> last pre = CHR 0x0A" using assms(2) by auto
  from matches_lines_at [OF k this] have "matches_lines True key_pattern (pre @ l)"
    by (simp add: l cr)
  then show ?thesis by (simp add: scan_for_secrets_def split: option.split)
qed

lemma scan_line_none:
  "CHR ''&'' \<notin> set l \<Longrightarrow> CHR ''*'' \<notin> set l \<Longrightarrow> scan_line qs qd prev l = None"
  by (induction l arbitrary: qs qd prev) auto

lemma scan_yaml_lines_none:
  "\<forall>l \<in> set ls. CHR ''&'' \<notin> set (trim_space l) \<and> CHR ''*'' \<notin> set (trim_space l) \<Longrightarrow>
     scan_yaml_lines ls = None"
  by (induction ls) (auto simp: Let_def scan_line_none split: option.split)

lemma trim_space_subset: "set (trim_space s) \<subseteq> set s"
proof -
  have l: "set (trim_left t) \<subseteq> set t" for t
  proof (induction t rule: trim_left.induct)
    case (1 t)
    then show ?case by (subst trim_left.simps) (auto dest: in_set_dropD)
  qed
  have r: "set (trim_right_rev t) \<subseteq> set t" for t
  proof (induction t rule: trim_right_rev.induct)
    case (1 t)
    then show ?case by (subst trim_right_rev.simps) (auto dest: in_set_dropD)
  qed
  show ?thesis using l [of s] r [of "rev (trim_left s)"] by (auto simp: trim_space_def)
qed

lemma split_on_subset: "l \<in> set (split_on d s) \<Longrightarrow> set l \<subseteq> set s"
proof (induction s arbitrary: l)
  case (Cons c s)
  then show ?case by (cases "split_on d s") (force split: if_splits)+
qed simp

lemma no_marks_accepted:
  assumes "CHR ''&'' \<notin> set data" and "CHR ''*'' \<notin> set data"
  shows "scan_for_anchors_aliases data = None"
  unfolding scan_for_anchors_aliases_def
  by (rule scan_yaml_lines_none) (use assms trim_space_subset split_on_subset in blast)

text \<open>
  A text in which every quote is closed: characters other than quotes, and quoted parts that
  hold no quote of their own kind.
\<close>

inductive outside_quotes :: "string \<Rightarrow> bool" where
  empty: "outside_quotes []"
| char: "outside_quotes a \<Longrightarrow> c \<noteq> CHR 0x27 \<Longrightarrow> c \<noteq> CHR 0x22 \<Longrightarrow> outside_quotes (a @ [c])"
| single: "outside_quotes a \<Longrightarrow> CHR 0x27 \<notin> set q \<Longrightarrow> outside_quotes (a @ CHR 0x27 # q @ [CHR 0x27])"
| double: "outside_quotes a \<Longrightarrow> CHR 0x22 \<notin> set q \<Longrightarrow> outside_quotes (a @ CHR 0x22 # q @ [CHR 0x22])"

text \<open>The quote state of the walk after a text.\<close>

fun quotes :: "bool \<times> bool \<Rightarrow> string \<Rightarrow> bool \<times> bool" where
  "quotes st [] = st"
| "quotes (in_single, in_double) (ch # rest) =
     (if ch = CHR 0x27 \<and> \<not> in_double then quotes (\<not> in_single, in_double) rest
      else if ch = CHR 0x22 \<and> \<not> in_single then quotes (in_single, \<not> in_double) rest
      else quotes (in_single, in_double) rest)"

lemma quotes_append: "quotes st (a @ b) = quotes (quotes st a) b"
  by (induction st a rule: quotes.induct) auto

lemma quotes_inside:
  "CHR 0x27 \<notin> set q \<Longrightarrow> quotes (True, False) q = (True, False)"
  "CHR 0x22 \<notin> set q \<Longrightarrow> quotes (False, True) q = (False, True)"
  by (induction q) auto

lemma quotes_outside: "outside_quotes a \<Longrightarrow> quotes (False, False) a = (False, False)"
  by (induction rule: outside_quotes.induct) (simp_all add: quotes_append quotes_inside)

lemma quotes_cases:
  "(quotes (False, False) a = (False, False) \<and> outside_quotes a) \<or>
   (quotes (False, False) a = (True, False) \<and>
      (\<exists>b q. a = b @ CHR 0x27 # q \<and> outside_quotes b \<and> CHR 0x27 \<notin> set q)) \<or>
   (quotes (False, False) a = (False, True) \<and>
      (\<exists>b q. a = b @ CHR 0x22 # q \<and> outside_quotes b \<and> CHR 0x22 \<notin> set q))"
proof (induction a rule: rev_induct)
  case Nil
  show ?case by (simp add: outside_quotes.empty)
next
  case (snoc c a)
  from snoc consider (out) "quotes (False, False) a = (False, False)" "outside_quotes a"
    | (sq) b q where "quotes (False, False) a = (True, False)" "a = b @ CHR 0x27 # q" "outside_quotes b" "CHR 0x27 \<notin> set q"
    | (dq) b q where "quotes (False, False) a = (False, True)" "a = b @ CHR 0x22 # q" "outside_quotes b" "CHR 0x22 \<notin> set q"
    by blast
  then show ?case
  proof cases
    case out
    consider "c = CHR 0x27" | "c = CHR 0x22" | "c \<noteq> CHR 0x27" "c \<noteq> CHR 0x22" by blast
    then show ?thesis
    proof cases
      case 1
      then show ?thesis using out by (intro disjI2 disjI1 conjI exI [of _ a] exI [of _ "[]"]) (simp_all add: quotes_append)
    next
      case 2
      then show ?thesis using out by (intro disjI2 conjI exI [of _ a] exI [of _ "[]"]) (simp_all add: quotes_append)
    next
      case 3
      then show ?thesis using outside_quotes.char [OF out(2) 3] out(1) by (simp add: quotes_append)
    qed
  next
    case sq
    show ?thesis
    proof (cases "c = CHR 0x27")
      case True
      then have "outside_quotes (a @ [c])" using outside_quotes.single [OF sq(3,4)] sq(2) by simp
      then show ?thesis using quotes_outside by blast
    next
      case False
      then have "a @ [c] = b @ CHR 0x27 # (q @ [c])" "CHR 0x27 \<notin> set (q @ [c])" using sq by auto
      moreover have "quotes (False, False) (a @ [c]) = (True, False)" using sq(1) False by (simp add: quotes_append)
      ultimately show ?thesis using sq(3) by blast
    qed
  next
    case dq
    show ?thesis
    proof (cases "c = CHR 0x22")
      case True
      then have "outside_quotes (a @ [c])" using outside_quotes.double [OF dq(3,4)] dq(2) by simp
      then show ?thesis using quotes_outside by blast
    next
      case False
      then have "a @ [c] = b @ CHR 0x22 # (q @ [c])" "CHR 0x22 \<notin> set (q @ [c])" using dq by auto
      moreover have "quotes (False, False) (a @ [c]) = (False, True)" using dq(1) False by (simp add: quotes_append)
      ultimately show ?thesis using dq(3) by blast
    qed
  qed
qed

lemma quotes_closed_iff: "quotes (False, False) a = (False, False) \<longleftrightarrow> outside_quotes a"
  using quotes_cases [of a] quotes_outside [of a] by auto

text \<open>The first mark the walk reports, from any state.\<close>

definition mark_at :: "bool \<times> bool \<Rightarrow> char option \<Rightarrow> string \<Rightarrow> char \<Rightarrow> string \<Rightarrow> bool" where
  "mark_at st prev a mark rest \<longleftrightarrow>
     mark \<in> {CHR ''&'', CHR ''*''} \<and> quotes st a = (False, False) \<and>
     prev_ok (if a = [] then prev else Some (last a)) \<and> next_ok rest"

lemma mark_at_Cons:
  "mark_at (qs, qd) prev (c # a) mark rest \<longleftrightarrow> mark_at (quotes (qs, qd) [c]) (Some c) a mark rest"
  by (auto simp: mark_at_def)

lemma mark_found_Cons:
  "(\<exists>a m r. c # s = a @ m # r \<and> mark_at (qs, qd) prev a m r) \<longleftrightarrow>
     mark_at (qs, qd) prev [] c s \<or> (\<exists>a m r. s = a @ m # r \<and> mark_at (quotes (qs, qd) [c]) (Some c) a m r)"
    (is "?l \<longleftrightarrow> ?h \<or> ?t")
proof
  assume ?l
  then obtain a m r where e: "c # s = a @ m # r" "mark_at (qs, qd) prev a m r" by blast
  then show "?h \<or> ?t" by (cases a) (auto simp: mark_at_Cons simp del: quotes.simps)
next
  assume "?h \<or> ?t"
  then show ?l
  proof
    assume ?h
    then show ?l by (intro exI [of _ "[]"] exI [of _ c] exI [of _ s]) simp
  next
    assume ?t
    then obtain a m r where "s = a @ m # r" "mark_at (quotes (qs, qd) [c]) (Some c) a m r" by blast
    then show ?l by (intro exI [of _ "c # a"] exI [of _ m] exI [of _ r]) (simp add: mark_at_Cons del: quotes.simps)
  qed
qed

lemma scan_line_iff:
  "scan_line qs qd prev s \<noteq> None \<longleftrightarrow> (\<exists>a m r. s = a @ m # r \<and> mark_at (qs, qd) prev a m r)"
proof (induction s arbitrary: qs qd prev)
  case (Cons c s)
  have h: "mark_at (qs, qd) prev [] c s \<longleftrightarrow>
      (c = CHR ''&'' \<or> c = CHR ''*'') \<and> \<not> qs \<and> \<not> qd \<and> prev_ok prev \<and> next_ok s"
    by (auto simp: mark_at_def)
  show ?case
    unfolding mark_found_Cons h using Cons.IH by (auto simp del: not_None_eq)
qed simp

lemma scan_yaml_lines_iff:
  "scan_yaml_lines ls \<noteq> None \<longleftrightarrow>
     (\<exists>l \<in> set ls. hd (trim_space l) \<noteq> CHR ''#'' \<and> scan_line False False None (trim_space l) \<noteq> None)"
proof (induction ls)
  case (Cons x ls)
  show ?case
  proof (cases "trim_space x = ''''")
    case True
    then show ?thesis using Cons by (simp add: Let_def del: not_None_eq)
  next
    case False
    then show ?thesis
      using Cons by (cases "scan_line False False None (trim_space x)") (auto simp: Let_def simp del: not_None_eq)
  qed
qed simp

lemma anchors_exact:
  "scan_for_anchors_aliases data \<noteq> None \<longleftrightarrow>
     (\<exists>line \<in> set (split_on (CHR 0x0A) data). \<exists>a mark rest.
        trim_space line = a @ mark # rest \<and> mark \<in> {CHR ''&'', CHR ''*''} \<and> hd (trim_space line) \<noteq> CHR ''#'' \<and>
        outside_quotes a \<and> (a = [] \<or> last a \<in> {CHR '' '', CHR 0x09, CHR '':''}) \<and> next_ok rest)"
proof -
  have p: "prev_ok (if a = [] then None else Some (last a)) \<longleftrightarrow> a = [] \<or> last a \<in> {CHR '' '', CHR 0x09, CHR '':''}"
    for a by (auto simp: prev_ok_def)
  show ?thesis
    unfolding scan_for_anchors_aliases_def scan_yaml_lines_iff scan_line_iff mark_at_def quotes_closed_iff p
    by blast
qed

text \<open>
  C24. What the screening of a configuration file refuses. A token, key, private key, placeholder
  or connection string of one of the listed shapes is found wherever it stands in the file; so is
  a line that begins, after blanks, with a key that contains a sensitive word and gives it a
  value. An anchor or alias is reported exactly when on some line that is no
  comment an \<open>&\<close> or \<open>*\<close> stands before a word character and at the start of the line or after a
  blank, a tab or a colon, with every quote before it closed; in particular a file without \<open>&\<close>
  and \<open>*\<close> is not refused for one. A mark after \<open>[\<close> or \<open>,\<close> or after a lone apostrophe passes.
\<close>

theorem config_file_screened:
  "(secret_text t \<longrightarrow> scan_for_secrets (pre @ t @ post) \<noteq> None) \<and>
   (sensitive_line l \<and> (before = '''' \<or> last before = CHR 0x0A) \<longrightarrow>
      scan_for_secrets (before @ l) \<noteq> None) \<and>
   (scan_for_anchors_aliases data \<noteq> None \<longleftrightarrow>
      (\<exists>line \<in> set (split_on (CHR 0x0A) data). \<exists>a mark rest.
         trim_space line = a @ mark # rest \<and> mark \<in> {CHR ''&'', CHR ''*''} \<and> hd (trim_space line) \<noteq> CHR ''#'' \<and>
         outside_quotes a \<and> (a = [] \<or> last a \<in> {CHR '' '', CHR 0x09, CHR '':''}) \<and> next_ok rest)) \<and>
   (CHR ''&'' \<notin> set data \<and> CHR ''*'' \<notin> set data \<longrightarrow> scan_for_anchors_aliases data = None)"
  by (intro conjI impI anchors_exact; (elim conjE)?)
    (simp_all add: secret_text_found sensitive_line_found no_marks_accepted)

theorem config_file_screened_witness:
  "scan_for_secrets (''repo: '' @ ''dsn://'' @ ''db'') \<noteq> None \<and>
   scan_for_secrets (''site:'' @ [CHR 0x0A] @ ''  db_password: x'') \<noteq> None \<and>
   scan_for_anchors_aliases ''a: &x'' \<noteq> None \<and> scan_for_anchors_aliases ''title: a'' = None"
proof -
  have s: "secret_text ''dsn://''" by (rule secret_text.connection) simp
  have k: "sensitive_line ''  db_password: x''"
    unfolding sensitive_line_def
    by (rule exI [of _ "''  ''"], rule exI [of _ "''db_''"], rule exI [of _ "''password''"], rule exI [of _ "''''"],
        rule exI [of _ "''''"], rule exI [of _ "'' ''"], rule exI [of _ "CHR ''x''"], rule exI [of _ "''''"])
       code_simp
  have l: "''a: &x'' \<in> set (split_on (CHR 0x0A) ''a: &x'')" "trim_space ''a: &x'' = ''a: '' @ CHR ''&'' # ''x''"
    "next_ok ''x''" by code_simp+
  have "quotes (False, False) ''a: '' = (False, False)" by code_simp
  then have "outside_quotes ''a: ''" by (rule quotes_closed_iff [THEN iffD1])
  then have a: "\<exists>line \<in> set (split_on (CHR 0x0A) ''a: &x''). \<exists>a mark rest.
      trim_space line = a @ mark # rest \<and> mark \<in> {CHR ''&'', CHR ''*''} \<and> hd (trim_space line) \<noteq> CHR ''#'' \<and>
      outside_quotes a \<and> (a = [] \<or> last a \<in> {CHR '' '', CHR 0x09, CHR '':''}) \<and> next_ok rest"
    using l by (intro bexI [of _ "''a: &x''"] exI [of _ "''a: ''"] exI [of _ "CHR ''&''"] exI [of _ "''x''"]) auto
  note c = config_file_screened
  have 1: "scan_for_secrets (''repo: '' @ ''dsn://'' @ ''db'') \<noteq> None"
    by (rule c [THEN conjunct1, THEN mp, OF s])
  have 2: "scan_for_secrets ((''site:'' @ [CHR 0x0A]) @ ''  db_password: x'') \<noteq> None"
    by (rule c [THEN conjunct2, THEN conjunct1, THEN mp]) (simp add: k)
  have 3: "scan_for_anchors_aliases ''a: &x'' \<noteq> None"
    by (rule c [THEN conjunct2, THEN conjunct2, THEN conjunct1, THEN iffD2, OF a])
  have 4: "scan_for_anchors_aliases ''title: a'' = None"
    by (rule c [THEN conjunct2, THEN conjunct2, THEN conjunct2, THEN mp]) simp
  show ?thesis using 1 2 3 4 by simp
qed

end
