(* ===== verification/Config_Load.thy ===== *)
theory Config_Load
  imports Config Env_File Secret_Scan
begin

text \<open>
  Loading and reloading the configuration (\<open>internal/config/loader.go\<close>, \<open>reload.go\<close>): the
  environment overrides, \<open>Load\<close>, \<open>Reload\<close> with its callbacks. The YAML decoder is a parameter
  \<open>yaml\<close>, which overwrites the fields a document mentions; the order in which Go ranges over
  the map of overrides is a parameter too. Log lines and spans are left out.
\<close>

subsection \<open>Environment overrides\<close>

datatype load_error =
    ReadingFile fs_error
  | ConfigTooLarge nat
  | SecretInYaml string
  | AnchorOrAlias bool        \<comment> \<open>an anchor?\<close>
  | ParsingFile
  | EnvSecret secret_error
  | EnvParse string string    \<comment> \<open>variable, expected kind\<close>
  | Invalid "field_error list"

text \<open>
  A setter fails without touching the configuration or changes it; none reads it, so a setter
  is the function from the value to the change.
\<close>

type_synonym setter = "string \<Rightarrow> (load_error, config \<Rightarrow> config) result"

definition set_with ::
  "string \<Rightarrow> string \<Rightarrow> (string \<Rightarrow> 'a option) \<Rightarrow> ('a \<Rightarrow> config \<Rightarrow> config) \<Rightarrow> string \<times> setter" where
  "set_with name kind decode update =
     (name, \<lambda>v. case decode v of None \<Rightarrow> Err (EnvParse name kind) | Some x \<Rightarrow> Ok (update x))"

definition set_str :: "string \<Rightarrow> (string \<Rightarrow> config \<Rightarrow> config) \<Rightarrow> string \<times> setter" where
  "set_str name = set_with name ''string'' Some"

definition set_int :: "string \<Rightarrow> (int \<Rightarrow> config \<Rightarrow> config) \<Rightarrow> string \<times> setter" where
  "set_int name = set_with name ''int'' atoi"

definition set_bool :: "string \<Rightarrow> (bool \<Rightarrow> config \<Rightarrow> config) \<Rightarrow> string \<times> setter" where
  "set_bool name = set_with name ''bool'' parse_bool"

definition set_duration ::
  "('ip, 'x) cfg_lib_scheme \<Rightarrow> string \<Rightarrow> (int \<Rightarrow> config \<Rightarrow> config) \<Rightarrow> string \<times> setter" where
  "set_duration lib name = set_with name ''duration'' (cl_duration lib)"

text \<open>A comma-separated list: the trimmed, non-empty parts.\<close>

definition comma_list :: "string \<Rightarrow> string list" where
  "comma_list v =
     (if v = '''' then []
      else filter (\<lambda>p. p \<noteq> '''') (map trim_space (split_on (CHR '','') v)))"

definition set_list :: "string \<Rightarrow> (string list \<Rightarrow> config \<Rightarrow> config) \<Rightarrow> string \<times> setter" where
  "set_list name = set_with name ''list'' (\<lambda>v. Some (comma_list v))"

definition env_site_server :: "('ip, 'x) cfg_lib_scheme \<Rightarrow> (string \<times> setter) list" where
  "env_site_server lib =
    [set_str ''BLOGFLOW_SITE_TITLE'' (\<lambda>v. cg_site_update (si_title_update (\<lambda>_. v))),
     set_str ''BLOGFLOW_SITE_DESCRIPTION'' (\<lambda>v. cg_site_update (si_description_update (\<lambda>_. v))),
     set_str ''BLOGFLOW_SITE_BASE_URL'' (\<lambda>v. cg_site_update (si_base_url_update (\<lambda>_. v))),
     set_int ''BLOGFLOW_SERVER_PORT'' (\<lambda>n. cg_server_update (sv_port_update (\<lambda>_. n))),
     set_duration lib ''BLOGFLOW_SERVER_READ_TIMEOUT'' (\<lambda>d. cg_server_update (sv_read_timeout_update (\<lambda>_. d))),
     set_duration lib ''BLOGFLOW_SERVER_WRITE_TIMEOUT'' (\<lambda>d. cg_server_update (sv_write_timeout_update (\<lambda>_. d))),
     set_duration lib ''BLOGFLOW_SERVER_IDLE_TIMEOUT'' (\<lambda>d. cg_server_update (sv_idle_timeout_update (\<lambda>_. d))),
     set_bool ''BLOGFLOW_CACHE_ENABLED'' (\<lambda>b. cg_cache_update (cc_enabled_update (\<lambda>_. b)))]"

definition env_sync :: "(string \<times> setter) list" where
  "env_sync =
    [set_str ''BLOGFLOW_SYNC_STRATEGY'' (\<lambda>v. cg_sync_update (sy_strategy_update (\<lambda>_. v))),
     set_str ''BLOGFLOW_SYNC_REPO'' (\<lambda>v. cg_sync_update (sy_repo_update (\<lambda>_. v))),
     set_str ''BLOGFLOW_SYNC_BRANCH'' (\<lambda>v. cg_sync_update (sy_branch_update (\<lambda>_. v))),
     set_str ''BLOGFLOW_WEBHOOK_SECRET''
       (\<lambda>v. cg_sync_update (sy_webhook_update (wc_secret_update (\<lambda>_. v)))),
     set_int ''BLOGFLOW_SYNC_WEBHOOK_RATE_LIMIT''
       (\<lambda>n. cg_sync_update (sy_webhook_update (wc_rate_limit_update (\<lambda>_. n)))),
     set_list ''BLOGFLOW_SYNC_WEBHOOK_ALLOWED_IPS''
       (\<lambda>ips. cg_sync_update (sy_webhook_update (wc_allowed_ips_update (\<lambda>_. ips)))),
     set_str ''BLOGFLOW_SYNC_POLL_INTERVAL'' (\<lambda>v. cg_sync_update (sy_poll_interval_update (\<lambda>_. v))),
     set_list ''BLOGFLOW_SYNC_SPARSE_DIRS'' (\<lambda>ds. cg_sync_update (sy_sparse_dirs_update (\<lambda>_. ds))),
     set_int ''BLOGFLOW_SYNC_CLONE_DEPTH'' (\<lambda>n. cg_sync_update (sy_clone_depth_update (\<lambda>_. n)))]"

definition env_rest :: "(string \<times> setter) list" where
  "env_rest =
    [set_str ''BLOGFLOW_FEED_TYPE'' (\<lambda>v. cg_feed_update (fe_type_update (\<lambda>_. v))),
     set_bool ''BLOGFLOW_SERVER_TLS_TERMINATED'' (\<lambda>b. cg_server_update (sv_tls_terminated_update (\<lambda>_. b))),
     set_int ''BLOGFLOW_SERVER_HSTS_MAX_AGE'' (\<lambda>n. cg_server_update (sv_hsts_max_age_update (\<lambda>_. n))),
     set_int ''BLOGFLOW_SERVER_OPS_PORT'' (\<lambda>n. cg_server_update (sv_ops_port_update (\<lambda>_. n))),
     set_int ''BLOGFLOW_SERVER_METRICS_PORT'' (\<lambda>n. cg_server_update (sv_metrics_port_update (\<lambda>_. n))),
     set_bool ''BLOGFLOW_SERVER_PRIVATE_HEALTH'' (\<lambda>b. cg_server_update (sv_private_health_update (\<lambda>_. b))),
     set_str ''BLOGFLOW_SITE_HOMEPAGE'' (\<lambda>v. cg_site_update (si_homepage_update (\<lambda>_. v))),
     set_str ''BLOGFLOW_CONTENT_POSTS_DIR'' (\<lambda>v. cg_content_update (co_posts_dir_update (\<lambda>_. v))),
     set_str ''BLOGFLOW_CONTENT_PAGES_DIR'' (\<lambda>v. cg_content_update (co_pages_dir_update (\<lambda>_. v)))]"

definition env_map :: "('ip, 'x) cfg_lib_scheme \<Rightarrow> (string \<times> setter) list" where
  "env_map lib = env_site_server lib @ env_sync @ env_rest"

definition secret_env_vars :: "string list" where
  "secret_env_vars = [''BLOGFLOW_WEBHOOK_SECRET'']"

definition lookup_override :: "os \<Rightarrow> string \<Rightarrow> (load_error, string option) result" where
  "lookup_override os name =
     (if name \<in> set secret_env_vars
      then (case read_env_or_file os name of Inl e \<Rightarrow> Err (EnvSecret e) | Inr v \<Rightarrow> Ok v)
      else Ok (os_env os name))"

text \<open>The loop over the map, in the order Go takes, with the names applied so far.\<close>

fun apply_env_overrides ::
  "os \<Rightarrow> (string \<times> setter) list \<Rightarrow> string list \<Rightarrow> config \<Rightarrow> (load_error, string list \<times> config) result" where
  "apply_env_overrides os [] applied cfg = Ok (applied, cfg)"
| "apply_env_overrides os ((name, setter) # rest) applied cfg =
     (case lookup_override os name of
        Inl e \<Rightarrow> Err e
      | Inr None \<Rightarrow> apply_env_overrides os rest applied cfg
      | Inr (Some v) \<Rightarrow>
          (case setter v of
             Inl e \<Rightarrow> Err e
           | Inr update \<Rightarrow> apply_env_overrides os rest (applied @ [name]) (update cfg)))"

subsection \<open>Loading\<close>

definition max_config_file_size :: nat where
  "max_config_file_size = 2 ^ 20"

text \<open>What one load sees: the filesystem, the operating system, the order of the overrides.\<close>

record world =
  wo_open :: "string \<Rightarrow> (fs_error, fs_file) result"
  wo_os :: os
  wo_order :: "(string \<times> setter) list"

definition read_config_file :: "fs_file \<Rightarrow> (load_error, string) result" where
  "read_config_file f =
     (let data = take (max_config_file_size + 1) (f_bytes f) in
      if length data \<le> max_config_file_size \<and> f_read_err f \<noteq> None
      then Err (ReadingFile (the (f_read_err f)))
      else if max_config_file_size < length data then Err (ConfigTooLarge (length data))
      else Ok data)"

definition parse_config_file ::
  "(string \<Rightarrow> config \<Rightarrow> config option) \<Rightarrow> string \<Rightarrow> config \<Rightarrow> (load_error, config) result" where
  "parse_config_file yaml data cfg =
     (case scan_for_secrets data of
        Some desc \<Rightarrow> Err (SecretInYaml desc)
      | None \<Rightarrow>
          (case scan_for_anchors_aliases data of
             Some ch \<Rightarrow> Err (AnchorOrAlias (ch \<noteq> CHR ''*''))
           | None \<Rightarrow>
               (if trim_space data \<noteq> '''' then
                  (case yaml data cfg of None \<Rightarrow> Err ParsingFile | Some cfg' \<Rightarrow> Ok cfg')
                else Ok cfg)))"

definition load_config ::
  "('ip, 'x) cfg_lib_scheme \<Rightarrow> (string \<Rightarrow> config \<Rightarrow> config option) \<Rightarrow> world \<Rightarrow> (load_error, config) result" where
  "load_config lib yaml w =
     (case (case wo_open w ''site.yaml'' of
              Inl err \<Rightarrow> if is_not_exist err then Ok default_config else Err (ReadingFile err)
            | Inr f \<Rightarrow>
                (case read_config_file f of
                   Inl e \<Rightarrow> Err e
                 | Inr data \<Rightarrow> parse_config_file yaml data default_config)) of
        Inl e \<Rightarrow> Err e
      | Inr cfg \<Rightarrow>
          (case apply_env_overrides (wo_os w) (wo_order w) [] cfg of
             Inl e \<Rightarrow> Err e
           | Inr (applied, cfg') \<Rightarrow>
               (if validate lib cfg' \<noteq> [] then Err (Invalid (validate lib cfg')) else Ok cfg')))"

subsection \<open>The loader\<close>

text \<open>A callback is known by its number; calling it is an event with the configuration.\<close>

record loader =
  ld_current :: config
  ld_callbacks :: "nat list"
  ld_dir :: string

definition new_loader :: "string \<Rightarrow> loader" where
  "new_loader dir = \<lparr>ld_current = default_config, ld_callbacks = [], ld_dir = dir\<rparr>"

definition loader_get :: "loader \<Rightarrow> config" where
  "loader_get l = ld_current l"

definition loader_load ::
  "('ip, 'x) cfg_lib_scheme \<Rightarrow> (string \<Rightarrow> config \<Rightarrow> config option) \<Rightarrow> world \<Rightarrow> loader \<Rightarrow>
   (load_error, config) result \<times> loader" where
  "loader_load lib yaml w l =
     (case load_config lib yaml w of
        Inl e \<Rightarrow> (Err e, l)
      | Inr cfg \<Rightarrow> (Ok cfg, l\<lparr>ld_current := cfg\<rparr>))"

definition on_change :: "nat \<Rightarrow> loader \<Rightarrow> loader" where
  "on_change cb l = l\<lparr>ld_callbacks := ld_callbacks l @ [cb]\<rparr>"

definition fire_callbacks :: "config \<Rightarrow> loader \<Rightarrow> (nat \<times> config) list" where
  "fire_callbacks cfg l = map (\<lambda>cb. (cb, cfg)) (ld_callbacks l)"

definition loader_reload ::
  "('ip, 'x) cfg_lib_scheme \<Rightarrow> (string \<Rightarrow> config \<Rightarrow> config option) \<Rightarrow> world \<Rightarrow> loader \<Rightarrow>
   (load_error, config) result \<times> (nat \<times> config) list \<times> loader" where
  "loader_reload lib yaml w l =
     (case loader_load lib yaml w l of
        (Inl e, l') \<Rightarrow> (Err e, [], l')
      | (Inr cfg, l') \<Rightarrow> (Ok cfg, fire_callbacks cfg l', l'))"


subsection \<open>The order of the overrides does not matter\<close>

definition commute :: "setter \<Rightarrow> setter \<Rightarrow> bool" where
  "commute s t \<longleftrightarrow>
     (\<forall>v w f g. s v = Ok f \<longrightarrow> t w = Ok g \<longrightarrow> f \<circ> g = g \<circ> f)"

lemma commute_with:
  "(\<And>x y. u x \<circ> w y = w y \<circ> u x) \<Longrightarrow>
     commute (snd (set_with n k d u)) (snd (set_with n' k' d' w))"
  by (auto simp: commute_def set_with_def split: option.splits)

lemmas setter_defs = set_str_def set_int_def set_bool_def set_duration_def set_list_def

lemma setter_names [simp]:
  "fst (set_with n k d u) = n"
  by (simp add: set_with_def)

lemma section_updates:
  "cg_site_update f \<circ> cg_site_update g = cg_site_update (f \<circ> g)"
  "cg_server_update f' \<circ> cg_server_update g' = cg_server_update (f' \<circ> g')"
  "cg_sync_update f'' \<circ> cg_sync_update g'' = cg_sync_update (f'' \<circ> g'')"
  "cg_content_update f3 \<circ> cg_content_update g3 = cg_content_update (f3 \<circ> g3)"
  "sy_webhook_update f4 \<circ> sy_webhook_update g4 = sy_webhook_update (f4 \<circ> g4)"
  by (simp_all add: fun_eq_iff)

definition all_commute :: "(string \<times> setter) list \<Rightarrow> (string \<times> setter) list \<Rightarrow> bool" where
  "all_commute es fs \<longleftrightarrow> (\<forall>e \<in> set es. \<forall>f \<in> set fs. fst e \<noteq> fst f \<longrightarrow> commute (snd e) (snd f))"

lemma commute_site_server: "all_commute (env_site_server lib) (env_site_server lib)"
  by (simp add: all_commute_def env_site_server_def setter_defs commute_with fun_eq_iff)

lemma commute_sync: "all_commute env_sync env_sync"
  by (simp add: all_commute_def env_sync_def setter_defs commute_with fun_eq_iff)

lemma commute_rest: "all_commute env_rest env_rest"
  by (simp add: all_commute_def env_rest_def setter_defs commute_with fun_eq_iff)

lemma commute_site_server_sync: "all_commute (env_site_server lib) env_sync"
  by (simp add: all_commute_def env_site_server_def env_sync_def setter_defs commute_with fun_eq_iff)

lemma commute_site_server_rest: "all_commute (env_site_server lib) env_rest"
  by (simp add: all_commute_def env_site_server_def env_rest_def setter_defs commute_with fun_eq_iff)

lemma commute_sync_rest: "all_commute env_sync env_rest"
  by (simp add: all_commute_def env_sync_def env_rest_def setter_defs commute_with fun_eq_iff)

lemma all_commute_sym: "all_commute es fs \<Longrightarrow> all_commute fs es"
  unfolding all_commute_def commute_def by metis

lemma all_commute_append:
  "all_commute (es @ fs) gs \<longleftrightarrow> all_commute es gs \<and> all_commute fs gs"
  "all_commute gs (es @ fs) \<longleftrightarrow> all_commute gs es \<and> all_commute gs fs"
  by (auto simp: all_commute_def)

lemma env_map_commute: "all_commute (env_map lib) (env_map lib)"
  unfolding env_map_def all_commute_append
  using commute_site_server commute_sync commute_rest commute_site_server_sync
    commute_site_server_rest commute_sync_rest all_commute_sym by blast

lemma env_map_distinct: "distinct (map fst (env_map lib))"
  by (simp add: env_map_def env_site_server_def env_sync_def env_rest_def setter_defs)

text \<open>What an entry does: fail, nothing, or a change of the configuration.\<close>

definition entry_fails :: "os \<Rightarrow> string \<times> setter \<Rightarrow> bool" where
  "entry_fails os e =
     (case lookup_override os (fst e) of
        Inl _ \<Rightarrow> True | Inr None \<Rightarrow> False | Inr (Some v) \<Rightarrow> \<not> is_ok (snd e v))"

definition entry_set :: "os \<Rightarrow> string \<times> setter \<Rightarrow> bool" where
  "entry_set os e = (case lookup_override os (fst e) of Inr (Some _) \<Rightarrow> True | _ \<Rightarrow> False)"

definition entry_effect :: "os \<Rightarrow> string \<times> setter \<Rightarrow> config \<Rightarrow> config" where
  "entry_effect os e =
     (case lookup_override os (fst e) of
        Inr (Some v) \<Rightarrow> (case snd e v of Inr f \<Rightarrow> f | Inl _ \<Rightarrow> id)
      | _ \<Rightarrow> id)"

lemma apply_env_fails:
  "is_ok (apply_env_overrides os es applied c) \<longleftrightarrow> (\<forall>e \<in> set es. \<not> entry_fails os e)"
proof (induction es arbitrary: applied c)
  case (Cons e es)
  obtain n s where e: "e = (n, s)" by (cases e)
  show ?case
    using Cons
    by (cases "lookup_override os n") (auto simp: e entry_fails_def split: option.split sum.split)
qed simp

lemma apply_env_result:
  "\<forall>e \<in> set es. \<not> entry_fails os e \<Longrightarrow>
     apply_env_overrides os es applied c =
       Ok (applied @ map fst (filter (entry_set os) es), fold (entry_effect os) es c)"
proof (induction es arbitrary: applied c)
  case (Cons e es)
  obtain n s where e: "e = (n, s)" by (cases e)
  have IH: "\<And>applied c. apply_env_overrides os es applied c =
       Ok (applied @ map fst (filter (entry_set os) es), fold (entry_effect os) es c)"
    using Cons by simp
  have "\<not> entry_fails os (n, s)" using Cons.prems e by simp
  then show ?case
    unfolding e
    by (auto simp: IH entry_fails_def entry_set_def [of os "(n, s)"] entry_effect_def [of os "(n, s)"]
        split: option.splits sum.splits)
qed simp

lemma entry_effect_commute:
  assumes "e \<in> set (env_map lib)" and "f \<in> set (env_map lib)"
  shows "entry_effect os e \<circ> entry_effect os f = entry_effect os f \<circ> entry_effect os e"
proof (cases "fst e = fst f")
  case True
  then have "e = f" using env_map_distinct assms by (metis eq_key_imp_eq_value prod.collapse)
  then show ?thesis by simp
next
  case False
  then have c: "commute (snd e) (snd f)" using env_map_commute assms unfolding all_commute_def by blast
  have "entry_effect os x = id \<or> (\<exists>v g. snd x v = Ok g \<and> entry_effect os x = g)" for x
    by (auto simp: entry_effect_def split: sum.split option.split)
  from this [of e] this [of f] c show ?thesis by (auto simp: commute_def)
qed

text \<open>
  C27. The environment overrides do not depend on the order in which Go ranges over their
  map: for any two orders both fail, or both set the same variables and end in the same
  configuration.
\<close>

theorem env_order_irrelevant:
  assumes "mset es = mset (env_map lib)" and "mset es' = mset (env_map lib)"
  shows "(\<not> is_ok (apply_env_overrides os es [] c) \<and> \<not> is_ok (apply_env_overrides os es' [] c)) \<or>
    (\<exists>applied applied' c'. apply_env_overrides os es [] c = Ok (applied, c') \<and>
       apply_env_overrides os es' [] c = Ok (applied', c') \<and> mset applied = mset applied')"
proof -
  have sets: "set es = set (env_map lib)" "set es' = set es" and m: "mset es = mset es'"
    using assms by (auto dest: mset_eq_setD)
  have f: "fold (entry_effect os) es = fold (entry_effect os) es'"
    by (rule fold_multiset_equiv [OF _ m]) (simp add: sets entry_effect_commute)
  have a: "mset (map fst (filter (entry_set os) es)) = mset (map fst (filter (entry_set os) es'))"
    by (simp only: mset_map mset_filter m)
  show ?thesis
  proof (cases "\<forall>e \<in> set es. \<not> entry_fails os e")
    case True
    with sets have "\<forall>e \<in> set es'. \<not> entry_fails os e" by simp
    from apply_env_result [OF True] apply_env_result [OF this] show ?thesis
      using a f by (metis append_Nil)
  next
    case False
    then show ?thesis using sets by (simp add: apply_env_fails)
  qed
qed

theorem env_order_irrelevant_witness:
  "\<exists>c'. apply_env_overrides demo_os (env_map demo_cfg_lib) [] default_config = Ok ([], c') \<and>
     apply_env_overrides demo_os (rev (env_map demo_cfg_lib)) [] default_config = Ok ([], c')"
proof -
  have l: "lookup_override demo_os n = Ok None" if "n \<in> fst ` set (env_map demo_cfg_lib)" for n
    using that
    by (auto simp: lookup_override_def secret_env_vars_def read_env_or_file_def demo_os_def Let_def
      env_map_def env_site_server_def env_sync_def env_rest_def setter_defs)
  have ok: "\<forall>e \<in> set (env_map demo_cfg_lib). \<not> entry_fails demo_os e \<and> \<not> entry_set demo_os e"
    by (auto simp: entry_fails_def entry_set_def l)
  have "map fst (filter (entry_set demo_os) es) = []" if "set es = set (env_map demo_cfg_lib)" for es
    using ok that by (simp add: filter_empty_conv)
  then show ?thesis
    using env_order_irrelevant [of "env_map demo_cfg_lib" demo_cfg_lib "rev (env_map demo_cfg_lib)" demo_os default_config]
      apply_env_result [of "env_map demo_cfg_lib" demo_os "[]" default_config]
      apply_env_result [of "rev (env_map demo_cfg_lib)" demo_os "[]" default_config] ok
    by (auto simp: is_ok_def)
qed

subsection \<open>What a loader serves\<close>

datatype loader_op = OpLoad world | OpReload world | OpOnChange nat

definition loader_step ::
  "('ip, 'x) cfg_lib_scheme \<Rightarrow> (string \<Rightarrow> config \<Rightarrow> config option) \<Rightarrow> loader_op \<Rightarrow> loader \<Rightarrow>
   (nat \<times> config) list \<times> loader" where
  "loader_step lib yaml op l =
     (case op of
        OpLoad w \<Rightarrow> ([], snd (loader_load lib yaml w l))
      | OpReload w \<Rightarrow> snd (loader_reload lib yaml w l)
      | OpOnChange cb \<Rightarrow> ([], on_change cb l))"

fun loader_run ::
  "('ip, 'x) cfg_lib_scheme \<Rightarrow> (string \<Rightarrow> config \<Rightarrow> config option) \<Rightarrow> loader_op list \<Rightarrow> loader \<Rightarrow>
   (nat \<times> config) list \<times> loader" where
  "loader_run lib yaml [] l = ([], l)"
| "loader_run lib yaml (op # ops) l =
     (let (calls, l1) = loader_step lib yaml op l; (calls', l2) = loader_run lib yaml ops l1 in
      (calls @ calls', l2))"

text \<open>
  The reference: the configurations that loaded, in order, and for each successful reload a
  call of every callback registered before it.
\<close>

definition op_loads ::
  "('ip, 'x) cfg_lib_scheme \<Rightarrow> (string \<Rightarrow> config \<Rightarrow> config option) \<Rightarrow> loader_op \<Rightarrow> config list" where
  "op_loads lib yaml op =
     (case op of
        OpOnChange _ \<Rightarrow> []
      | OpLoad w \<Rightarrow> (case load_config lib yaml w of Inr c \<Rightarrow> [c] | Inl _ \<Rightarrow> [])
      | OpReload w \<Rightarrow> (case load_config lib yaml w of Inr c \<Rightarrow> [c] | Inl _ \<Rightarrow> []))"

fun registered :: "loader_op list \<Rightarrow> nat list" where
  "registered [] = []"
| "registered (OpOnChange cb # ops) = cb # registered ops"
| "registered (_ # ops) = registered ops"

fun expected_calls ::
  "('ip, 'x) cfg_lib_scheme \<Rightarrow> (string \<Rightarrow> config \<Rightarrow> config option) \<Rightarrow> nat list \<Rightarrow> loader_op list \<Rightarrow>
   (nat \<times> config) list" where
  "expected_calls lib yaml cbs [] = []"
| "expected_calls lib yaml cbs (op # ops) =
     (case op of OpReload w \<Rightarrow> [(cb, c). c \<leftarrow> op_loads lib yaml op, cb \<leftarrow> cbs] | _ \<Rightarrow> []) @
     expected_calls lib yaml (cbs @ registered [op]) ops"

lemma load_config_valid: "load_config lib yaml w = Ok c \<Longrightarrow> validate lib c = []"
  by (auto simp: load_config_def split: sum.splits if_splits)

lemma last_Cons_append: "last (x # xs @ ys) = last (last (x # xs) # ys)"
  by (cases ys rule: rev_cases) simp_all

lemma loader_step_spec:
  "loader_step lib yaml op l =
     ((case op of OpReload w \<Rightarrow> [(cb, c). c \<leftarrow> op_loads lib yaml op, cb \<leftarrow> ld_callbacks l] | _ \<Rightarrow> []),
      l\<lparr>ld_current := last (ld_current l # op_loads lib yaml op),
        ld_callbacks := ld_callbacks l @ registered [op]\<rparr>)"
  by (cases op)
    (simp_all add: loader_step_def loader_load_def loader_reload_def op_loads_def on_change_def
      fire_callbacks_def split: sum.split)

lemma loader_run_spec:
  "loader_run lib yaml ops l =
     (expected_calls lib yaml (ld_callbacks l) ops,
      l\<lparr>ld_current := last (ld_current l # concat (map (op_loads lib yaml) ops)),
        ld_callbacks := ld_callbacks l @ registered ops\<rparr>)"
proof (induction ops arbitrary: l)
  case (Cons op ops)
  have "registered (op # ops) = registered [op] @ registered ops" by (cases op) simp_all
  then show ?case
    by (simp add: Cons.IH loader_step_spec Let_def last_Cons_append del: last.simps)
qed simp

lemma op_loads_valid: "c \<in> set (op_loads lib yaml op) \<Longrightarrow> validate lib c = []"
  by (auto simp: op_loads_def dest: load_config_valid [OF sym] split: loader_op.splits sum.splits)

lemma expected_calls_valid:
  "(cb, c) \<in> set (expected_calls lib yaml cbs ops) \<Longrightarrow> validate lib c = []"
  by (induction ops arbitrary: cbs)
    (auto dest: op_loads_valid split: loader_op.splits)

text \<open>
  C17. Whatever is loaded, reloaded and registered, in whatever order and however often it
  fails: \<open>Get\<close> serves a configuration that validates, the last one that loaded (the defaults
  before that), a failed load leaves it in place; every callback is called once for each
  successful reload after its registration, in order, with the configuration then current,
  and never with one that does not validate.
\<close>

theorem loader_serves_valid:
  assumes "validate lib default_config = []"
    and "loader_run lib yaml ops (new_loader dir) = (calls, l)"
  shows "validate lib (loader_get l) = [] \<and>
    loader_get l = last (default_config # concat (map (op_loads lib yaml) ops)) \<and>
    calls = expected_calls lib yaml [] ops \<and>
    (\<forall>(cb, c) \<in> set calls. validate lib c = [])"
proof -
  let ?cs = "concat (map (op_loads lib yaml) ops)"
  have l: "loader_get l = last (default_config # ?cs)" and c: "calls = expected_calls lib yaml [] ops"
    using assms(2) by (auto simp: loader_run_spec new_loader_def loader_get_def)
  have "last (default_config # ?cs) \<in> set (default_config # ?cs)" by (rule last_in_set) simp
  moreover have "\<forall>c \<in> set (default_config # ?cs). validate lib c = []"
    using assms(1) op_loads_valid by fastforce
  ultimately have "validate lib (loader_get l) = []" unfolding l by (rule bspec [rotated])
  with l c show ?thesis by (auto dest: expected_calls_valid)
qed

definition demo_world :: world where
  "demo_world = \<lparr>wo_open = (\<lambda>p. Err (PathError ''open'' p ErrNotExist)), wo_os = demo_os, wo_order = []\<rparr>"

theorem loader_serves_valid_witness:
  "\<exists>lib :: string cfg_lib.
     let (calls, l) = loader_run lib (\<lambda>_. Some) [OpOnChange 1, OpReload demo_world] (new_loader ''etc'') in
     calls = [(1, default_config)] \<and> validate lib (loader_get l) = []"
proof -
  define lib where "lib = demo_cfg_lib\<lparr>cl_url := (\<lambda>u. Some (''http'', ''localhost:8080''))\<rparr>"
  have v: "validate lib default_config = []" by (rule default_valid) (simp add: lib_def)
  have w: "load_config lib (\<lambda>_. Some) demo_world = Ok default_config"
    by (simp add: load_config_def demo_world_def is_not_exist_def v)
  obtain calls l where r: "loader_run lib (\<lambda>_. Some) [OpOnChange 1, OpReload demo_world] (new_loader ''etc'') = (calls, l)"
    by fastforce
  from loader_serves_valid [OF v r] v have "calls = [(1, default_config)] \<and> validate lib (loader_get l) = []"
    by (simp add: op_loads_def w)
  with r show ?thesis by (intro exI [of _ lib]) simp
qed

end
