(* ===== verification/Debounce.thy ===== *)
theory Debounce
  imports Prelude
begin

text \<open>
  What the three file watchers of BlogFlow share (\<open>config.Loader.Watch\<close>,
  \<open>gitops.WatchStrategy\<close>, \<open>gitops.SidecarStrategy\<close>): an event loop that restarts a timer on
  every event it cares about and reloads when the timer fires. One iteration of the loop is
  one case of its \<open>select\<close>; a trace is the sequence of cases taken, so it covers every order in
  which ready channels may be served. Times are those at which the loop takes the case.
\<close>

datatype 'ev sel =
    Done                  \<comment> \<open>the context is cancelled\<close>
  | Event int 'ev         \<comment> \<open>time, event of the watcher\<close>
  | EventsClosed
  | WatchErr
  | ErrorsClosed
  | Fire int              \<comment> \<open>the timer's channel delivers at this time\<close>

fun sel_time :: "'ev sel \<Rightarrow> int option" where
  "sel_time (Event t e) = Some t"
| "sel_time (Fire t) = Some t"
| "sel_time _ = None"

definition sel_times :: "'ev sel list \<Rightarrow> int list" where
  "sel_times xs = List.map_filter sel_time xs"

fun loop_run :: "('ev sel \<Rightarrow> 's \<Rightarrow> 's \<times> int list) \<Rightarrow> 'ev sel list \<Rightarrow> 's \<Rightarrow> 's \<times> int list" where
  "loop_run step [] s = (s, [])"
| "loop_run step (x # xs) s =
     (let (s1, r1) = step x s; (s2, r2) = loop_run step xs s1 in (s2, r1 @ r2))"

lemma loop_run_append:
  "loop_run step (xs @ ys) s =
     (let (s1, r1) = loop_run step xs s; (s2, r2) = loop_run step ys s1 in (s2, r1 @ r2))"
  by (induction xs arbitrary: s) (auto simp: Let_def split: prod.splits)

lemma times_simps [simp]:
  "sel_times [] = []"
  "sel_times (x # xs) = (case sel_time x of None \<Rightarrow> sel_times xs | Some t \<Rightarrow> t # sel_times xs)"
  by (auto simp: sel_times_def List.map_filter_def)

lemma times_append [simp]: "sel_times (xs @ ys) = sel_times xs @ sel_times ys"
  by (induction xs) (auto split: option.split)

text \<open>
  The contract of a loop: \<open>step\<close> gives the new state and the times of the reloads it makes,
  \<open>armed\<close> is the deadline of the running timer, \<open>qualifies\<close> tells the events that count.
\<close>

locale debounced =
  fixes step :: "'ev sel \<Rightarrow> 's \<Rightarrow> 's \<times> int list"
    and armed :: "'s \<Rightarrow> int option"
    and alive :: "'s \<Rightarrow> bool"
    and qualifies :: "'ev \<Rightarrow> bool"
    and delay :: int
  assumes delay_pos: "0 < delay"
    and step_dead: "\<not> alive s \<Longrightarrow> step x s = (s, [])"
    and step_change: "alive s \<Longrightarrow> qualifies e \<Longrightarrow> step (Event t e) s = (s', rs) \<Longrightarrow>
      alive s' \<and> armed s' = Some (t + delay) \<and> rs = []"
    and step_other: "alive s \<Longrightarrow> \<not> qualifies e \<Longrightarrow> step (Event t e) s = (s', rs) \<Longrightarrow>
      alive s' \<and> armed s' = armed s \<and> rs = []"
    and step_err: "alive s \<Longrightarrow> step WatchErr s = (s', rs) \<Longrightarrow> alive s' \<and> armed s' = armed s \<and> rs = []"
    and step_stop: "alive s \<Longrightarrow> x \<in> {Done, EventsClosed, ErrorsClosed} \<Longrightarrow> step x s = (s', rs) \<Longrightarrow>
      \<not> alive s' \<and> rs = []"
    and step_fire: "alive s \<Longrightarrow> armed s = Some d \<Longrightarrow> d \<le> t \<Longrightarrow> step (Fire t) s = (s', rs) \<Longrightarrow>
      alive s' \<and> armed s' = None \<and> rs = [t]"
    and step_early: "alive s \<Longrightarrow> \<not> (\<exists>d. armed s = Some d \<and> d \<le> t) \<Longrightarrow> step (Fire t) s = (s, [])"
begin

abbreviation runs where "runs \<equiv> loop_run step"

text \<open>The changes of a trace and the deadline they leave when no reload intervenes.\<close>

definition changes :: "'ev sel list \<Rightarrow> int list" where
  "changes xs = List.map_filter (\<lambda>x. case x of Event t e \<Rightarrow> if qualifies e then Some t else None | _ \<Rightarrow> None) xs"

lemma changes_simps [simp]:
  "changes [] = []"
  "changes (Event t e # xs) = (if qualifies e then t # changes xs else changes xs)"
  "changes (Fire t # xs) = changes xs" "changes (Done # xs) = changes xs"
  "changes (WatchErr # xs) = changes xs" "changes (EventsClosed # xs) = changes xs"
  "changes (ErrorsClosed # xs) = changes xs"
  by (simp_all add: changes_def List.map_filter_def)

lemma changes_append [simp]: "changes (xs @ ys) = changes xs @ changes ys"
  by (simp add: changes_def List.map_filter_def)

lemma changes_event: "Event t e \<in> set xs \<Longrightarrow> qualifies e \<Longrightarrow> t \<in> set (changes xs)"
proof (induction xs)
  case (Cons x xs)
  then show ?case by (cases x) auto
qed simp

lemma changes_times: "set (changes xs) \<subseteq> set (sel_times xs)"
proof (induction xs)
  case (Cons x xs)
  then show ?case by (cases x) auto
qed simp

lemma run_dead: "\<not> alive s \<Longrightarrow> runs xs s = (s, [])"
  by (induction xs) (simp_all add: step_dead)

lemma reload_alive: "runs xs s = (s', rs) \<Longrightarrow> r \<in> set rs \<Longrightarrow> alive s"
  by (cases "alive s") (auto simp: run_dead)

text \<open>One step, by what it does to the timer.\<close>

lemma step_cases:
  assumes "alive s" and "step x s = (s', rs)"
  obtains (change) t e where "x = Event t e" and "qualifies e" and "alive s'"
      and "armed s' = Some (t + delay)" and "rs = []"
    | (quiet) "changes [x] = []" and "alive s'" and "armed s' = armed s" and "rs = []"
    | (stop) "changes [x] = []" and "\<not> alive s'" and "rs = []"
    | (fire) t d where "x = Fire t" and "armed s = Some d" and "d \<le> t" and "alive s'"
      and "armed s' = None" and "rs = [t]"
proof (cases x)
  case (Event t e)
  then show thesis
    using assms step_change [of s e t s' rs] step_other [of s e t s' rs] that(1,2)
    by (cases "qualifies e") auto
next
  case (Fire t)
  show thesis
  proof (cases "\<exists>d. armed s = Some d \<and> d \<le> t")
    case True
    then show thesis using assms Fire step_fire that(4) by blast
  next
    case False
    then have "step x s = (s, [])" using assms Fire step_early by blast
    then show thesis using assms Fire that(2) by simp
  qed
next
  case WatchErr
  then show thesis using assms step_err [of s s' rs] that(2) by simp
qed (use assms step_stop [of s x s' rs] that(3) in simp_all)

text \<open>
  \<open>due\<close>: the deadline is not later than \<open>delay\<close> after anything still to come, which holds from
  the start and after every step when times do not decrease.
\<close>

definition due :: "'s \<Rightarrow> 'ev sel list \<Rightarrow> bool" where
  "due s xs \<longleftrightarrow> sorted (sel_times xs) \<and> (\<forall>d. armed s = Some d \<longrightarrow> (\<forall>t \<in> set (sel_times xs). d \<le> t + delay))"

lemma due_step:
  assumes "due s (x # xs)" and "alive s" and "step x s = (s1, r1)" and "alive s1"
  shows "due s1 xs"
  using assms(2,3)
proof (cases rule: step_cases)
  case (change t e)
  then show ?thesis using assms(1) by (auto simp: due_def)
next
  case quiet
  then show ?thesis using assms(1) by (auto simp: due_def split: option.splits)
next
  case (fire t d)
  then show ?thesis using assms(1) by (auto simp: due_def)
qed (use assms(4) in simp)

lemma reload_times:
  assumes "runs xs s = (s', rs)"
  shows "set rs \<subseteq> set (sel_times xs)"
  using assms
proof (induction xs arbitrary: s s' rs)
  case (Cons x xs)
  obtain s1 r1 where st: "step x s = (s1, r1)" by fastforce
  obtain s2 r2 where ru: "runs xs s1 = (s2, r2)" by fastforce
  have IH: "set r2 \<subseteq> set (sel_times xs)" using Cons.IH ru by blast
  have rs: "rs = r1 @ r2" using Cons.prems st ru by simp
  show ?case
  proof (cases "alive s")
    case True
    then show ?thesis
      using st by (cases rule: step_cases) (use IH rs in \<open>auto split: option.split\<close>)
  next
    case False
    then show ?thesis using st IH rs by (auto simp: step_dead split: option.split)
  qed
qed simp

lemma reload_after_deadline:
  assumes "runs xs s = (s', rs)" and "due s xs" and "armed s = Some d" and "r \<in> set rs"
  shows "d \<le> r"
  using assms
proof (induction xs arbitrary: s s' d rs)
  case (Cons x xs)
  obtain s1 r1 where st: "step x s = (s1, r1)" by fastforce
  obtain s2 r2 where ru: "runs xs s1 = (s2, r2)" by fastforce
  have rs: "rs = r1 @ r2" using Cons.prems(1) st ru by simp
  have al: "alive s1" if "r \<in> set r2" using that ru reload_alive by blast
  have "alive s" using Cons.prems(1,4) by (rule reload_alive)
  from this st show ?case
  proof (cases rule: step_cases)
    case (change t e)
    then have "due s1 xs" "d \<le> t + delay"
      using due_step [OF Cons.prems(2) \<open>alive s\<close> st] Cons.prems(2,3) by (auto simp: due_def)
    then show ?thesis using Cons.IH [OF ru _ change(4)] Cons.prems(4) rs change(5) by force
  next
    case quiet
    then show ?thesis
      using Cons.IH [OF ru due_step [OF Cons.prems(2) \<open>alive s\<close> st]] Cons.prems(3,4) rs by simp
  next
    case stop
    then show ?thesis using Cons.prems(4) rs al by auto
  next
    case (fire t d')
    have "set r2 \<subseteq> set (sel_times xs)" using reload_times [OF ru] .
    then show ?thesis using fire Cons.prems rs by (fastforce simp: due_def)
  qed
qed simp

lemma reload_after_change:
  assumes "runs xs s = (s', rs)" and "sorted (sel_times xs)" and "armed s = None"
    and "\<forall>t \<in> set (sel_times xs). t0 \<le> t" and "r \<in> set rs"
  shows "t0 + delay \<le> r"
  using assms
proof (induction xs arbitrary: s s' rs)
  case (Cons x xs)
  obtain s1 r1 where st: "step x s = (s1, r1)" by fastforce
  obtain s2 r2 where ru: "runs xs s1 = (s2, r2)" by fastforce
  have rs: "rs = r1 @ r2" using Cons.prems(1) st ru by simp
  have so: "sorted (sel_times xs)" "\<forall>t \<in> set (sel_times xs). t0 \<le> t"
    using Cons.prems(2,4) by (auto split: option.splits)
  have al: "alive s1" if "r \<in> set r2" using that ru reload_alive by blast
  have "alive s" using Cons.prems(1,5) by (rule reload_alive)
  from this st show ?case
  proof (cases rule: step_cases)
    case (change t e)
    have "due s (x # xs)" using Cons.prems(2,3) by (simp add: due_def)
    then have "due s1 xs" by (rule due_step [OF _ \<open>alive s\<close> st change(3)])
    from reload_after_deadline [OF ru this change(4), of r] show ?thesis
      using Cons.prems(4,5) rs change(1,5) by force
  next
    case quiet
    then show ?thesis using Cons.IH [OF ru so(1) _ so(2)] Cons.prems(3,5) rs by simp
  next
    case stop
    then show ?thesis using Cons.prems(5) rs al by auto
  next
    case (fire t d)
    then show ?thesis using Cons.prems(3) by simp
  qed
qed simp

text \<open>Reloads are at least \<open>delay\<close> apart, so a burst of changes makes one.\<close>

lemma reloads_spaced:
  assumes "runs xs s = (s', rs)" and "due s xs"
  shows "sorted_wrt (\<lambda>a b. a + delay \<le> b) rs"
  using assms
proof (induction xs arbitrary: s s' rs)
  case (Cons x xs)
  obtain s1 r1 where st: "step x s = (s1, r1)" by fastforce
  obtain s2 r2 where ru: "runs xs s1 = (s2, r2)" by fastforce
  have rs: "rs = r1 @ r2" using Cons.prems(1) st ru by simp
  show ?case
  proof (cases "alive s \<and> alive s1")
    case True
    then have IH: "sorted_wrt (\<lambda>a b. a + delay \<le> b) r2"
      using Cons.IH [OF ru due_step [OF Cons.prems(2) _ st]] by blast
    from True have "alive s" ..
    from this st show ?thesis
    proof (cases rule: step_cases)
      case (fire t d)
      have "\<forall>r \<in> set r2. t + delay \<le> r"
        using reload_after_change [OF ru _ fire(5), of t] Cons.prems(2) fire(1) by (auto simp: due_def)
      then show ?thesis using IH rs fire(6) by simp
    qed (use IH rs in simp_all)
  next
    case False
    have "alive s \<Longrightarrow> \<not> alive s1 \<Longrightarrow> r1 = []" by (rule step_cases [OF _ st]) auto
    then have "r1 = []" "\<not> alive s1" using False st step_dead [of s x] by auto
    then show ?thesis using ru rs run_dead by simp
  qed
qed simp

text \<open>No reload happens within \<open>delay\<close> after a change: the writer is done by then.\<close>

lemma reloads_quiet:
  assumes "runs xs s = (s', rs)" and "due s xs" and "t \<in> set (changes xs)" and "r \<in> set rs"
  shows "t + delay \<le> r \<or> r \<le> t"
  using assms
proof (induction xs arbitrary: s s' rs)
  case (Cons x xs)
  obtain s1 r1 where st: "step x s = (s1, r1)" by fastforce
  obtain s2 r2 where ru: "runs xs s1 = (s2, r2)" by fastforce
  have rs: "rs = r1 @ r2" using Cons.prems(1) st ru by simp
  have al: "alive s1" if "r \<in> set r2" using that ru reload_alive by blast
  have "alive s" using Cons.prems(1,4) by (rule reload_alive)
  from this st show ?case
  proof (cases rule: step_cases)
    case (change t' e)
    then have r2: "r \<in> set r2" using Cons.prems(4) rs by simp
    have du: "due s1 xs" by (rule due_step [OF Cons.prems(2) \<open>alive s\<close> st change(3)])
    show ?thesis
      using Cons.IH [OF ru du _ r2] reload_after_deadline [OF ru du change(4) r2] Cons.prems(3) change(1,2)
      by auto
  next
    case quiet
    then have "t \<in> set (changes xs)"
      using Cons.prems(3) changes_append [of "[x]" xs] by simp
    then show ?thesis
      using Cons.IH [OF ru due_step [OF Cons.prems(2) \<open>alive s\<close> st]] quiet Cons.prems(4) rs by simp
  next
    case stop
    then show ?thesis using Cons.prems(4) rs al by auto
  next
    case (fire t' d)
    have t: "t \<in> set (changes xs)" using Cons.prems(3) fire(1) by simp
    have "t \<in> set (sel_times xs)" using t changes_times by blast
    then have "t' \<le> t" using Cons.prems(2) fire(1) by (auto simp: due_def)
    then show ?thesis
      using Cons.IH [OF ru due_step [OF Cons.prems(2) \<open>alive s\<close> st fire(4)] t] fire(6) Cons.prems(4) rs by auto
  qed
qed simp

text \<open>No change is lost: while the loop lives, a change is pending or a reload has followed it.\<close>

lemma no_change_lost:
  assumes "runs xs s = (s', rs)" and "due s xs" and "alive s'" and "armed s' = None"
  shows "(\<forall>d. armed s = Some d \<longrightarrow> (\<exists>r \<in> set rs. d \<le> r)) \<and>
    (\<forall>t \<in> set (changes xs). \<exists>r \<in> set rs. t + delay \<le> r)"
  using assms
proof (induction xs arbitrary: s s' rs)
  case (Cons x xs)
  obtain s1 r1 where st: "step x s = (s1, r1)" by fastforce
  obtain s2 r2 where ru: "runs xs s1 = (s2, r2)" by fastforce
  have rs: "rs = r1 @ r2" "s2 = s'" using Cons.prems(1) st ru by simp_all
  have s1: "alive s1" using Cons.prems(3) ru rs run_dead [of s1 xs] by (cases "alive s1") auto
  then have "alive s" using st step_dead [of s x] by (cases "alive s") auto
  have du: "due s1 xs" by (rule due_step [OF Cons.prems(2) \<open>alive s\<close> st s1])
  have IH: "(\<forall>d. armed s1 = Some d \<longrightarrow> (\<exists>r \<in> set r2. d \<le> r)) \<and>
      (\<forall>t \<in> set (changes xs). \<exists>r \<in> set r2. t + delay \<le> r)"
    using Cons.IH [OF _ du Cons.prems(3,4)] ru rs by simp
  from \<open>alive s\<close> st show ?case
  proof (cases rule: step_cases)
    case (change t e)
    then obtain r where r: "r \<in> set r2" "t + delay \<le> r" using IH by auto
    have "\<forall>d. armed s = Some d \<longrightarrow> d \<le> r" using Cons.prems(2) change(1) r by (auto simp: due_def)
    then show ?thesis using IH r rs change by auto
  next
    case quiet
    have "changes (x # xs) = changes xs" using quiet(1) changes_append [of "[x]" xs] by simp
    then show ?thesis using IH rs quiet by simp
  next
    case stop
    then show ?thesis using s1 by simp
  next
    case (fire t d)
    then show ?thesis using IH rs by auto
  qed
qed simp

text \<open>Each reload answers at least one change.\<close>

lemma reloads_count:
  assumes "runs xs s = (s', rs)"
  shows "length rs \<le> length (changes xs) + (if armed s = None then 0 else 1)"
  using assms
proof (induction xs arbitrary: s s' rs)
  case (Cons x xs)
  obtain s1 r1 where st: "step x s = (s1, r1)" by fastforce
  obtain s2 r2 where ru: "runs xs s1 = (s2, r2)" by fastforce
  have rs: "rs = r1 @ r2" using Cons.prems(1) st ru by simp
  have IH: "length r2 \<le> length (changes xs) + (if armed s1 = None then 0 else 1)" by (rule Cons.IH [OF ru])
  show ?case
  proof (cases "alive s")
    case True
    from True st show ?thesis
      by (cases rule: step_cases)
        (use IH rs changes_append [of "[x]" xs] ru run_dead [of s1 xs] in \<open>auto split: if_splits\<close>)
  next
    case False
    then show ?thesis using st ru rs run_dead [of s xs] step_dead [of s x] by auto
  qed
qed simp

text \<open>All of it from a loop that has just started.\<close>

lemma debounces:
  assumes "runs xs s = (s', rs)" and "armed s = None" and "sorted (sel_times xs)"
  shows "sorted_wrt (\<lambda>a b. a + delay \<le> b) rs \<and>
    (\<forall>t \<in> set (changes xs). \<forall>r \<in> set rs. t + delay \<le> r \<or> r \<le> t) \<and>
    length rs \<le> length (changes xs) \<and>
    (alive s' \<and> armed s' = None \<longrightarrow> (\<forall>t \<in> set (changes xs). \<exists>r \<in> set rs. t + delay \<le> r))"
proof -
  have d: "due s xs" using assms(2,3) by (simp add: due_def)
  show ?thesis
    using reloads_spaced [OF assms(1) d] reloads_quiet [OF assms(1) d] reloads_count [OF assms(1)]
      no_change_lost [OF assms(1) d] assms(2) by auto
qed

end

end
