(* ===== verification/Config_Watch.thy ===== *)
theory Config_Watch
  imports Config_Load Debounce
begin

text \<open>
  \<open>Loader.Watch\<close> of \<open>internal/config/reload.go\<close>: the loop that reloads the configuration when
  \<open>site.yaml\<close> is written or recreated in the watched directory. A reload that fails is ignored.
\<close>

record cfg_event =
  ce_name :: string
  ce_write :: bool
  ce_create :: bool

definition config_debounce :: int where
  "config_debounce = 500 * 10 ^ 6"

record watch_loop =
  wl_loader :: loader
  wl_alive :: bool
  wl_armed :: "int option"
  wl_calls :: "(nat \<times> config) list"

datatype watch_error = NoWatchDir | NewWatcherFailed | AddFailed string

definition watch_begin :: "bool \<Rightarrow> (string \<Rightarrow> bool) \<Rightarrow> loader \<Rightarrow> (watch_error, watch_loop) result" where
  "watch_begin can_create can_add l =
     (if ld_dir l = '''' then Err NoWatchDir
      else if \<not> can_create then Err NewWatcherFailed
      else if \<not> can_add (ld_dir l) then Err (AddFailed (ld_dir l))
      else Ok \<lparr>wl_loader = l, wl_alive = True, wl_armed = None, wl_calls = []\<rparr>)"

definition config_event :: "string \<Rightarrow> cfg_event \<Rightarrow> bool" where
  "config_event dir ev \<longleftrightarrow>
     clean (ce_name ev) = clean (path_join dir ''site.yaml'') \<and> (ce_write ev \<or> ce_create ev)"

text \<open>One iteration; \<open>w t\<close> is the world a reload at time \<open>t\<close> sees.\<close>

definition config_select ::
  "('ip, 'x) cfg_lib_scheme \<Rightarrow> (string \<Rightarrow> config \<Rightarrow> config option) \<Rightarrow> (int \<Rightarrow> world) \<Rightarrow> string \<Rightarrow>
   cfg_event sel \<Rightarrow> watch_loop \<Rightarrow> watch_loop \<times> int list" where
  "config_select lib yaml w dir x wl =
     (if \<not> wl_alive wl then (wl, [])
      else case x of
        Done \<Rightarrow> (wl\<lparr>wl_alive := False\<rparr>, [])
      | EventsClosed \<Rightarrow> (wl\<lparr>wl_alive := False\<rparr>, [])
      | ErrorsClosed \<Rightarrow> (wl\<lparr>wl_alive := False\<rparr>, [])
      | WatchErr \<Rightarrow> (wl, [])
      | Event t ev \<Rightarrow>
          (if clean (ce_name ev) \<noteq> clean (path_join dir ''site.yaml'') then (wl, [])
           else if \<not> ce_write ev \<and> \<not> ce_create ev then (wl, [])
           else (wl\<lparr>wl_armed := Some (t + config_debounce)\<rparr>, []))
      | Fire t \<Rightarrow>
          (case wl_armed wl of
             None \<Rightarrow> (wl, [])
           | Some d \<Rightarrow>
               (if t < d then (wl, [])
                else (case loader_reload lib yaml (w t) (wl_loader wl) of
                   (res, calls, l) \<Rightarrow>
                     (wl\<lparr>wl_loader := l, wl_armed := None, wl_calls := wl_calls wl @ calls\<rparr>, [t])))))"

interpretation cw: debounced "config_select lib yaml w dir" wl_armed wl_alive "config_event dir" config_debounce
  by unfold_locales
    (auto simp: config_select_def config_debounce_def config_event_def split: option.splits if_splits prod.splits)

text \<open>The loader after a trace is the loader after its reloads.\<close>

lemma config_select_loader:
  "config_select lib yaml w dir x wl = (wl', rs) \<Longrightarrow>
     wl_loader wl' = snd (loader_run lib yaml (map (\<lambda>t. OpReload (w t)) rs) (wl_loader wl)) \<and>
     wl_calls wl' = wl_calls wl @ fst (loader_run lib yaml (map (\<lambda>t. OpReload (w t)) rs) (wl_loader wl))"
  by (auto simp: config_select_def loader_step_def split: if_splits sel.splits option.splits prod.splits)

lemma loader_run_append:
  "loader_run lib yaml (as @ bs) l =
     (let (c1, l1) = loader_run lib yaml as l; (c2, l2) = loader_run lib yaml bs l1 in (c1 @ c2, l2))"
  by (induction as arbitrary: l) (auto simp: Let_def split: prod.splits)

lemma config_loop_loader:
  "loop_run (config_select lib yaml w dir) xs wl = (wl', rs) \<Longrightarrow>
     wl_loader wl' = snd (loader_run lib yaml (map (\<lambda>t. OpReload (w t)) rs) (wl_loader wl)) \<and>
     wl_calls wl' = wl_calls wl @ fst (loader_run lib yaml (map (\<lambda>t. OpReload (w t)) rs) (wl_loader wl))"
proof (induction xs arbitrary: wl rs)
  case (Cons x xs)
  obtain wl1 r1 where st: "config_select lib yaml w dir x wl = (wl1, r1)" by fastforce
  obtain r2 where ru: "loop_run (config_select lib yaml w dir) xs wl1 = (wl', r2)" and rs: "rs = r1 @ r2"
    using Cons.prems st by (auto split: prod.splits)
  from config_select_loader [OF st] Cons.IH [OF ru] rs show ?case
    by (simp add: loader_run_append Let_def split: prod.splits)
qed simp

text \<open>
  C40. Watching keeps the loader sound: in any trace at non-decreasing times, the served
  configuration is the last one that a timer-driven reload loaded (or the one before watching)
  and validates; the callbacks called are those of the successful reloads; reloads are half a
  second apart and none happens within half a second after \<open>site.yaml\<close> was written; and
  while the loop lives with no timer running, every write has been followed by a reload.
\<close>

theorem config_watch_sound:
  assumes "validate lib (loader_get l) = []"
    and "watch_begin can_create can_add l = Ok wl"
    and "loop_run (config_select lib yaml w (ld_dir l)) xs wl = (wl', rs)" and "sorted (sel_times xs)"
  shows "loader_get (wl_loader wl') = last (loader_get l # concat (map (\<lambda>t. op_loads lib yaml (OpReload (w t))) rs)) \<and>
    validate lib (loader_get (wl_loader wl')) = [] \<and>
    wl_calls wl' = expected_calls lib yaml (ld_callbacks l) (map (\<lambda>t. OpReload (w t)) rs) \<and>
    sorted_wrt (\<lambda>a b. a + 500000000 \<le> b) rs \<and>
    (\<forall>t ev. Event t ev \<in> set xs \<and> config_event (ld_dir l) ev \<longrightarrow>
       (\<forall>r \<in> set rs. t + 500000000 \<le> r \<or> r \<le> t) \<and>
       (wl_alive wl' \<and> wl_armed wl' = None \<longrightarrow> (\<exists>r \<in> set rs. t + 500000000 \<le> r)))"
proof -
  let ?ops = "map (\<lambda>t. OpReload (w t)) rs"
  let ?cs = "concat (map (\<lambda>t. op_loads lib yaml (OpReload (w t))) rs)"
  have wl: "wl_loader wl = l" "wl_armed wl = None" "wl_calls wl = []"
    using assms(2) by (auto simp: watch_begin_def split: if_splits)
  from config_loop_loader [OF assms(3)] have
    l: "loader_get (wl_loader wl') = last (loader_get l # ?cs)" and
    c: "wl_calls wl' = expected_calls lib yaml (ld_callbacks l) ?ops"
    unfolding wl by (simp_all add: loader_run_spec loader_get_def o_def del: last.simps)
  have "\<forall>c \<in> set (loader_get l # ?cs). validate lib c = []"
    using assms(1) op_loads_valid by fastforce
  then have v: "validate lib (loader_get (wl_loader wl')) = []"
    unfolding l by (rule bspec) (rule last_in_set, simp)
  have k: "config_debounce = 500000000" by (simp add: config_debounce_def)
  have e: "t \<in> set (cw.changes (ld_dir l) xs)" if "Event t ev \<in> set xs" "config_event (ld_dir l) ev" for t ev
    using that by (rule cw.changes_event)
  show ?thesis
    using cw.debounces [OF assms(3) wl(2) assms(4)] l c v e unfolding k by blast
qed

theorem config_watch_sound_witness:
  "\<exists>(lib :: string cfg_lib) wl wl'.
     watch_begin True (\<lambda>_. True) (new_loader ''etc'') = Ok wl \<and>
     loop_run (config_select lib (\<lambda>_. Some) (\<lambda>_. demo_world) ''etc'')
       [Event 0 \<lparr>ce_name = ''etc/site.yaml'', ce_write = True, ce_create = False\<rparr>, Fire 500000000] wl =
       (wl', [500000000]) \<and>
     validate lib (loader_get (wl_loader wl')) = []"
proof -
  define lib where "lib = demo_cfg_lib\<lparr>cl_url := (\<lambda>u. Some (''http'', ''localhost:8080''))\<rparr>"
  have v: "validate lib (loader_get (new_loader ''etc'')) = []"
    unfolding loader_get_def new_loader_def using default_valid [of lib] by (simp add: lib_def)
  obtain wl where b: "watch_begin True (\<lambda>_. True) (new_loader ''etc'') = Ok wl" "wl_alive wl" "wl_armed wl = None"
    by (simp add: watch_begin_def new_loader_def)
  have n: "clean ''etc/site.yaml'' = clean (path_join ''etc'' ''site.yaml'')" by code_simp
  obtain res calls l1 where rl: "loader_reload lib (\<lambda>_. Some) demo_world (wl_loader wl) = (res, calls, l1)"
    using prod_cases3 by blast
  obtain wl' where r: "loop_run (config_select lib (\<lambda>_. Some) (\<lambda>_. demo_world) ''etc'')
       [Event 0 \<lparr>ce_name = ''etc/site.yaml'', ce_write = True, ce_create = False\<rparr>, Fire 500000000] wl =
       (wl', [500000000])"
    using b by (simp add: config_select_def config_debounce_def n rl)
  have d: "ld_dir (new_loader ''etc'') = ''etc''" by (simp add: new_loader_def)
  from config_watch_sound [OF v b(1), unfolded d, OF r] b r show ?thesis by (intro exI [of _ lib]) auto
qed

end
