(* ===== verification/Sync.thy ===== *)
theory Sync
  imports Config Debounce
begin

text \<open>
  The content synchronisation strategies of \<open>internal/gitops\<close> beside the webhook: the file
  watcher (\<open>watch.go\<close>), the sidecar watcher (\<open>sidecar.go\<close>), polling (\<open>poll.go\<close>) and the factory
  (\<open>sync.go\<close>). \<open>fsnotify\<close> and the directory tree it watches are parameters: whether a watcher
  can be created, whether a directory can be added, and what \<open>filepath.WalkDir\<close> finds.
\<close>

subsection \<open>Which files and directories count\<close>

definition watched_extensions :: "string list" where
  "watched_extensions = [''.md'', ''.html'', ''.css'', ''.yaml'']"

definition contains_dot_git :: "string \<Rightarrow> bool" where
  "contains_dot_git p \<longleftrightarrow> list_ex (\<lambda>part. part = ''.git'') (split_on sl p)"

definition is_ignored_file :: "string \<Rightarrow> bool" where
  "is_ignored_file name \<longleftrightarrow>
     (let base = path_base name; ext = path_ext base in
      has_suffix base ''~'' \<or> ext = ''.swp'' \<or> ext = ''.tmp'' \<or> contains_dot_git name)"

definition is_watched_file :: "string \<Rightarrow> bool" where
  "is_watched_file name \<longleftrightarrow>
     \<not> is_ignored_file name \<and> to_lower_ascii (path_ext name) \<in> set watched_extensions"

definition ignored_dirs :: "string list" where
  "ignored_dirs = [''.git'', ''node_modules'', ''vendor'', ''__pycache__'', ''.cache'', ''.idea'', ''.vscode'',
     ''dist'', ''_site'']"

definition is_ignored_dir :: "string \<Rightarrow> bool" where
  "is_ignored_dir name \<longleftrightarrow> name \<in> set ignored_dirs"

text \<open>
  A directory tree as \<open>filepath.WalkDir\<close> sees it: entries in its order, and the places where
  reading fails. The walk gives the directories added to the watcher and whether it ended
  without an error.
\<close>

datatype dtree = FileT string | DirT string "dtree list" | BadT string

fun add_recursive :: "(string \<Rightarrow> bool) \<Rightarrow> dtree \<Rightarrow> string list \<times> bool"
  and add_all :: "(string \<Rightarrow> bool) \<Rightarrow> dtree list \<Rightarrow> string list \<times> bool" where
  "add_recursive can_add (FileT p) = ([], True)"
| "add_recursive can_add (BadT p) = ([], False)"
| "add_recursive can_add (DirT p ts) =
     (if is_ignored_dir (path_base p) then ([], True)
      else if \<not> can_add p then ([], False)
      else (case add_all can_add ts of (ps, ok) \<Rightarrow> (p # ps, ok)))"
| "add_all can_add [] = ([], True)"
| "add_all can_add (t # ts) =
     (case add_recursive can_add t of
        (ps, False) \<Rightarrow> (ps, False)
      | (ps, True) \<Rightarrow> (case add_all can_add ts of (qs, ok) \<Rightarrow> (ps @ qs, ok)))"

subsection \<open>The file watcher\<close>

record fs_event =
  ev_name :: string
  ev_create :: bool
  ev_write :: bool
  ev_remove :: bool
  ev_rename :: bool

definition debounce_delay :: int where
  "debounce_delay = 500 * 10 ^ 6"

record watcher =
  wt_dirs :: "string list"
  wt_started :: bool
  wt_stopped :: bool
  wt_alive :: bool
  wt_watched :: "string list"
  wt_armed :: "int option"

definition new_watch_strategy :: "string list \<Rightarrow> watcher" where
  "new_watch_strategy dirs =
     \<lparr>wt_dirs = dirs, wt_started = False, wt_stopped = False, wt_alive = False, wt_watched = [],
      wt_armed = None\<rparr>"

definition watch_set_dirs :: "string list \<Rightarrow> watcher \<Rightarrow> watcher" where
  "watch_set_dirs dirs w = w\<lparr>wt_dirs := dirs\<rparr>"

datatype start_error =
    NoDirectories | CreateWatcher | WatchDir string | NoPuller | AlreadyStarted

fun add_dirs :: "(string \<Rightarrow> bool) \<Rightarrow> (string \<Rightarrow> dtree) \<Rightarrow> string list \<Rightarrow> string list \<Rightarrow> (start_error, string list) result" where
  "add_dirs can_add tree [] acc = Ok acc"
| "add_dirs can_add tree (dir # dirs) acc =
     (case add_recursive can_add (tree dir) of
        (ps, True) \<Rightarrow> add_dirs can_add tree dirs (acc @ ps)
      | (ps, False) \<Rightarrow> Err (WatchDir dir))"

definition watch_start ::
  "bool \<Rightarrow> (string \<Rightarrow> bool) \<Rightarrow> (string \<Rightarrow> dtree) \<Rightarrow> watcher \<Rightarrow> start_error option \<times> watcher" where
  "watch_start can_create can_add tree w =
     (if wt_started w then (None, w)
      else if wt_dirs w = [] then (Some NoDirectories, w)
      else if \<not> can_create then (Some CreateWatcher, w)
      else (case add_dirs can_add tree (wt_dirs w) [] of
         Inl e \<Rightarrow> (Some e, w)
       | Inr ps \<Rightarrow> (None, w\<lparr>wt_started := True, wt_alive := True, wt_watched := ps\<rparr>)))"

text \<open>
  \<open>Stop\<close>: the first call closes the watcher, if there is one, which ends the loop; later
  calls do nothing, also when the first came before \<open>Start\<close>.
\<close>

definition watch_stop :: "watcher \<Rightarrow> watcher" where
  "watch_stop w =
     (if wt_stopped w then w
      else if \<not> wt_started w then w\<lparr>wt_stopped := True\<rparr>
      else w\<lparr>wt_stopped := True, wt_alive := False\<rparr>)"

text \<open>\<open>tryWatchDir\<close>: \<open>found\<close> is what is at the path when the event is handled.\<close>

definition try_watch_dir :: "(string \<Rightarrow> bool) \<Rightarrow> string \<Rightarrow> dtree option \<Rightarrow> watcher \<Rightarrow> watcher" where
  "try_watch_dir can_add path found w =
     (case found of
        Some (DirT p ts) \<Rightarrow>
          (if is_ignored_dir (path_base path) then w
           else w\<lparr>wt_watched := wt_watched w @ fst (add_recursive can_add (DirT p ts))\<rparr>)
      | _ \<Rightarrow> w)"

text \<open>One iteration of the loop.\<close>

definition watch_select ::
  "(string \<Rightarrow> bool) \<Rightarrow> (fs_event \<times> dtree option) sel \<Rightarrow> watcher \<Rightarrow> watcher \<times> int list" where
  "watch_select can_add x w =
     (if \<not> wt_alive w then (w, [])
      else case x of
        Done \<Rightarrow> (w\<lparr>wt_alive := False\<rparr>, [])
      | EventsClosed \<Rightarrow> (w\<lparr>wt_alive := False\<rparr>, [])
      | ErrorsClosed \<Rightarrow> (w\<lparr>wt_alive := False\<rparr>, [])
      | WatchErr \<Rightarrow> (w, [])
      | Event t (ev, found) \<Rightarrow>
          (let w1 = (if ev_create ev then try_watch_dir can_add (ev_name ev) found w else w) in
           if \<not> is_watched_file (ev_name ev) then (w1, [])
           else (w1\<lparr>wt_armed := Some (t + debounce_delay)\<rparr>, []))
      | Fire t \<Rightarrow>
          (case wt_armed w of
             Some d \<Rightarrow> (if d \<le> t then (w\<lparr>wt_armed := None\<rparr>, [t]) else (w, []))
           | None \<Rightarrow> (w, [])))"

subsection \<open>The sidecar watcher\<close>

record sidecar =
  sd_dir :: string
  sd_started :: bool
  sd_stopped :: bool
  sd_alive :: bool
  sd_armed :: "int option"

definition default_sidecar_dir :: string where
  "default_sidecar_dir = ''/data/content''"

definition new_sidecar_strategy :: sidecar where
  "new_sidecar_strategy =
     \<lparr>sd_dir = default_sidecar_dir, sd_started = False, sd_stopped = False, sd_alive = False,
      sd_armed = None\<rparr>"

definition sidecar_set_dir :: "string \<Rightarrow> sidecar \<Rightarrow> sidecar" where
  "sidecar_set_dir dir s = s\<lparr>sd_dir := dir\<rparr>"

definition sidecar_start :: "bool \<Rightarrow> (string \<Rightarrow> bool) \<Rightarrow> sidecar \<Rightarrow> start_error option \<times> sidecar" where
  "sidecar_start can_create can_add s =
     (if sd_started s then (None, s)
      else if sd_dir s = '''' then (Some NoDirectories, s)
      else if \<not> can_create then (Some CreateWatcher, s)
      else if \<not> can_add (sd_dir s) then (Some (WatchDir (sd_dir s)), s)
      else (None, s\<lparr>sd_started := True, sd_alive := True\<rparr>))"

text \<open>Here \<open>Stop\<close> before \<open>Start\<close> does not use up the one call that counts.\<close>

definition sidecar_stop :: "sidecar \<Rightarrow> sidecar" where
  "sidecar_stop s =
     (if \<not> sd_started s then s
      else if sd_stopped s then s
      else s\<lparr>sd_stopped := True, sd_alive := False\<rparr>)"

definition is_symlink_event :: "fs_event \<Rightarrow> bool" where
  "is_symlink_event ev \<longleftrightarrow> ev_create ev \<or> ev_remove ev \<or> ev_rename ev"

definition sidecar_select :: "fs_event sel \<Rightarrow> sidecar \<Rightarrow> sidecar \<times> int list" where
  "sidecar_select x s =
     (if \<not> sd_alive s then (s, [])
      else case x of
        Done \<Rightarrow> (s\<lparr>sd_alive := False\<rparr>, [])
      | EventsClosed \<Rightarrow> (s\<lparr>sd_alive := False\<rparr>, [])
      | ErrorsClosed \<Rightarrow> (s\<lparr>sd_alive := False\<rparr>, [])
      | WatchErr \<Rightarrow> (s, [])
      | Event t ev \<Rightarrow>
          (if \<not> is_symlink_event ev then (s, [])
           else (s\<lparr>sd_armed := Some (t + debounce_delay)\<rparr>, []))
      | Fire t \<Rightarrow>
          (case sd_armed s of
             Some d \<Rightarrow> (if d \<le> t then (s\<lparr>sd_armed := None\<rparr>, [t]) else (s, []))
           | None \<Rightarrow> (s, [])))"

subsection \<open>Polling\<close>

record poll =
  pl_interval :: int
  pl_puller :: bool
  pl_started :: bool
  pl_stopped :: bool
  pl_cancelled :: bool

datatype poll_error = NoReloader | ShortInterval int

definition new_poll_strategy :: "int \<Rightarrow> bool \<Rightarrow> (poll_error, poll) result" where
  "new_poll_strategy interval has_reloader =
     (if \<not> has_reloader then Err NoReloader
      else if interval < 30 * second then Err (ShortInterval interval)
      else Ok \<lparr>pl_interval = interval, pl_puller = False, pl_started = False, pl_stopped = False,
        pl_cancelled = False\<rparr>)"

definition poll_set_puller :: "poll \<Rightarrow> poll" where
  "poll_set_puller p = p\<lparr>pl_puller := True\<rparr>"

definition poll_start :: "poll \<Rightarrow> start_error option \<times> poll" where
  "poll_start p =
     (if pl_started p then (Some AlreadyStarted, p)
      else if \<not> pl_puller p then (Some NoPuller, p)
      else (None, p\<lparr>pl_started := True\<rparr>))"

text \<open>
  \<open>Stop\<close>, and whether it returns: it waits for the loop once polling was started, and only
  its first call cancels the loop.
\<close>

definition poll_stop :: "poll \<Rightarrow> bool \<times> poll" where
  "poll_stop p =
     (let p1 = (if pl_stopped p then p else p\<lparr>pl_stopped := True, pl_cancelled := pl_started p\<rparr>) in
      (pl_started p1 \<longrightarrow> pl_cancelled p1, p1))"

text \<open>A tick: the outcome of the pull, and whether the reloader is called.\<close>

datatype pull_outcome = PullFailed | Pulled bool

definition poll_tick :: "pull_outcome \<Rightarrow> bool" where
  "poll_tick r = (case r of PullFailed \<Rightarrow> False | Pulled changed \<Rightarrow> changed)"

datatype poll_sel = PollDone | PollTick pull_outcome

fun poll_loop :: "poll_sel list \<Rightarrow> bool list" where
  "poll_loop [] = []"
| "poll_loop (PollDone # xs) = []"
| "poll_loop (PollTick r # xs) = poll_tick r # poll_loop xs"

subsection \<open>The factory\<close>

datatype 'ip sync_strategy =
    WatchStrategy watcher
  | WebhookStrategy "'ip strategy" wh_state
  | SidecarStrategy sidecar
  | PollStrategy poll

datatype factory_error =
    NilConfig | NilReloader | WebhookSetup setup_error | BadPollInterval string | PollSetup poll_error
  | UnknownStrategy string

definition strategy_name :: "'ip sync_strategy \<Rightarrow> string" where
  "strategy_name s =
     (case s of WatchStrategy _ \<Rightarrow> ''watch'' | WebhookStrategy _ _ \<Rightarrow> ''webhook''
      | SidecarStrategy _ \<Rightarrow> ''sidecar'' | PollStrategy _ \<Rightarrow> ''poll'')"

definition new_poll_from_config ::
  "('ip, 'x) cfg_lib_scheme \<Rightarrow> sync_config \<Rightarrow> bool \<Rightarrow> (factory_error, poll) result" where
  "new_poll_from_config lib cfg has_reloader =
     (case cl_duration lib (sy_poll_interval cfg) of
        None \<Rightarrow> Err (BadPollInterval (sy_poll_interval cfg))
      | Some d \<Rightarrow>
          (case new_poll_strategy d has_reloader of Inl e \<Rightarrow> Err (PollSetup e) | Inr p \<Rightarrow> Ok p))"

definition new_strategy ::
  "('ip, 'x) cfg_lib_scheme \<Rightarrow> sync_config option \<Rightarrow> bool \<Rightarrow> ('ip \<Rightarrow> bool) list option \<Rightarrow>
   (factory_error, 'ip sync_strategy) result" where
  "new_strategy lib cfg has_reloader resolver =
     (case cfg of
        None \<Rightarrow> Err NilConfig
      | Some c \<Rightarrow>
          (if \<not> has_reloader then Err NilReloader
           else if sy_strategy c = ''watch'' then Ok (WatchStrategy (new_watch_strategy []))
           else if sy_strategy c = ''webhook'' then
             (case resolver of
                None \<Rightarrow> Err (WebhookSetup NoResolver)
              | Some nets \<Rightarrow>
                  (case new_webhook (sy_webhook c) (Some nets) of
                     Inl e \<Rightarrow> Err (WebhookSetup e)
                   | Inr (ws, st) \<Rightarrow> Ok (WebhookStrategy ws st)))
           else if sy_strategy c = ''sidecar'' then Ok (SidecarStrategy new_sidecar_strategy)
           else if sy_strategy c = ''poll'' then
             (case new_poll_from_config lib c has_reloader of Inl e \<Rightarrow> Err e | Inr p \<Rightarrow> Ok (PollStrategy p))
           else Err (UnknownStrategy (sy_strategy c))))"

subsection \<open>The watchers debounce\<close>

lemma try_watch_dir_simps [simp]:
  "wt_alive (try_watch_dir ca p f w) = wt_alive w" "wt_armed (try_watch_dir ca p f w) = wt_armed w"
  by (simp_all add: try_watch_dir_def split: option.split dtree.split)

interpretation wd: debounced "watch_select can_add" wt_armed wt_alive
    "\<lambda>(ev, found). is_watched_file (ev_name ev)" debounce_delay
  by unfold_locales
    (auto simp: watch_select_def debounce_delay_def Let_def split: option.splits if_splits)

interpretation sd: debounced sidecar_select sd_armed sd_alive is_symlink_event debounce_delay
  by unfold_locales
    (auto simp: sidecar_select_def debounce_delay_def split: option.splits if_splits)

text \<open>
  C21. The file watcher reloads once per burst of changes, never in the middle of one, and
  loses none: in any trace at non-decreasing times from a started watcher, reloads are at least
  half a second apart, none happens within half a second after a change of a watched file, and
  while the loop lives with no timer running every change has been followed by a reload. The sidecar watcher does the same for symlink events.
\<close>

theorem watchers_debounce:
  assumes "watch_start can_create can_add tree w = (None, w0)" and "\<not> wt_started w" and "wt_armed w = None"
    and "loop_run (watch_select can_add) xs w0 = (w', rs)" and "sorted (sel_times xs)"
    and "sd_armed s = None" and "loop_run sidecar_select ys s = (s', ts)" and "sorted (sel_times ys)"
  shows "sorted_wrt (\<lambda>a b. a + 500000000 \<le> b) rs \<and>
    (\<forall>t ev f. Event t (ev, f) \<in> set xs \<and> is_watched_file (ev_name ev) \<longrightarrow>
       (\<forall>r \<in> set rs. t + 500000000 \<le> r \<or> r \<le> t) \<and>
       (wt_alive w' \<and> wt_armed w' = None \<longrightarrow> (\<exists>r \<in> set rs. t + 500000000 \<le> r))) \<and>
    sorted_wrt (\<lambda>a b. a + 500000000 \<le> b) ts \<and>
    (\<forall>t ev. Event t ev \<in> set ys \<and> is_symlink_event ev \<longrightarrow>
       (\<forall>r \<in> set ts. t + 500000000 \<le> r \<or> r \<le> t) \<and>
       (sd_alive s' \<and> sd_armed s' = None \<longrightarrow> (\<exists>r \<in> set ts. t + 500000000 \<le> r)))"
proof -
  have w0: "wt_armed w0 = None"
    using assms(1-3) by (auto simp: watch_start_def split: if_splits sum.splits)
  have c: "t \<in> set (wd.changes xs)" if "Event t (ev, f) \<in> set xs" "is_watched_file (ev_name ev)" for t ev f
    using that by (intro wd.changes_event) auto
  have d: "t \<in> set (sd.changes ys)" if "Event t ev \<in> set ys" "is_symlink_event ev" for t ev
    using that by (rule sd.changes_event)
  have k: "debounce_delay = 500000000" by (simp add: debounce_delay_def)
  show ?thesis
    using wd.debounces [OF assms(4) w0 assms(5)] sd.debounces [OF assms(7,6,8)] c d
    unfolding k by blast
qed

definition demo_event :: fs_event where
  "demo_event = \<lparr>ev_name = ''posts/a.md'', ev_create = True, ev_write = False, ev_remove = False, ev_rename = False\<rparr>"

theorem watchers_debounce_witness:
  "\<exists>w0 w' s'.
     watch_start True (\<lambda>_. True) (\<lambda>d. DirT d [FileT ''posts/a.md'']) (new_watch_strategy [''posts'']) = (None, w0) \<and>
     loop_run (watch_select (\<lambda>_. True)) [Event 0 (demo_event, Some (FileT ''posts/a.md'')), Fire 600000000] w0 =
       (w', [600000000]) \<and>
     (\<forall>r \<in> {600000000 :: int}. 0 + 500000000 \<le> r \<or> r \<le> 0)"
proof -
  let ?tree = "\<lambda>d. DirT d [FileT ''posts/a.md'']"
  let ?xs = "[Event 0 (demo_event, Some (FileT ''posts/a.md'')), Fire 600000000]"
  have p: "\<not> is_ignored_dir (path_base ''posts'')" "is_watched_file ''posts/a.md''" by code_simp+
  obtain w0 where w0: "watch_start True (\<lambda>_. True) ?tree (new_watch_strategy [''posts'']) = (None, w0)"
    "wt_alive w0" "wt_armed w0 = None"
    by (simp add: watch_start_def new_watch_strategy_def p)
  obtain w' where r: "loop_run (watch_select (\<lambda>_. True)) ?xs w0 = (w', [600000000])"
    using w0 by (simp add: watch_select_def demo_event_def p try_watch_dir_def debounce_delay_def Let_def)
  have n: "\<not> wt_started (new_watch_strategy [''posts''])" "wt_armed (new_watch_strategy [''posts'']) = None"
    by (simp_all add: new_watch_strategy_def)
  from watchers_debounce [OF w0(1) n r, of new_sidecar_strategy "[]" new_sidecar_strategy "[]"] p
  have "\<forall>r \<in> {600000000 :: int}. 0 + 500000000 \<le> r \<or> r \<le> 0"
    by (auto simp: new_sidecar_strategy_def demo_event_def)
  with w0(1) r show ?thesis by blast
qed

subsection \<open>A valid configuration has its strategy\<close>

lemma valid_strategy_cases:
  assumes "validate lib c = []"
  shows "sy_strategy (cg_sync c) \<in> {''watch'', ''webhook'', ''sidecar'', ''poll''}"
    and "sy_strategy (cg_sync c) = ''poll'' \<Longrightarrow>
      \<exists>d. cl_duration lib (sy_poll_interval (cg_sync c)) = Some d \<and> 30 * second \<le> d"
    and "sy_strategy (cg_sync c) = ''webhook'' \<Longrightarrow> validate_webhook lib (sy_webhook (cg_sync c)) = []"
  using assms
  by (auto simp: validate_def validate_sync_def valid_strategies_def not_less
      split: option.splits if_splits)

lemma valid_webhook_built:
  assumes "validate_webhook lib w = []"
  shows "\<exists>ws s. new_webhook w (Some nets) = Ok (ws, s) \<and> ws_config ws = w"
proof -
  have w: "\<not> length (wc_secret w) < 32" "has_prefix (wc_path w) ''/''"
    using assms by (simp_all add: validate_webhook_def)
  then have "wc_path w \<noteq> ''''" "hd (wc_path w) = sl" by (auto simp: has_prefix_iff)
  moreover have "wc_secret w \<noteq> ''''" using w(1) by auto
  ultimately show ?thesis using w by (simp add: new_webhook_def)
qed

lemma valid_strategy_built:
  assumes "validate lib c = []"
  shows "\<exists>s. new_strategy lib (Some (cg_sync c)) True (Some nets) = Ok s \<and>
    strategy_name s = sy_strategy (cg_sync c) \<and>
    (\<forall>p. s = PollStrategy p \<longrightarrow> 30 * 10 ^ 9 \<le> pl_interval p \<and>
       fst (poll_start p) = Some NoPuller \<and> fst (poll_start (poll_set_puller p)) = None)"
proof -
  consider "sy_strategy (cg_sync c) = ''watch''" | "sy_strategy (cg_sync c) = ''webhook''"
    | "sy_strategy (cg_sync c) = ''sidecar''" | "sy_strategy (cg_sync c) = ''poll''"
    using valid_strategy_cases(1) [OF assms] by blast
  then show ?thesis
  proof cases
    case 2
    from valid_webhook_built [OF valid_strategy_cases(3) [OF assms 2], of nets]
    show ?thesis using 2 by (auto simp: new_strategy_def strategy_name_def)
  next
    case 4
    from valid_strategy_cases(2) [OF assms 4] show ?thesis
      using 4 by (auto simp: new_strategy_def strategy_name_def new_poll_from_config_def
          new_poll_strategy_def poll_start_def poll_set_puller_def second_def)
  qed (simp_all add: new_strategy_def strategy_name_def)
qed

text \<open>
  The factory never refuses a configuration that validates: with a reloader and an
  address resolver it builds the strategy the configuration names; a polling one ticks no
  more often than every thirty seconds, and a loop calls the reloader for exactly the pulls
  that found a change, up to cancellation, whatever pulls fail.
\<close>

theorem factory_total:
  assumes "validate lib c = []"
  shows "(\<exists>s. new_strategy lib (Some (cg_sync c)) True (Some nets) = Ok s \<and>
    strategy_name s = sy_strategy (cg_sync c) \<and>
    (\<forall>p. s = PollStrategy p \<longrightarrow> 30 * 10 ^ 9 \<le> pl_interval p \<and>
       fst (poll_start p) = Some NoPuller \<and> fst (poll_start (poll_set_puller p)) = None)) \<and>
    poll_loop (map PollTick rs @ PollDone # xs) = map (\<lambda>r. r = Pulled True) rs"
proof (intro conjI)
  show "\<exists>s. new_strategy lib (Some (cg_sync c)) True (Some nets) = Ok s \<and>
    strategy_name s = sy_strategy (cg_sync c) \<and>
    (\<forall>p. s = PollStrategy p \<longrightarrow> 30 * 10 ^ 9 \<le> pl_interval p \<and>
       fst (poll_start p) = Some NoPuller \<and> fst (poll_start (poll_set_puller p)) = None)"
    by (rule valid_strategy_built [OF assms])
  have "poll_tick r = (r = Pulled True)" for r
    by (cases r) (auto simp: poll_tick_def)
  then show "poll_loop (map PollTick rs @ PollDone # xs) = map (\<lambda>r. r = Pulled True) rs"
    by (induction rs) simp_all
qed

theorem factory_total_witness:
  "\<exists>(lib :: string cfg_lib) s. validate lib default_config = [] \<and>
     new_strategy lib (Some (cg_sync default_config)) True (Some []) = Ok s \<and> strategy_name s = ''watch''"
proof -
  define lib where "lib = demo_cfg_lib\<lparr>cl_url := (\<lambda>u. Some (''http'', ''localhost:8080''))\<rparr>"
  have v: "validate lib default_config = []" by (rule default_valid) (simp add: lib_def)
  have n: "sy_strategy (cg_sync default_config) = ''watch''" by (simp add: default_config_def)
  obtain s where "new_strategy lib (Some (cg_sync default_config)) True (Some []) = Ok s"
    "strategy_name s = ''watch''"
    using factory_total [OF v, of "[]" "[]" "[]"] n by auto
  with v show ?thesis by blast
qed

end
