(* ===== verification/Git_Pull.thy ===== *)
theory Git_Pull
  imports Go_Paths Env_File
begin

text \<open>
  Cloning and pulling the content repository (\<open>internal/gitops/pull.go\<close>, \<open>redact.go\<close>). go-git and
  the calls of \<open>os\<close> that look at or change the checkout are the record \<open>git_lib\<close> over an opaque
  world, \<open>net/url\<close> is the record \<open>url_lib\<close>; beside the world stands the list of the calls that hand
  go-git a URL or credentials or delete files. Log lines (also those given once) and spans are
  left out.
\<close>

subsection \<open>Redaction\<close>

definition scheme_char :: "char \<Rightarrow> bool" where
  "scheme_char c \<longleftrightarrow> is_alpha_char c \<or> is_digit_char c \<or> c = CHR ''+'' \<or> c = CHR ''.'' \<or> c = CHR ''-''"

text \<open>
  \<open>userinfoPattern\<close> at the start of a text. After the scheme: the length of the longest run of
  characters other than a slash, a line break, a quote and a backslash, or pairs of a backslash
  and a character, that ends in \<open>@\<close>. The run splits into characters and pairs in one way, so the
  greedy match is the last \<open>@\<close> in it that is no part of a pair.
\<close>

fun userinfo_len :: "string \<Rightarrow> nat option" where
  "userinfo_len [] = None"
| "userinfo_len (c # s) =
     (if c = CHR ''@'' then (case userinfo_len s of None \<Rightarrow> Some 1 | Some n \<Rightarrow> Some (Suc n))
      else if c \<in> {sl, CHR 0x0D, CHR 0x0A, CHR 0x22} then None
      else if c = CHR 0x5C then
        (case s of [] \<Rightarrow> None
         | d # t \<Rightarrow> if d = CHR 0x0A then None else map_option (\<lambda>n. Suc (Suc n)) (userinfo_len t))
      else map_option Suc (userinfo_len s))"

definition scheme_sep :: string where
  "scheme_sep = ''://''"

text \<open>The scheme, the user information with its \<open>@\<close>, and what follows.\<close>

definition userinfo_match :: "string \<Rightarrow> (string \<times> string \<times> string) option" where
  "userinfo_match s =
     (case s of [] \<Rightarrow> None
      | c # cs \<Rightarrow>
          (let run = takeWhile scheme_char cs; t = dropWhile scheme_char cs in
           if is_alpha_char c \<and> has_prefix t scheme_sep
           then (case userinfo_len (drop 3 t) of
                   None \<Rightarrow> None
                 | Some n \<Rightarrow> Some (c # run, take n (drop 3 t), drop n (drop 3 t)))
           else None))"

lemma userinfo_match_shorter: "userinfo_match s = Some (scheme, u, r) \<Longrightarrow> length r < length s"
proof -
  assume a: "userinfo_match s = Some (scheme, u, r)"
  then obtain c cs n where s: "s = c # cs" and r: "r = drop n (drop 3 (dropWhile scheme_char cs))"
    by (auto simp: userinfo_match_def Let_def split: list.splits if_splits option.splits)
  have "length r \<le> length (dropWhile scheme_char cs)" unfolding r by simp
  also have "\<dots> \<le> length cs" by (rule length_dropWhile_le)
  finally show ?thesis by (simp add: s)
qed

definition redacted_mark :: string where
  "redacted_mark = ''[REDACTED]@''"

function redact_credentials :: "string \<Rightarrow> string" where
  "redact_credentials s =
     (case userinfo_match s of
        Some (scheme, u, r) \<Rightarrow> scheme @ scheme_sep @ redacted_mark @ redact_credentials r
      | None \<Rightarrow> (case s of [] \<Rightarrow> [] | c # t \<Rightarrow> c # redact_credentials t))"
  by pat_completeness auto
termination
  by (relation "measure length") (auto dest: userinfo_match_shorter)

declare redact_credentials.simps [simp del]

datatype pull_error =
    MalformedRepoURL
  | SparseNotRelative string
  | SparseTraversal string
  | Failed string
  | Redacted string   \<comment> \<open>the text of the wrapped error\<close>

text \<open>The message; the ones without text of another component are abbreviated.\<close>

definition error_text :: "pull_error \<Rightarrow> string" where
  "error_text e =
     (case e of
        MalformedRepoURL \<Rightarrow> ''gitops: repo URL is malformed''
      | SparseNotRelative d \<Rightarrow> ''gitops: sparse dir must be relative, got '' @ d
      | SparseTraversal d \<Rightarrow> ''gitops: sparse dir must not contain path traversal, got '' @ d
      | Failed s \<Rightarrow> s
      | Redacted s \<Rightarrow> redact_credentials s)"

definition redact_error :: "pull_error \<Rightarrow> pull_error" where
  "redact_error e = (case e of Redacted s \<Rightarrow> e | _ \<Rightarrow> Redacted (error_text e))"

subsection \<open>Repository URLs\<close>

record 'u url_lib =
  ul_parse :: "string \<Rightarrow> 'u option"
  ul_scheme :: "'u \<Rightarrow> string"
  ul_user :: "'u \<Rightarrow> (string \<times> string option) option"
  ul_anonymous :: "'u \<Rightarrow> 'u"   \<comment> \<open>\<open>u.User = nil\<close>\<close>
  ul_string :: "'u \<Rightarrow> string"

datatype transport_auth = PublicKeys string string | BasicAuth string string

definition valid_scheme :: "string \<Rightarrow> bool" where
  "valid_scheme s \<longleftrightarrow> s \<noteq> '''' \<and> is_alpha_char (hd s) \<and> list_all scheme_char s"

definition ambiguous_scheme_url :: "'u url_lib \<Rightarrow> string \<Rightarrow> string option" where
  "ambiguous_scheme_url ul raw =
     (let t = trim_space raw in
      case index_of t scheme_sep of
        None \<Rightarrow> None
      | Some i \<Rightarrow>
          (let scheme = take i t; rest = drop (i + 3) t in
           if \<not> valid_scheme scheme then None
           else if ul_parse ul t = None then Some scheme
           else if CHR ''@'' \<in> set (dropWhile (\<lambda>c. c \<notin> {sl, CHR ''?'', CHR 0x23}) rest) then Some scheme
           else None))"

definition unparseable_placeholder :: string where
  "unparseable_placeholder = ''[unparseable URL redacted]''"

definition sanitize_url :: "'u url_lib \<Rightarrow> string \<Rightarrow> string" where
  "sanitize_url ul raw =
     (case ambiguous_scheme_url ul raw of
        Some scheme \<Rightarrow> scheme @ scheme_sep @ unparseable_placeholder
      | None \<Rightarrow>
          (case ul_parse ul raw of
             None \<Rightarrow> redact_credentials raw
           | Some u \<Rightarrow> if ul_user ul u = None then raw else ul_string ul (ul_anonymous ul u)))"

definition check_repo_url :: "'u url_lib \<Rightarrow> string \<Rightarrow> pull_error option" where
  "check_repo_url ul raw = (if ambiguous_scheme_url ul raw \<noteq> None then Some MalformedRepoURL else None)"

definition split_http_credentials :: "'u url_lib \<Rightarrow> string \<Rightarrow> string \<times> transport_auth option" where
  "split_http_credentials ul raw =
     (case ul_parse ul raw of
        None \<Rightarrow> (raw, None)
      | Some u \<Rightarrow>
          (case ul_user ul u of
             None \<Rightarrow> (raw, None)
           | Some (name, pass) \<Rightarrow>
               (if to_lower_ascii (ul_scheme ul u) \<in> {''http'', ''https''}
                then (ul_string ul (ul_anonymous ul u), Some (BasicAuth name (case pass of None \<Rightarrow> '''' | Some q \<Rightarrow> q)))
                else (raw, None))))"

subsection \<open>The puller\<close>

record puller =
  pl_auth :: "transport_auth option"
  pl_sparse :: "string list"
  pl_depth :: int

text \<open>\<open>depths\<close>: the options \<open>WithCloneDepth\<close> given, in order.\<close>

definition with_clone_depth :: "int \<Rightarrow> puller \<Rightarrow> puller" where
  "with_clone_depth depth p = p\<lparr>pl_depth := (if depth < 1 then 1 else depth)\<rparr>"

definition new_puller ::
  "(string \<Rightarrow> (string, string) result) \<Rightarrow> auth_config option \<Rightarrow> int list \<Rightarrow> (string, puller) result" where
  "new_puller ssh_keys cfg depths =
     (let a = (case cfg of None \<Rightarrow> \<lparr>au_method = AuthNone, au_ssh_key_path = '''', au_token = ''''\<rparr> | Some a \<Rightarrow> a);
          auth = (case au_method a of
              AuthSSH \<Rightarrow> (case ssh_keys (au_ssh_key_path a) of
                  Inl e \<Rightarrow> Err (''gitops: loading SSH key: '' @ e)
                | Inr keys \<Rightarrow> Ok (Some (PublicKeys ''git'' keys)))
            | AuthToken \<Rightarrow> Ok (Some (BasicAuth ''x-access-token'' (au_token a)))
            | AuthNone \<Rightarrow> Ok None) in
      case auth of
        Inl e \<Rightarrow> Err e
      | Inr au \<Rightarrow> Ok (fold with_clone_depth depths \<lparr>pl_auth = au, pl_sparse = [], pl_depth = 1\<rparr>))"

definition resolve_remote :: "'u url_lib \<Rightarrow> puller \<Rightarrow> string \<Rightarrow> string \<times> transport_auth option" where
  "resolve_remote ul p url =
     (case split_http_credentials ul url of
        (clean_url, url_auth) \<Rightarrow>
          if pl_auth p \<noteq> None \<or> url_auth = None then (clean_url, pl_auth p) else (clean_url, url_auth))"

fun validate_sparse_dirs :: "string list \<Rightarrow> (pull_error, string list) result" where
  "validate_sparse_dirs [] = Ok []"
| "validate_sparse_dirs (d0 # ds) =
     (let d = clean d0 in
      if d = ''.'' \<or> d = '''' then validate_sparse_dirs ds
      else if is_abs d then Err (SparseNotRelative d)
      else if d = ''..'' \<or> has_prefix d ''../'' \<or> contains d ''/../'' then Err (SparseTraversal d)
      else case validate_sparse_dirs ds of Inl e \<Rightarrow> Err e | Inr cs \<Rightarrow> Ok (d # cs))"

subsection \<open>go-git\<close>

record clone_options =
  co_url :: string
  co_auth :: "transport_auth option"
  co_branch :: string
  co_depth :: int
  co_no_checkout :: bool

datatype fetch_outcome = Fetched | AlreadyUpToDate | FetchFailed string

record 'w git_lib =
  gt_has_git :: "string \<Rightarrow> 'w \<Rightarrow> bool"
  gt_open :: "string \<Rightarrow> 'w \<Rightarrow> string option"
  gt_head :: "string \<Rightarrow> 'w \<Rightarrow> (string, string) result"
  gt_remotes :: "string \<Rightarrow> 'w \<Rightarrow> (string, string list list) result"
  gt_set_remotes :: "string \<Rightarrow> string list list \<Rightarrow> 'w \<Rightarrow> string option \<times> 'w"
  gt_fetch :: "string \<Rightarrow> transport_auth option \<Rightarrow> int \<Rightarrow> 'w \<Rightarrow> fetch_outcome \<times> 'w"
  gt_remote_ref :: "string \<Rightarrow> string \<Rightarrow> 'w \<Rightarrow> (string, string) result"
  gt_worktree :: "string \<Rightarrow> 'w \<Rightarrow> string option"
  gt_reset :: "string \<Rightarrow> string \<Rightarrow> 'w \<Rightarrow> string option \<times> 'w"
  gt_clone :: "string \<Rightarrow> clone_options \<Rightarrow> 'w \<Rightarrow> string option \<times> 'w"
  gt_checkout :: "string \<Rightarrow> string \<Rightarrow> string list \<Rightarrow> 'w \<Rightarrow> string option \<times> 'w"
  gt_read_dir :: "string \<Rightarrow> 'w \<Rightarrow> (string, string list) result"
  gt_remove_all :: "string \<Rightarrow> 'w \<Rightarrow> string option \<times> 'w"

datatype git_call =
    CloneCall string clone_options
  | FetchCall string "transport_auth option"
  | SetRemotesCall string "string list list"
  | RemoveAllCall string

type_synonym 'w git_state = "'w \<times> git_call list"

definition calling :: "git_call \<Rightarrow> ('w \<Rightarrow> 'a \<times> 'w) \<Rightarrow> 'w git_state \<Rightarrow> 'a \<times> 'w git_state" where
  "calling c f s = (case s of (w, cs) \<Rightarrow> case f w of (a, w') \<Rightarrow> (a, (w', cs @ [c])))"

subsection \<open>Persisted credentials\<close>

definition scrub_url :: "'u url_lib \<Rightarrow> string \<Rightarrow> string" where
  "scrub_url ul u = (case split_http_credentials ul u of (c, auth) \<Rightarrow> if auth \<noteq> None then c else u)"

definition carries_credentials :: "'u url_lib \<Rightarrow> string \<Rightarrow> bool" where
  "carries_credentials ul u \<longleftrightarrow> snd (split_http_credentials ul u) \<noteq> None"

definition scrub_remote_credentials ::
  "'u url_lib \<Rightarrow> 'w git_lib \<Rightarrow> string \<Rightarrow> 'w git_state \<Rightarrow> (bool \<times> string option) \<times> 'w git_state" where
  "scrub_remote_credentials ul gl dest s =
     (case gt_remotes gl dest (fst s) of
        Inl e \<Rightarrow> ((False, Some e), s)
      | Inr remotes \<Rightarrow>
          (if \<not> list_ex (list_ex (carries_credentials ul)) remotes then ((False, None), s)
           else let clean_remotes = map (map (scrub_url ul)) remotes;
                  (e, s') = calling (SetRemotesCall dest clean_remotes) (gt_set_remotes gl dest clean_remotes) s
                in ((True, e), s')))"

definition has_persisted_credentials :: "'u url_lib \<Rightarrow> 'w git_lib \<Rightarrow> string \<Rightarrow> 'w git_state \<Rightarrow> bool" where
  "has_persisted_credentials ul gl dest s =
     (case gt_remotes gl dest (fst s) of
        Inl e \<Rightarrow> False
      | Inr remotes \<Rightarrow> list_ex (list_ex (carries_credentials ul)) remotes)"

subsection \<open>Clone\<close>

definition clone_body ::
  "'u url_lib \<Rightarrow> 'w git_lib \<Rightarrow> puller \<Rightarrow> string \<Rightarrow> string \<Rightarrow> string \<Rightarrow> 'w git_state \<Rightarrow>
   pull_error option \<times> 'w git_state" where
  "clone_body ul gl p url branch dest s =
     (let sparse = pl_sparse p \<noteq> []; (clone_url, auth) = resolve_remote ul p url;
          opts = \<lparr>co_url = clone_url, co_auth = auth, co_branch = branch, co_depth = pl_depth p, co_no_checkout = sparse\<rparr> in
      case calling (CloneCall dest opts) (gt_clone gl dest opts) s of
        (Some e, s1) \<Rightarrow> (Some (Failed (''gitops: clone '' @ sanitize_url ul url @ '': '' @ e)), s1)
      | (None, s1) \<Rightarrow>
          (if \<not> sparse then (None, s1)
           else case gt_worktree gl dest (fst s1) of
               Some e \<Rightarrow> (Some (Failed (''gitops: worktree after clone '' @ sanitize_url ul url @ '': '' @ e)), s1)
             | None \<Rightarrow>
                 (case gt_checkout gl dest branch (pl_sparse p) (fst s1) of
                    (Some e, w) \<Rightarrow> (Some (Failed (''gitops: sparse checkout '' @ sanitize_url ul url @ '': '' @ e)), (w, snd s1))
                  | (None, w) \<Rightarrow> (None, (w, snd s1)))))"

definition clone_repo ::
  "'u url_lib \<Rightarrow> 'w git_lib \<Rightarrow> puller \<Rightarrow> string \<Rightarrow> string \<Rightarrow> string \<Rightarrow> 'w git_state \<Rightarrow>
   pull_error option \<times> 'w git_state" where
  "clone_repo ul gl p url branch dest s =
     (case clone_body ul gl p url branch dest s of (e, s') \<Rightarrow> (map_option redact_error e, s'))"

subsection \<open>Pull\<close>

definition top_component :: "string \<Rightarrow> string" where
  "top_component d = takeWhile (\<lambda>c. c \<noteq> sl) d"

fun remove_entries :: "'w git_lib \<Rightarrow> string \<Rightarrow> string set \<Rightarrow> string list \<Rightarrow> 'w git_state \<Rightarrow> string option \<times> 'w git_state" where
  "remove_entries gl dest allowed [] s = (None, s)"
| "remove_entries gl dest allowed (name # names) s =
     (if name = ''.git'' \<or> name \<in> allowed then remove_entries gl dest allowed names s
      else case calling (RemoveAllCall (path_join dest name)) (gt_remove_all gl (path_join dest name)) s of
          (Some e, s1) \<Rightarrow> (Some (''remove '' @ name @ '': '' @ e), s1)
        | (None, s1) \<Rightarrow> remove_entries gl dest allowed names s1)"

definition clean_non_sparse_paths :: "'w git_lib \<Rightarrow> puller \<Rightarrow> string \<Rightarrow> 'w git_state \<Rightarrow> string option \<times> 'w git_state" where
  "clean_non_sparse_paths gl p dest s =
     (case gt_read_dir gl dest (fst s) of
        Inl e \<Rightarrow> (Some (''read dir '' @ dest @ '': '' @ e), s)
      | Inr names \<Rightarrow> remove_entries gl dest (set (map top_component (pl_sparse p))) names s)"

text \<open>After a fetch that brought something: the worktree is reset to the remote branch.\<close>

definition fast_forward ::
  "'w git_lib \<Rightarrow> puller \<Rightarrow> string \<Rightarrow> string \<Rightarrow> string \<Rightarrow> 'w git_state \<Rightarrow> (bool \<times> pull_error option) \<times> 'w git_state" where
  "fast_forward gl p branch dest before s =
     (let fail = (\<lambda>what e. (False, Some (Failed (''gitops: '' @ what @ '' '' @ dest @ '': '' @ e)))) in
      case gt_remote_ref gl dest branch (fst s) of
        Inl e \<Rightarrow> (fail ''resolve remote ref'' e, s)
      | Inr hash \<Rightarrow>
      (case gt_worktree gl dest (fst s) of
        Some e \<Rightarrow> (fail ''worktree'' e, s)
      | None \<Rightarrow>
      (case gt_reset gl dest hash (fst s) of
        (Some e, w) \<Rightarrow> (fail ''reset'' e, (w, snd s))
      | (None, w) \<Rightarrow>
      (case gt_head gl dest w of
        Inl e \<Rightarrow> (fail ''head after pull'' e, (w, snd s))
      | Inr after \<Rightarrow>
          (if after \<noteq> before \<and> pl_sparse p \<noteq> []
           then (case clean_non_sparse_paths gl p dest (w, snd s) of
                   (Some e, s2) \<Rightarrow> (fail ''sparse cleanup after pull'' e, s2)
                 | (None, s2) \<Rightarrow> ((True, None), s2))
           else ((after \<noteq> before, None), (w, snd s)))))))"

definition pull_body ::
  "'u url_lib \<Rightarrow> 'w git_lib \<Rightarrow> puller \<Rightarrow> string \<Rightarrow> string \<Rightarrow> string \<Rightarrow> 'w git_state \<Rightarrow>
   (bool \<times> pull_error option) \<times> 'w git_state" where
  "pull_body ul gl p url branch dest s =
     (case gt_open gl dest (fst s) of
        Some e \<Rightarrow> ((False, Some (Failed (''gitops: open repo '' @ dest @ '': '' @ e))), s)
      | None \<Rightarrow>
      (case gt_head gl dest (fst s) of
        Inl e \<Rightarrow> ((False, Some (Failed (''gitops: head '' @ dest @ '': '' @ e))), s)
      | Inr before \<Rightarrow>
          (let auth = snd (resolve_remote ul p url);
               s1 = (if auth = None then s else snd (scrub_remote_credentials ul gl dest s)) in
           case calling (FetchCall dest auth) (gt_fetch gl dest auth (pl_depth p)) s1 of
             (Fetched, s2) \<Rightarrow> fast_forward gl p branch dest before s2
           | (AlreadyUpToDate, s2) \<Rightarrow> ((False, None), s2)
           | (FetchFailed _, s2) \<Rightarrow>
               (case calling (RemoveAllCall dest) (gt_remove_all gl dest) s2 of
                  (Some e, s3) \<Rightarrow>
                    ((False, Some (Failed (''gitops: failed to clear for re-clone '' @ dest @ '': '' @ e))), s3)
                | (None, s3) \<Rightarrow>
                    (case clone_repo ul gl p url branch dest s3 of
                       (Some e, s4) \<Rightarrow> ((False, Some e), s4)
                     | (None, s4) \<Rightarrow> ((True, None), s4))))))"

definition pull_repo ::
  "'u url_lib \<Rightarrow> 'w git_lib \<Rightarrow> puller \<Rightarrow> string \<Rightarrow> string \<Rightarrow> string \<Rightarrow> 'w git_state \<Rightarrow>
   (bool \<times> pull_error option) \<times> 'w git_state" where
  "pull_repo ul gl p url branch dest s =
     (case pull_body ul gl p url branch dest s of ((ch, e), s') \<Rightarrow> ((ch, map_option redact_error e), s'))"

text \<open>The result, the puller with its directories cleaned, and the state.\<close>

definition clone_or_pull ::
  "'u url_lib \<Rightarrow> 'w git_lib \<Rightarrow> puller \<Rightarrow> string \<Rightarrow> string \<Rightarrow> string \<Rightarrow> 'w git_state \<Rightarrow>
   (bool \<times> pull_error option) \<times> puller \<times> 'w git_state" where
  "clone_or_pull ul gl p url branch dest s =
     (case check_repo_url ul url of
        Some e \<Rightarrow> ((False, Some e), p, s)
      | None \<Rightarrow>
          (case (if pl_sparse p = [] then Ok [] else validate_sparse_dirs (pl_sparse p)) of
             Inl e \<Rightarrow> ((False, Some e), p, s)
           | Inr dirs \<Rightarrow>
               (let p1 = p\<lparr>pl_sparse := dirs\<rparr> in
                if gt_has_git gl dest (fst s)
                then (case pull_repo ul gl p1 url branch dest s of
                        ((ch, e), s') \<Rightarrow> ((ch, map_option redact_error e), p1, s'))
                else (case clone_repo ul gl p1 url branch dest s of
                        (e, s') \<Rightarrow> ((True, map_option redact_error e), p1, s')))))"

subsection \<open>Redacted text\<close>




lemma redact_Nil [simp]: "redact_credentials [] = []"
  by (simp add: redact_credentials.simps [of "[]"] userinfo_match_def)














lemma mark_no_scheme: "list_all (\<lambda>c. \<not> (is_alpha_char c)) ''[]@''"
  by (simp add: is_alpha_char_def)







subsection \<open>What reaches go-git\<close>







text \<open>The credentials a call may use: the configured ones, else those a parsed http(s) URL has.\<close>

definition usable_auth :: "'u url_lib \<Rightarrow> puller \<Rightarrow> string \<Rightarrow> transport_auth option" where
  "usable_auth ul p url =
     (if pl_auth p \<noteq> None then pl_auth p
      else case ul_parse ul url of
          None \<Rightarrow> None
        | Some u \<Rightarrow> if to_lower_ascii (ul_scheme ul u) \<in> {''http'', ''https''}
            then map_option (\<lambda>(name, pass). BasicAuth name (case pass of None \<Rightarrow> '''' | Some q \<Rightarrow> q)) (ul_user ul u)
            else None)"













lemma resolve_remote_ok:
  "resolve_remote ul p url = (fst (split_http_credentials ul url), usable_auth ul p url)"
  by (auto simp: resolve_remote_def usable_auth_def split_http_credentials_def split: prod.split option.split)
















subsection \<open>Outcomes of a pull\<close>

text \<open>
  A fetch that brought something is reported as a change exactly when it moved the head.
\<close>

theorem fetched_change_exact:
  assumes "fast_forward gl p branch dest before s = ((changed, None), s')"
  shows "\<exists>hash w after. gt_remote_ref gl dest branch (fst s) = Ok hash \<and> gt_reset gl dest hash (fst s) = (None, w) \<and>
    gt_head gl dest w = Ok after \<and> (changed \<longleftrightarrow> after \<noteq> before)"
  using assms by (auto simp: fast_forward_def Let_def split: sum.splits option.splits prod.splits if_splits)

text \<open>
  Any failure of the fetch, also one of the network, deletes the checkout before the clone that
  is to replace it: when that fails too, the content is gone.
\<close>

theorem failed_fetch_loses_checkout:
  assumes "ambiguous_scheme_url ul url = None" and "pl_sparse p = []" and "usable_auth ul p url = None"
    and "gt_has_git gl dest w" and "gt_open gl dest w = None" and "gt_head gl dest w = Ok before"
    and "gt_fetch gl dest None (pl_depth p) w = (FetchFailed e1, w1)" and "gt_remove_all gl dest w1 = (None, w2)"
    and "\<forall>opts. gt_clone gl dest opts w2 = (Some e2, w2)"
  shows "\<exists>opts err. clone_or_pull ul gl p url branch dest (w, []) =
    ((False, Some err), p, (w2, [FetchCall dest None, RemoveAllCall dest, CloneCall dest opts]))"
proof -
  have p: "p\<lparr>pl_sparse := []\<rparr> = p" using assms(2) by (cases p) simp
  show ?thesis
    using assms
    by (simp add: clone_or_pull_def check_repo_url_def pull_repo_def pull_body_def resolve_remote_ok calling_def
        clone_repo_def clone_body_def Let_def p)
qed

end
