(* ===== verification/Search_Index.thy ===== *)
theory Search_Index
  imports Scanner Config "HOL-Library.AList"
begin

text \<open>
  The search index (\<open>internal/search/tokenizer.go\<close>, \<open>index.go\<close>): normalization, tokens, the
  per-document term frequencies and the build with its caps. The Unicode tables
  (\<open>unicode.IsLetter\<close>, \<open>IsDigit\<close>, \<open>strings.ToLower\<close>), \<open>norm.NFC\<close> and \<open>html.UnescapeString\<close>
  are the fields of \<open>text_lib\<close>. Go's maps are association lists, in the order of insertion;
  what the code computes by ranging over one does not depend on that order.
\<close>

subsection \<open>Tokens\<close>

record text_lib =
  tl_nfc :: "string \<Rightarrow> string"
  tl_lower :: "string \<Rightarrow> string"
  tl_token_rune :: "nat \<Rightarrow> bool"
  tl_unescape :: "string \<Rightarrow> string"

definition normalize :: "text_lib \<Rightarrow> string \<Rightarrow> string" where
  "normalize lib s = tl_lower lib (tl_nfc lib s)"

text \<open>The loop over the runes of \<open>s\<close>; \<open>cur\<close> is the token begun, empty for none.\<close>

function tokenize_from :: "(nat \<Rightarrow> bool) \<Rightarrow> string \<Rightarrow> string \<Rightarrow> string list" where
  "tokenize_from is_token cur s =
     (if s = [] then (if cur = [] then [] else [cur])
      else let (r, w) = decode_rune s in
        if is_token r then tokenize_from is_token (cur @ take w s) (drop w s)
        else (if cur = [] then [] else [cur]) @ tokenize_from is_token [] (drop w s))"
  by pat_completeness auto
termination
proof (relation "measure (\<lambda>(p, c, s). length s)")
  have "s \<noteq> [] \<Longrightarrow> (r, w) = decode_rune s \<Longrightarrow> length (drop w s) < length s" for s r w
    using decode_rune_width [of s] by (metis One_nat_def Suc_le_lessD diff_less length_drop length_greater_0_conv snd_conv)
  then show "\<And>p c s x r w. s \<noteq> [] \<Longrightarrow> x = decode_rune s \<Longrightarrow> (r, w) = x \<Longrightarrow> p r \<Longrightarrow>
      ((p, c @ take w s, drop w s), p, c, s) \<in> measure (\<lambda>(p, c, s). length s)"
    and "\<And>p c s x r w. s \<noteq> [] \<Longrightarrow> x = decode_rune s \<Longrightarrow> (r, w) = x \<Longrightarrow> \<not> p r \<Longrightarrow>
      ((p, [], drop w s), p, c, s) \<in> measure (\<lambda>(p, c, s). length s)"
    by auto
qed simp

declare tokenize_from.simps [simp del]

definition tokenize :: "text_lib \<Rightarrow> string \<Rightarrow> string list" where
  "tokenize lib s = tokenize_from (tl_token_rune lib) [] (normalize lib s)"

text \<open>Unique terms in lexicographic order.\<close>

definition parse_query_terms :: "text_lib \<Rightarrow> string \<Rightarrow> string list" where
  "parse_query_terms lib q = sort (remdups (tokenize lib q))"

definition rune_len :: "string \<Rightarrow> nat" where
  "rune_len s = length (runes s)"

definition normalize_query :: "text_lib \<Rightarrow> string \<Rightarrow> string" where
  "normalize_query lib raw = normalize lib (trim_space raw)"

definition count_query_terms :: "text_lib \<Rightarrow> string \<Rightarrow> nat" where
  "count_query_terms lib q = length (parse_query_terms lib q)"

subsection \<open>Documents\<close>

datatype field = FieldTitle | FieldTag | FieldBody

record posting =
  pg_doc :: nat
  pg_tf :: nat
  pg_field :: field

record search_doc =
  sd_id :: nat
  sd_slug :: string
  sd_title :: string
  sd_tags :: "string list"
  sd_date :: go_time

type_synonym term_freq = "(string \<times> nat) list"

text \<open>\<open>addField\<close>: one more of each token, up to 255, and the token into the union.\<close>

definition add_token :: "string \<Rightarrow> term_freq \<times> string list \<Rightarrow> term_freq \<times> string list" where
  "add_token t s =
     (case s of (tf, terms) \<Rightarrow>
       (let n = (case map_of tf t of None \<Rightarrow> 0 | Some n \<Rightarrow> n) in
        (if n < 255 then AList.update t (n + 1) tf else tf,
         if t \<in> set terms then terms else terms @ [t])))"

definition add_field :: "string list \<Rightarrow> term_freq \<times> string list \<Rightarrow> term_freq \<times> string list" where
  "add_field tokens s = fold add_token tokens s"

record doc_build =
  db_title :: term_freq
  db_tag :: term_freq
  db_body :: term_freq
  db_terms :: "string list"

definition build_doc :: "text_lib \<Rightarrow> post \<Rightarrow> doc_build" where
  "build_doc lib p =
     (let (title, terms1) = add_field (tokenize lib (fm_title (po_fm p))) ([], []);
          (tag, terms2) = fold (\<lambda>tag. add_field (tokenize lib tag)) (fm_tags (po_fm p)) ([], terms1);
          (body, terms3) = add_field (tokenize lib (plain_text (tl_unescape lib) p)) ([], terms2)
      in \<lparr>db_title = title, db_tag = tag, db_body = body, db_terms = terms3\<rparr>)"

subsection \<open>The index\<close>

datatype truncation = TruncationNone | TruncationMaxDocs | TruncationMaxTokens | TruncationMaxBytes

record search_index =
  sx_docs :: "search_doc list"
  sx_postings :: "string \<rightharpoonup> posting list"
  sx_doc_freq :: "string \<Rightarrow> nat"
  sx_bytes :: int
  sx_tokens :: nat
  sx_truncated :: bool
  sx_reason :: truncation
  sx_generation :: nat
  sx_cfg :: search_config

definition per_doc_overhead_bytes :: int where "per_doc_overhead_bytes = 16"
definition per_token_overhead_bytes :: int where "per_token_overhead_bytes = 48"

definition posting_count :: "doc_build \<Rightarrow> nat" where
  "posting_count d = length (db_title d) + length (db_tag d) + length (db_body d)"

definition candidate_bytes :: "post \<Rightarrow> doc_build \<Rightarrow> search_index \<Rightarrow> int" where
  "candidate_bytes p cand si =
     int (length (po_slug p)) + int (length (fm_title (po_fm p))) + per_doc_overhead_bytes +
     (\<Sum>tag\<leftarrow>fm_tags (po_fm p). int (length tag)) +
     int (posting_count cand) * 8 +
     (\<Sum>term\<leftarrow>db_terms cand. if sx_postings si term = None
        then int (length term) + per_token_overhead_bytes else 0)"

definition mark_truncated :: "truncation \<Rightarrow> search_index \<Rightarrow> search_index" where
  "mark_truncated r si =
     si\<lparr>sx_truncated := True, sx_reason := (if sx_reason si = TruncationNone then r else sx_reason si)\<rparr>"

definition add_posting :: "nat \<Rightarrow> term_freq \<Rightarrow> field \<Rightarrow> string \<Rightarrow> search_index \<Rightarrow> search_index" where
  "add_posting i tf fld t si =
     si\<lparr>sx_postings := append_at t \<lparr>pg_doc = i, pg_tf = the (map_of tf t), pg_field = fld\<rparr> (sx_postings si),
        sx_tokens := sx_tokens si + 1\<rparr>"

definition add_postings :: "nat \<Rightarrow> term_freq \<Rightarrow> field \<Rightarrow> search_index \<Rightarrow> search_index" where
  "add_postings i tf fld si = fold (add_posting i tf fld) (sort (map fst tf)) si"

text \<open>Document numbers are \<open>uint32\<close>.\<close>

definition admit :: "post \<Rightarrow> doc_build \<Rightarrow> int \<Rightarrow> search_index \<Rightarrow> search_index" where
  "admit p cand delta si =
     (let i = length (sx_docs si) mod 2 ^ 32;
          si1 = si\<lparr>sx_docs := sx_docs si @
            [\<lparr>sd_id = i, sd_slug = po_slug p, sd_title = fm_title (po_fm p),
              sd_tags = fm_tags (po_fm p), sd_date = fm_date (po_fm p)\<rparr>]\<rparr>;
          si2 = add_postings i (db_body cand) FieldBody
            (add_postings i (db_tag cand) FieldTag (add_postings i (db_title cand) FieldTitle si1))
      in si2\<lparr>sx_doc_freq := fold (\<lambda>t df. df(t := df t + 1)) (db_terms cand) (sx_doc_freq si2),
             sx_bytes := sx_bytes si2 + delta\<rparr>)"

text \<open>The loop; \<open>live i\<close> tells whether the context is still live at the \<open>i\<close>-th post.\<close>

fun build_posts :: "text_lib \<Rightarrow> (nat \<Rightarrow> bool) \<Rightarrow> nat \<Rightarrow> post list \<Rightarrow> search_index \<Rightarrow> search_index" where
  "build_posts lib live i [] si = si"
| "build_posts lib live i (p # ps) si =
     (if \<not> live i then si
      else let cand = build_doc lib p; delta = candidate_bytes p cand si; cfg = sx_cfg si in
        if 0 < se_max_docs cfg \<and> se_max_docs cfg \<le> int (length (sx_docs si))
        then mark_truncated TruncationMaxDocs si
        else if 0 < se_max_tokens cfg \<and> se_max_tokens cfg < int (sx_tokens si + posting_count cand)
        then mark_truncated TruncationMaxTokens si
        else if 0 < se_max_index_bytes cfg \<and> se_max_index_bytes cfg < sx_bytes si + delta
        then mark_truncated TruncationMaxBytes si
        else build_posts lib live (Suc i) ps (admit p cand delta si))"

definition build_index ::
  "text_lib \<Rightarrow> (nat \<Rightarrow> bool) \<Rightarrow> post list option \<Rightarrow> search_config \<Rightarrow> nat \<Rightarrow> search_index" where
  "build_index lib live idx cfg generation =
     (let si = \<lparr>sx_docs = [], sx_postings = Map.empty, sx_doc_freq = (\<lambda>_. 0), sx_bytes = 0, sx_tokens = 0,
            sx_truncated = False, sx_reason = TruncationNone, sx_generation = generation, sx_cfg = cfg\<rparr>
      in case idx of None \<Rightarrow> si | Some posts \<Rightarrow> build_posts lib live 0 posts si)"

subsection \<open>Term frequencies\<close>

definition field_tokens :: "text_lib \<Rightarrow> post \<Rightarrow> field \<Rightarrow> string list" where
  "field_tokens lib p fld =
     (case fld of
        FieldTitle \<Rightarrow> tokenize lib (fm_title (po_fm p))
      | FieldTag \<Rightarrow> concat (map (tokenize lib) (fm_tags (po_fm p)))
      | FieldBody \<Rightarrow> tokenize lib (plain_text (tl_unescape lib) p))"

definition tf_ok :: "string list \<Rightarrow> term_freq \<Rightarrow> bool" where
  "tf_ok toks tf \<longleftrightarrow> distinct (map fst tf) \<and>
     (\<forall>t. map_of tf t = (if t \<in> set toks then Some (min 255 (count_list toks t)) else None))"

definition terms_ok :: "string set \<Rightarrow> string list \<Rightarrow> bool" where
  "terms_ok T terms \<longleftrightarrow> distinct terms \<and> set terms = T"

lemma add_token_ok:
  assumes "tf_ok toks tf" and "terms_ok T terms" and "add_token t (tf, terms) = (tf', terms')"
  shows "tf_ok (toks @ [t]) tf' \<and> terms_ok (insert t T) terms'"
proof -
  let ?c = "count_list toks t"
  have m: "map_of tf = (\<lambda>u. if u \<in> set toks then Some (min 255 (count_list toks u)) else None)"
    and d: "distinct (map fst tf)"
    using assms(1) by (auto simp: tf_ok_def)
  have n: "(case map_of tf t of None \<Rightarrow> 0 | Some n \<Rightarrow> n) = min 255 ?c"
    by (simp add: m count_notin)
  have "tf_ok (toks @ [t]) tf'"
  proof (cases "min 255 ?c < 255")
    case True
    then have "tf' = AList.update t (min 255 ?c + 1) tf"
      using assms(3) True by (simp add: add_token_def Let_def n)
    then show ?thesis
      using True d by (auto simp: tf_ok_def AList.update_conv' AList.distinct_update m count_notin)
  next
    case False
    then have "tf' = tf"
      using assms(3) by (auto simp: add_token_def Let_def n)
    moreover have "t \<in> set toks"
      using False count_notin [of t toks] by (cases "t \<in> set toks") auto
    ultimately show ?thesis using False d by (auto simp: tf_ok_def m)
  qed
  moreover have "terms_ok (insert t T) terms'"
  proof -
    have "terms' = (if t \<in> set terms then terms else terms @ [t])"
      using assms(3) by (simp add: add_token_def Let_def)
    then show ?thesis using assms(2) by (auto simp: terms_ok_def)
  qed
  ultimately show ?thesis ..
qed

lemma add_field_ok:
  assumes "tf_ok toks tf" and "terms_ok T terms" and "add_field new (tf, terms) = (tf', terms')"
  shows "tf_ok (toks @ new) tf' \<and> terms_ok (T \<union> set new) terms'"
  using assms
proof (induction new arbitrary: toks tf T terms)
  case (Cons t new)
  obtain tf1 terms1 where s: "add_token t (tf, terms) = (tf1, terms1)" by fastforce
  from add_token_ok [OF Cons.prems(1,2) s] have
    ok: "tf_ok (toks @ [t]) tf1" "terms_ok (insert t T) terms1" by auto
  have "add_field new (tf1, terms1) = (tf', terms')"
    using Cons.prems(3) s by (simp add: add_field_def)
  from Cons.IH [OF ok this] show ?case by simp
qed (simp add: add_field_def)

lemma add_fields_ok:
  assumes "tf_ok toks tf" and "terms_ok T terms"
    and "fold (\<lambda>tag. add_field (tokenize lib tag)) tags (tf, terms) = (tf', terms')"
  shows "tf_ok (toks @ concat (map (tokenize lib) tags)) tf' \<and>
    terms_ok (T \<union> set (concat (map (tokenize lib) tags))) terms'"
  using assms
proof (induction tags arbitrary: toks tf T terms)
  case (Cons tag tags)
  obtain tf1 terms1 where s: "add_field (tokenize lib tag) (tf, terms) = (tf1, terms1)" by fastforce
  from add_field_ok [OF Cons.prems(1,2) s] have
    ok: "tf_ok (toks @ tokenize lib tag) tf1" "terms_ok (T \<union> set (tokenize lib tag)) terms1" by auto
  have "fold (\<lambda>tag. add_field (tokenize lib tag)) tags (tf1, terms1) = (tf', terms')"
    using Cons.prems(3) s by simp
  from Cons.IH [OF ok this] show ?case by (simp add: Un_assoc)
qed simp

lemma ok_empty [simp]: "tf_ok [] []" "terms_ok {} []"
  by (simp_all add: tf_ok_def terms_ok_def)

definition doc_terms :: "text_lib \<Rightarrow> post \<Rightarrow> string set" where
  "doc_terms lib p =
     set (field_tokens lib p FieldTitle) \<union> set (field_tokens lib p FieldTag) \<union> set (field_tokens lib p FieldBody)"

lemma build_doc_ok:
  "tf_ok (field_tokens lib p FieldTitle) (db_title (build_doc lib p)) \<and>
   tf_ok (field_tokens lib p FieldTag) (db_tag (build_doc lib p)) \<and>
   tf_ok (field_tokens lib p FieldBody) (db_body (build_doc lib p)) \<and>
   terms_ok (doc_terms lib p) (db_terms (build_doc lib p))"
proof -
  let ?T = "field_tokens lib p"
  obtain title terms1 where 1: "add_field (?T FieldTitle) ([], []) = (title, terms1)" by fastforce
  obtain tag terms2 where
    2: "fold (\<lambda>tag. add_field (tokenize lib tag)) (fm_tags (po_fm p)) ([], terms1) = (tag, terms2)" by fastforce
  obtain body terms3 where 3: "add_field (?T FieldBody) ([], terms2) = (body, terms3)" by fastforce
  have b: "build_doc lib p = \<lparr>db_title = title, db_tag = tag, db_body = body, db_terms = terms3\<rparr>"
    using 1 2 3 by (simp add: build_doc_def field_tokens_def)
  from add_field_ok [OF ok_empty 1] have t1: "tf_ok (?T FieldTitle) title" "terms_ok (set (?T FieldTitle)) terms1"
    by simp_all
  from add_fields_ok [OF ok_empty(1) t1(2) 2] have t2: "tf_ok (?T FieldTag) tag"
    "terms_ok (set (?T FieldTitle) \<union> set (?T FieldTag)) terms2"
    by (simp_all add: field_tokens_def)
  from add_field_ok [OF ok_empty(1) t2(2) 3] have "tf_ok (?T FieldBody) body" "terms_ok (doc_terms lib p) terms3"
    by (simp_all add: doc_terms_def)
  with t1 t2 show ?thesis by (simp add: b)
qed

lemma tf_ok_keys: "tf_ok toks tf \<Longrightarrow> set (map fst tf) = set toks \<and> length tf = card (set toks)"
proof -
  assume t: "tf_ok toks tf"
  have "t' \<in> set (map fst tf) \<longleftrightarrow> t' \<in> set toks" for t'
    using t map_of_eq_None_iff [of tf t'] by (auto simp: tf_ok_def split: if_splits)
  then have s: "set (map fst tf) = set toks" by blast
  moreover have "card (set (map fst tf)) = length (map fst tf)"
    using t by (intro distinct_card) (simp add: tf_ok_def)
  ultimately show ?thesis by simp
qed

lemma tf_ok_length: "tf_ok toks tf \<Longrightarrow> length tf = card (set toks)"
  using tf_ok_keys by blast

subsection \<open>Admission\<close>

definition field_posting :: "text_lib \<Rightarrow> nat \<Rightarrow> post \<Rightarrow> field \<Rightarrow> string \<Rightarrow> posting list" where
  "field_posting lib i p fld t =
     (if t \<in> set (field_tokens lib p fld)
      then [\<lparr>pg_doc = i, pg_tf = min 255 (count_list (field_tokens lib p fld) t), pg_field = fld\<rparr>]
      else [])"

definition doc_postings :: "text_lib \<Rightarrow> nat \<Rightarrow> post \<Rightarrow> string \<Rightarrow> posting list" where
  "doc_postings lib i p t =
     field_posting lib i p FieldTitle t @ field_posting lib i p FieldTag t @ field_posting lib i p FieldBody t"

lemma add_posting_fold:
  "distinct ts \<Longrightarrow>
     (\<forall>t. listed (sx_postings (fold (add_posting i tf fld) ts si)) t =
        listed (sx_postings si) t @
        (if t \<in> set ts then [\<lparr>pg_doc = i, pg_tf = the (map_of tf t), pg_field = fld\<rparr>] else [])) \<and>
     (\<forall>t. sx_postings (fold (add_posting i tf fld) ts si) t = None \<longleftrightarrow> sx_postings si t = None \<and> t \<notin> set ts) \<and>
     sx_tokens (fold (add_posting i tf fld) ts si) = sx_tokens si + length ts"
proof (induction ts arbitrary: si)
  case (Cons t ts)
  then show ?case
    by (auto simp: add_posting_def append_at_def listed_def split: option.splits)
qed simp

lemma add_posting_frame:
  "sx_docs (fold (add_posting i tf fld) ts si) = sx_docs si"
  "sx_doc_freq (fold (add_posting i tf fld) ts si) = sx_doc_freq si"
  "sx_bytes (fold (add_posting i tf fld) ts si) = sx_bytes si"
  "sx_truncated (fold (add_posting i tf fld) ts si) = sx_truncated si"
  "sx_reason (fold (add_posting i tf fld) ts si) = sx_reason si"
  "sx_generation (fold (add_posting i tf fld) ts si) = sx_generation si"
  "sx_cfg (fold (add_posting i tf fld) ts si) = sx_cfg si"
  by (induction ts arbitrary: si) (simp_all add: add_posting_def)

lemma add_postings_ok:
  assumes "tf_ok (field_tokens lib p fld) tf"
  shows "listed (sx_postings (add_postings i tf fld si)) t = listed (sx_postings si) t @ field_posting lib i p fld t"
    and "sx_postings (add_postings i tf fld si) t = None \<longleftrightarrow>
      sx_postings si t = None \<and> t \<notin> set (field_tokens lib p fld)"
    and "sx_tokens (add_postings i tf fld si) = sx_tokens si + card (set (field_tokens lib p fld))"
  using assms tf_ok_keys [OF assms] add_posting_fold [of "sort (map fst tf)" i tf fld si]
  by (auto simp: add_postings_def field_posting_def tf_ok_def)

lemma add_postings_frame [simp]:
  "sx_docs (add_postings i tf fld si) = sx_docs si" "sx_doc_freq (add_postings i tf fld si) = sx_doc_freq si"
  "sx_bytes (add_postings i tf fld si) = sx_bytes si" "sx_truncated (add_postings i tf fld si) = sx_truncated si"
  "sx_reason (add_postings i tf fld si) = sx_reason si"
  "sx_generation (add_postings i tf fld si) = sx_generation si"
  "sx_cfg (add_postings i tf fld si) = sx_cfg si"
  by (simp_all add: add_postings_def add_posting_frame)

lemma count_fold:
  "distinct ts \<Longrightarrow> fold (\<lambda>t df. df(t := Suc (df t))) ts df u = df u + (if u \<in> set ts then 1 else 0)"
  by (induction ts arbitrary: df) auto

definition search_doc_of :: "nat \<Rightarrow> post \<Rightarrow> search_doc" where
  "search_doc_of i p =
     \<lparr>sd_id = i, sd_slug = po_slug p, sd_title = fm_title (po_fm p), sd_tags = fm_tags (po_fm p),
      sd_date = fm_date (po_fm p)\<rparr>"

definition token_total :: "text_lib \<Rightarrow> post \<Rightarrow> nat" where
  "token_total lib p = card (set (field_tokens lib p FieldTitle)) + card (set (field_tokens lib p FieldTag)) +
     card (set (field_tokens lib p FieldBody))"

lemma posting_count_total: "posting_count (build_doc lib p) = token_total lib p"
  using build_doc_ok [of lib p] by (auto simp: posting_count_def token_total_def dest!: tf_ok_length)

lemma admit_ok:
  fixes lib p delta
  assumes "length (sx_docs si) < 2 ^ 32"
  defines "si' \<equiv> admit p (build_doc lib p) delta si"
  shows "sx_docs si' = sx_docs si @ [search_doc_of (length (sx_docs si)) p]"
    and "listed (sx_postings si') t = listed (sx_postings si) t @ doc_postings lib (length (sx_docs si)) p t"
    and "sx_doc_freq si' t = sx_doc_freq si t + (if t \<in> doc_terms lib p then 1 else 0)"
    and "sx_tokens si' = sx_tokens si + token_total lib p"
    and "sx_bytes si' = sx_bytes si + delta"
    and "sx_truncated si' = sx_truncated si" and "sx_reason si' = sx_reason si" and "sx_cfg si' = sx_cfg si"
    and "sx_generation si' = sx_generation si"
proof -
  have t: "tf_ok (field_tokens lib p FieldTitle) (db_title (build_doc lib p))"
    and g: "tf_ok (field_tokens lib p FieldTag) (db_tag (build_doc lib p))"
    and b: "tf_ok (field_tokens lib p FieldBody) (db_body (build_doc lib p))"
    and u: "terms_ok (doc_terms lib p) (db_terms (build_doc lib p))"
    using build_doc_ok [of lib p] by auto
  note steps = add_postings_ok [OF t] add_postings_ok [OF g] add_postings_ok [OF b]
  show "sx_docs si' = sx_docs si @ [search_doc_of (length (sx_docs si)) p]"
    "listed (sx_postings si') t = listed (sx_postings si) t @ doc_postings lib (length (sx_docs si)) p t"
    "sx_doc_freq si' t = sx_doc_freq si t + (if t \<in> doc_terms lib p then 1 else 0)"
    "sx_tokens si' = sx_tokens si + token_total lib p"
    "sx_bytes si' = sx_bytes si + delta"
    "sx_truncated si' = sx_truncated si" "sx_reason si' = sx_reason si" "sx_cfg si' = sx_cfg si"
    "sx_generation si' = sx_generation si" for t
    using assms(1) u
    by (simp_all add: si'_def admit_def Let_def steps search_doc_of_def doc_postings_def
        token_total_def count_fold terms_ok_def)
qed

subsection \<open>What the index holds\<close>

definition indexed :: "text_lib \<Rightarrow> post list \<Rightarrow> search_index \<Rightarrow> bool" where
  "indexed lib ps si \<longleftrightarrow>
     sx_docs si = map (\<lambda>i. search_doc_of i (ps ! i)) [0..<length ps] \<and>
     (\<forall>t. listed (sx_postings si) t = concat (map (\<lambda>i. doc_postings lib i (ps ! i) t) [0..<length ps])) \<and>
     (\<forall>t. sx_doc_freq si t = length (filter (\<lambda>p. t \<in> doc_terms lib p) ps)) \<and>
     sx_tokens si = sum_list (map (token_total lib) ps)"

lemma map_upt_snoc:
  "map (\<lambda>i. f i ((xs @ [x]) ! i)) [0..<length (xs @ [x])] =
   map (\<lambda>i. f i (xs ! i)) [0..<length xs] @ [f (length xs) x]"
  by (auto simp: nth_append)

lemma indexed_admit:
  assumes "indexed lib ps si" and "length ps < 2 ^ 32"
  shows "indexed lib (ps @ [p]) (admit p (build_doc lib p) delta si)"
proof -
  have l: "length (sx_docs si) = length ps" using assms(1) by (simp add: indexed_def)
  have b: "length (sx_docs si) < 2 ^ 32" using l assms(2) by simp
  show ?thesis
    using assms(1)
    unfolding indexed_def map_upt_snoc [where f = search_doc_of]
      map_upt_snoc [where f = "\<lambda>i q. doc_postings lib i q t" for t]
    by (simp add: admit_ok [OF b] l)
qed

definition within_caps :: "search_index \<Rightarrow> bool" where
  "within_caps si \<longleftrightarrow> int (length (sx_docs si)) \<le> se_max_docs (sx_cfg si) \<and>
     int (sx_tokens si) \<le> se_max_tokens (sx_cfg si) \<and> sx_bytes si \<le> se_max_index_bytes (sx_cfg si)"

text \<open>Why a post was left out.\<close>

definition cap_reached :: "text_lib \<Rightarrow> post list \<Rightarrow> nat \<Rightarrow> search_index \<Rightarrow> bool" where
  "cap_reached lib posts n si \<longleftrightarrow>
     (case sx_reason si of
        TruncationNone \<Rightarrow> n = length posts
      | TruncationMaxDocs \<Rightarrow> n < length posts \<and> int n = se_max_docs (sx_cfg si)
      | TruncationMaxTokens \<Rightarrow> n < length posts \<and>
          se_max_tokens (sx_cfg si) < int (sx_tokens si + token_total lib (posts ! n))
      | TruncationMaxBytes \<Rightarrow> n < length posts \<and>
          se_max_index_bytes (sx_cfg si) <
            sx_bytes si + candidate_bytes (posts ! n) (build_doc lib (posts ! n)) si)"

lemma candidate_bytes_mark [simp]: "candidate_bytes p c (mark_truncated r si) = candidate_bytes p c si"
  by (simp add: candidate_bytes_def mark_truncated_def)

lemma mark_truncated_simps [simp]:
  "sx_docs (mark_truncated r si) = sx_docs si" "sx_tokens (mark_truncated r si) = sx_tokens si"
  "sx_bytes (mark_truncated r si) = sx_bytes si" "sx_cfg (mark_truncated r si) = sx_cfg si"
  "sx_generation (mark_truncated r si) = sx_generation si"
  "sx_postings (mark_truncated r si) = sx_postings si" "sx_doc_freq (mark_truncated r si) = sx_doc_freq si"
  "sx_truncated (mark_truncated r si)"
  "sx_reason si = TruncationNone \<Longrightarrow> sx_reason (mark_truncated r si) = r"
  by (simp_all add: mark_truncated_def)

lemma indexed_mark [simp]: "indexed lib ps (mark_truncated r si) = indexed lib ps si"
  by (simp add: indexed_def)

lemma within_mark [simp]: "within_caps (mark_truncated r si) = within_caps si"
  by (simp add: within_caps_def)

lemma build_posts_ok:
  assumes "indexed lib ps si" and "within_caps si" and "posts = ps @ rest"
    and "\<not> sx_truncated si" and "sx_reason si = TruncationNone"
    and "validate_search (sx_cfg si) = []"
  shows "\<exists>n \<le> length posts. let si' = build_posts lib (\<lambda>_. True) k rest si in
    indexed lib (take n posts) si' \<and> within_caps si' \<and> (sx_truncated si' \<longleftrightarrow> n < length posts) \<and>
    cap_reached lib posts n si' \<and> sx_cfg si' = sx_cfg si \<and> sx_generation si' = sx_generation si"
  using assms
proof (induction rest arbitrary: ps si k)
  case Nil
  then show ?case by (intro exI [of _ "length posts"]) (simp add: cap_reached_def)
next
  case (Cons p rest)
  let ?cand = "build_doc lib p" and ?cfg = "sx_cfg si"
  let ?delta = "candidate_bytes p ?cand si"
  have n: "take (length ps) posts = ps" "posts ! length ps = p" "length ps < length posts"
    using Cons.prems(3) by simp_all
  have d: "length (sx_docs si) = length ps" using Cons.prems(1) by (simp add: indexed_def)
  have caps: "0 < se_max_docs ?cfg" "se_max_docs ?cfg \<le> 1000000" "0 < se_max_tokens ?cfg" "0 < se_max_index_bytes ?cfg"
    using Cons.prems(6) by (simp_all add: validate_search_def outside_def min_search_index_bytes_def)
  have here: ?case if "build_posts lib (\<lambda>_. True) k (p # rest) si = mark_truncated r si"
    and "cap_reached lib posts (length ps) (mark_truncated r si)" and "r \<noteq> TruncationNone" for r
    using that Cons.prems n by (intro exI [of _ "length ps"]) (simp add: Let_def)
  consider (docs) "se_max_docs ?cfg \<le> int (length ps)"
    | (tokens) "\<not> se_max_docs ?cfg \<le> int (length ps)"
        "se_max_tokens ?cfg < int (sx_tokens si + posting_count ?cand)"
    | (bytes) "\<not> se_max_docs ?cfg \<le> int (length ps)"
        "\<not> se_max_tokens ?cfg < int (sx_tokens si + posting_count ?cand)"
        "se_max_index_bytes ?cfg < sx_bytes si + ?delta"
    | (fits) "\<not> se_max_docs ?cfg \<le> int (length ps)"
        "\<not> se_max_tokens ?cfg < int (sx_tokens si + posting_count ?cand)"
        "\<not> se_max_index_bytes ?cfg < sx_bytes si + ?delta"
    by blast
  then show ?case
  proof cases
    case docs
    have "int (length ps) = se_max_docs ?cfg"
      using docs Cons.prems(2) by (simp add: within_caps_def d)
    then show ?thesis
      using docs caps n Cons.prems(5) by (intro here [of TruncationMaxDocs]) (simp_all add: d cap_reached_def)
  next
    case tokens
    then show ?thesis
      using caps n Cons.prems(5)
      by (intro here [of TruncationMaxTokens]) (simp_all add: d cap_reached_def posting_count_total)
  next
    case bytes
    then show ?thesis
      using caps n Cons.prems(5)
      by (intro here [of TruncationMaxBytes]) (simp_all add: d cap_reached_def Let_def)
  next
    case fits
    let ?si = "admit p ?cand ?delta si"
    have l: "length ps < 2 ^ 32" using fits(1) caps(2) by simp
    have b: "length (sx_docs si) < 2 ^ 32" using l d by simp
    have 1: "indexed lib (ps @ [p]) ?si" by (rule indexed_admit [OF Cons.prems(1) l])
    have 2: "within_caps ?si"
      using fits by (simp add: within_caps_def admit_ok [OF b] d posting_count_total)
    have "build_posts lib (\<lambda>_. True) k (p # rest) si = build_posts lib (\<lambda>_. True) (Suc k) rest ?si"
      using fits by (simp add: d Let_def)
    moreover note Cons.IH [OF 1 2, of "Suc k"]
    ultimately show ?thesis
      using Cons.prems(3-6) by (simp add: admit_ok [OF b])
  qed
qed

text \<open>
  C16. The search index is exactly the inverted index of the posts it admits: a prefix of the
  scanned posts, numbered in order; under each term one posting per admitted post and field
  that has it, in order, with the number of occurrences up to 255; the document frequencies
  and the token count are exact; no cap is exceeded; and it is marked truncated exactly when
  a post is left out, naming the cap the first such post would have exceeded.
\<close>

theorem search_index_exact:
  assumes "validate_search cfg = []"
  shows "\<exists>n \<le> length posts. let si = build_index lib (\<lambda>_. True) (Some posts) cfg g in
    indexed lib (take n posts) si \<and> within_caps si \<and> sx_cfg si = cfg \<and> sx_generation si = g \<and>
    (sx_truncated si \<longleftrightarrow> n < length posts) \<and> cap_reached lib posts n si"
proof -
  let ?si = "\<lparr>sx_docs = [], sx_postings = Map.empty, sx_doc_freq = (\<lambda>_. 0), sx_bytes = 0, sx_tokens = 0,
            sx_truncated = False, sx_reason = TruncationNone, sx_generation = g, sx_cfg = cfg\<rparr> :: search_index"
  have caps: "0 < se_max_docs cfg" "0 < se_max_tokens cfg" "0 < se_max_index_bytes cfg"
    using assms by (simp_all add: validate_search_def outside_def min_search_index_bytes_def)
  have "indexed lib [] ?si" by (simp add: indexed_def)
  moreover have "within_caps ?si" using caps by (simp add: within_caps_def)
  ultimately show ?thesis
    using build_posts_ok [of lib "[]" ?si posts posts 0] assms
    by (auto simp: build_index_def Let_def)
qed

definition demo_text :: text_lib where
  "demo_text = \<lparr>tl_nfc = id, tl_lower = to_lower_ascii, tl_token_rune = (\<lambda>r. 97 \<le> r \<and> r \<le> 122), tl_unescape = id\<rparr>"

definition demo_post :: post where
  "demo_post = \<lparr>po_fm = empty_fm\<lparr>fm_title := ''hi go''\<rparr>, po_slug = ''hi'', po_content = ''go go'',
     po_summary = ''go'', po_reading_time = 1, po_path = ''posts/hi.md''\<rparr>"

theorem search_index_exact_witness:
  "\<exists>n \<le> 1. let si = build_index demo_text (\<lambda>_. True) (Some [demo_post]) (cg_search default_config) 7 in
     indexed demo_text (take n [demo_post]) si \<and> (sx_truncated si \<longleftrightarrow> n = 0)"
proof -
  have "validate_search (cg_search default_config) = []"
    by (simp add: validate_search_def default_config_def outside_def min_search_index_bytes_def check_def)
  from search_index_exact [OF this, of "[demo_post]" demo_text 7] show ?thesis by (auto simp: Let_def)
qed

end
