(* ===== verification/Search_Query.thy ===== *)
theory Search_Query
  imports Search_Index
begin

text \<open>
  Queries (\<open>internal/search/search.go\<close>): ranking, paging and excerpts. Scores are \<open>float64\<close>: the
  arithmetic is the record \<open>float_ops\<close> over a linearly ordered type (no score is a NaN), so
  that nothing is assumed of it but the order. \<open>sort.Slice\<close> is an insertion sort; the order
  used on distinct documents is strict and total, so every sort gives the same list.
\<close>

subsection \<open>Ranking\<close>

record 'f float_ops =
  fo_of_nat :: "nat \<Rightarrow> 'f"
  fo_add :: "'f \<Rightarrow> 'f \<Rightarrow> 'f"
  fo_mul :: "'f \<Rightarrow> 'f \<Rightarrow> 'f"
  fo_div :: "'f \<Rightarrow> 'f \<Rightarrow> 'f"
  fo_log :: "'f \<Rightarrow> 'f"
  fo_round :: "'f \<Rightarrow> 'f"

definition field_weight :: "'f float_ops \<Rightarrow> field \<Rightarrow> 'f" where
  "field_weight ops fld =
     fo_of_nat ops (case fld of FieldTitle \<Rightarrow> 3 | FieldTag \<Rightarrow> 2 | FieldBody \<Rightarrow> 1)"

definition score_quantum :: nat where
  "score_quantum = 1000000"

definition quantize :: "'f float_ops \<Rightarrow> 'f \<Rightarrow> 'f" where
  "quantize ops score =
     fo_div ops (fo_round ops (fo_mul ops score (fo_of_nat ops score_quantum))) (fo_of_nat ops score_quantum)"

definition idf :: "'f float_ops \<Rightarrow> nat \<Rightarrow> nat \<Rightarrow> 'f" where
  "idf ops n df =
     fo_log ops (fo_add ops (fo_of_nat ops 1) (fo_div ops (fo_of_nat ops (n + 1)) (fo_of_nat ops (df + 1))))"

record 'f scored =
  sc_doc :: nat
  sc_score :: 'f

text \<open>One posting's contribution; a document not yet scored counts as zero.\<close>

definition add_score :: "'f float_ops \<Rightarrow> 'f \<Rightarrow> posting \<Rightarrow> (nat \<times> 'f) list \<Rightarrow> (nat \<times> 'f) list" where
  "add_score ops w pg scores =
     (let old = (case map_of scores (pg_doc pg) of None \<Rightarrow> fo_of_nat ops 0 | Some x \<Rightarrow> x) in
      AList.update (pg_doc pg)
        (fo_add ops old (fo_mul ops (fo_mul ops w (field_weight ops (pg_field pg))) (fo_of_nat ops (pg_tf pg))))
        scores)"

definition score_term :: "'f float_ops \<Rightarrow> search_index \<Rightarrow> string \<Rightarrow> (nat \<times> 'f) list \<Rightarrow> (nat \<times> 'f) list" where
  "score_term ops si t scores =
     (let ps = listed (sx_postings si) t in
      if ps = [] then scores
      else fold (add_score ops (idf ops (length (sx_docs si)) (sx_doc_freq si t))) ps scores)"

definition ranks_before :: "search_index \<Rightarrow> ('f :: linorder) scored \<Rightarrow> 'f scored \<Rightarrow> bool" where
  "ranks_before si a b \<longleftrightarrow>
     (if sc_score a \<noteq> sc_score b then sc_score b < sc_score a
      else let da = sx_docs si ! sc_doc a; db = sx_docs si ! sc_doc b in
        if gt_instant (sd_date da) \<noteq> gt_instant (sd_date db)
        then gt_instant (sd_date db) < gt_instant (sd_date da)
        else sd_slug da < sd_slug db)"

fun insert_by :: "('a \<Rightarrow> 'a \<Rightarrow> bool) \<Rightarrow> 'a \<Rightarrow> 'a list \<Rightarrow> 'a list" where
  "insert_by lt x [] = [x]"
| "insert_by lt x (y # ys) = (if lt y x then y # insert_by lt x ys else x # y # ys)"

definition sort_by :: "('a \<Rightarrow> 'a \<Rightarrow> bool) \<Rightarrow> 'a list \<Rightarrow> 'a list" where
  "sort_by lt xs = foldr (insert_by lt) xs []"

definition rank :: "('f :: linorder) float_ops \<Rightarrow> search_index \<Rightarrow> string list \<Rightarrow> 'f scored list" where
  "rank ops si terms =
     (if terms = [] then []
      else sort_by (ranks_before si)
        (map (\<lambda>(i, sc). \<lparr>sc_doc = i, sc_score = quantize ops sc\<rparr>) (fold (score_term ops si) terms [])))"

subsection \<open>Excerpts\<close>

definition collapse_whitespace :: "string \<Rightarrow> string" where
  "collapse_whitespace s = join '' '' (Go_Strings.fields s)"

text \<open>The token begun is \<open>cur\<close>, \<open>i\<close> the index of the next rune.\<close>

fun first_match_from :: "text_lib \<Rightarrow> string set \<Rightarrow> nat list \<Rightarrow> nat \<Rightarrow> nat list \<Rightarrow> nat option" where
  "first_match_from lib terms cur i [] =
     (if cur \<noteq> [] \<and> tl_lower lib (encode_runes cur) \<in> terms then Some (i - length cur) else None)"
| "first_match_from lib terms cur i (r # rs) =
     (if tl_token_rune lib r then first_match_from lib terms (cur @ [r]) (i + 1) rs
      else if cur \<noteq> [] \<and> tl_lower lib (encode_runes cur) \<in> terms then Some (i - length cur)
      else first_match_from lib terms [] (i + 1) rs)"

definition first_match_rune_index :: "text_lib \<Rightarrow> nat list \<Rightarrow> string list \<Rightarrow> nat option" where
  "first_match_rune_index lib rs terms =
     (if terms = [] then None else first_match_from lib (set terms) [] 0 rs)"

definition make_excerpt :: "text_lib \<Rightarrow> string \<Rightarrow> string list \<Rightarrow> int \<Rightarrow> string" where
  "make_excerpt lib txt terms len =
     (if len \<le> 0 then ''''
      else let display = collapse_whitespace (tl_nfc lib txt) in
        if display = '''' then ''''
        else let rs = runes display; total = int (length rs);
            start0 = (case first_match_rune_index lib rs terms of
                        None \<Rightarrow> 0 | Some m \<Rightarrow> max 0 (int m - len div 2));
            end0 = start0 + len;
            (start, stop) = (if total < end0 then (max 0 (min start0 (total - len)), total) else (start0, end0))
          in (if 0 < start then ellipsis else '''') @
             encode_runes (take (nat (stop - start)) (drop (nat start) rs)) @
             (if stop < total then ellipsis else ''''))"

subsection \<open>Search\<close>

datatype search_error = ErrIndexUnavailable | ErrQueryTooComplex

record search_options =
  so_limit :: int
  so_offset :: int

record 'f search_result =
  sr_title :: string
  sr_slug :: string
  sr_url :: string
  sr_date :: go_time
  sr_excerpt :: string
  sr_score :: 'f
  sr_tags :: "string list"

record 'f search_response =
  sp_query :: string
  sp_results :: "'f search_result list"
  sp_total :: nat
  sp_page :: int
  sp_total_pages :: int
  sp_truncated :: bool

definition total_pages :: "nat \<Rightarrow> int \<Rightarrow> int" where
  "total_pages hits limit =
     (if limit \<le> 0 then 1 else max 1 ((int hits + limit - 1) div limit))"

definition build_result ::
  "text_lib \<Rightarrow> (string \<rightharpoonup> post) option \<Rightarrow> search_index \<Rightarrow> string list \<Rightarrow> search_doc \<Rightarrow> 'f \<Rightarrow> 'f search_result" where
  "build_result lib src si terms d score =
     (let excerpt = (case src of
            None \<Rightarrow> ''''
          | Some by_slug \<Rightarrow>
              (case by_slug (sd_slug d) of
                 None \<Rightarrow> ''''
               | Some p \<Rightarrow> make_excerpt lib (plain_text (tl_unescape lib) p) terms (se_excerpt_length (sx_cfg si))))
      in \<lparr>sr_title = sd_title d, sr_slug = sd_slug d, sr_url = ''/posts/'' @ sd_slug d, sr_date = sd_date d,
          sr_excerpt = excerpt, sr_score = score, sr_tags = sd_tags d\<rparr>)"

definition effective_limit :: "search_index \<Rightarrow> search_options \<Rightarrow> int" where
  "effective_limit si opts =
     (let limit = (if so_limit opts \<le> 0 then se_max_results (sx_cfg si) else so_limit opts) in
      if limit \<le> 0 then 20 else limit)"

definition search ::
  "text_lib \<Rightarrow> ('f :: linorder) float_ops \<Rightarrow> search_index option \<Rightarrow> (string \<rightharpoonup> post) option \<Rightarrow> string \<Rightarrow>
   search_options \<Rightarrow> (search_error, 'f search_response) result" where
  "search lib ops osi src query opts =
     (case osi of
        None \<Rightarrow> Err ErrIndexUnavailable
      | Some si \<Rightarrow>
          (let limit = effective_limit si opts;
               offset = (if so_offset opts < 0 then 0 else so_offset opts);
               terms = parse_query_terms lib query in
           if se_max_query_terms (sx_cfg si) < int (length terms) then Err ErrQueryTooComplex
           else let ranked = rank ops si terms;
               total = length ranked;
               page = (if offset < int total
                 then take (nat (min (offset + limit) (int total) - offset)) (drop (nat offset) ranked)
                 else [])
             in Ok \<lparr>sp_query = query,
                 sp_results = map (\<lambda>s. build_result lib src si terms (sx_docs si ! sc_doc s) (sc_score s)) page,
                 sp_total = total, sp_page = offset div limit + 1, sp_total_pages = total_pages total limit,
                 sp_truncated = sx_truncated si\<rparr>))"

subsection \<open>Sorting\<close>

lemma mset_insert_by [simp]: "mset (insert_by lt x ys) = add_mset x (mset ys)"
  by (induction ys) auto

lemma mset_sort_by [simp]: "mset (sort_by lt xs) = mset xs"
  by (induction xs) (simp_all add: sort_by_def)

lemma set_insert_by [simp]: "set (insert_by lt x ys) = insert x (set ys)"
  using mset_eq_setD [OF mset_insert_by [of lt x ys, folded mset.simps(2)]] by simp

lemma set_sort_by [simp]: "set (sort_by lt xs) = set xs"
  by (rule mset_eq_setD) simp

text \<open>A strict order that is total on a set.\<close>

definition strict_total :: "('a \<Rightarrow> 'a \<Rightarrow> bool) \<Rightarrow> 'a set \<Rightarrow> bool" where
  "strict_total lt A \<longleftrightarrow>
     (\<forall>x \<in> A. \<not> lt x x) \<and> (\<forall>x \<in> A. \<forall>y \<in> A. \<forall>z \<in> A. lt x y \<longrightarrow> lt y z \<longrightarrow> lt x z) \<and>
     (\<forall>x \<in> A. \<forall>y \<in> A. x \<noteq> y \<longrightarrow> lt x y \<or> lt y x)"

lemma strict_total_subset: "strict_total lt A \<Longrightarrow> B \<subseteq> A \<Longrightarrow> strict_total lt B"
  unfolding strict_total_def by (meson subset_iff)

lemma sorted_insert_by:
  assumes "strict_total lt (insert x (set ys))" and "x \<notin> set ys" and "sorted_wrt lt ys"
  shows "sorted_wrt lt (insert_by lt x ys)"
  using assms
proof (induction ys)
  case (Cons y ys)
  have tr: "\<And>a b c. a \<in> insert x (set (y # ys)) \<Longrightarrow> b \<in> insert x (set (y # ys)) \<Longrightarrow>
      c \<in> insert x (set (y # ys)) \<Longrightarrow> lt a b \<Longrightarrow> lt b c \<Longrightarrow> lt a c"
    using Cons.prems(1) unfolding strict_total_def by blast
  have IH: "sorted_wrt lt (insert_by lt x ys)"
    using Cons.IH Cons.prems strict_total_subset [OF Cons.prems(1), of "insert x (set ys)"] by auto
  show ?case
  proof (cases "lt y x")
    case True
    then show ?thesis using IH Cons.prems(3) by auto
  next
    case False
    then have xy: "lt x y" using Cons.prems(1,2) unfolding strict_total_def by auto
    then have "\<forall>z \<in> set ys. lt x z" using tr Cons.prems(3) by auto
    then show ?thesis using False xy Cons.prems(3) by simp
  qed
qed simp

lemma sorted_sort_by:
  "strict_total lt (set xs) \<Longrightarrow> distinct xs \<Longrightarrow> sorted_wrt lt (sort_by lt xs)"
proof (induction xs)
  case (Cons x xs)
  have "sorted_wrt lt (sort_by lt xs)"
    using Cons strict_total_subset [OF Cons.prems(1), of "set xs"] by auto
  then have "sorted_wrt lt (insert_by lt x (sort_by lt xs))"
    using Cons.prems by (intro sorted_insert_by) simp_all
  then show ?case by (simp add: sort_by_def)
qed (simp add: sort_by_def)

text \<open>There is one sorted arrangement, whichever sort computes it.\<close>

lemma sorted_unique:
  assumes "strict_total lt (set xs)" and "sorted_wrt lt xs" and "sorted_wrt lt ys" and "set xs = set ys"
  shows "xs = ys"
  using assms
proof (induction xs arbitrary: ys)
  case (Cons x xs)
  then obtain y ys' where ys: "ys = y # ys'" by (cases ys) auto
  have irr: "\<And>a. a \<in> set (x # xs) \<Longrightarrow> \<not> lt a a"
    and tr: "\<And>a b c. a \<in> set (x # xs) \<Longrightarrow> b \<in> set (x # xs) \<Longrightarrow> c \<in> set (x # xs) \<Longrightarrow> lt a b \<Longrightarrow> lt b c \<Longrightarrow> lt a c"
    using Cons.prems(1) unfolding strict_total_def by blast+
  have xy: "x = y"
  proof (rule ccontr)
    assume n: "x \<noteq> y"
    then have "x \<in> set ys'" "y \<in> set xs" using Cons.prems(4) ys by auto
    then have "lt y x" "lt x y" using Cons.prems(2,3) ys by auto
    then have "lt x x" using tr [of x y x] \<open>y \<in> set xs\<close> by auto
    then show False using irr [of x] by simp
  qed
  have "x \<notin> set xs" using Cons.prems(2) irr [of x] by auto
  moreover have "x \<notin> set ys'" using Cons.prems(3) irr [of x] ys xy by auto
  ultimately have "set xs = set ys'" using Cons.prems(4) ys xy by auto
  then have "xs = ys'"
    using Cons.IH [of ys'] Cons.prems(2,3) ys strict_total_subset [OF Cons.prems(1), of "set xs"] by auto
  then show ?case using xy ys by simp
qed simp

subsection \<open>Scores\<close>

lemma add_score_keys:
  "fst ` set (add_score ops w pg scores) = insert (pg_doc pg) (fst ` set scores)"
  "distinct (map fst scores) \<Longrightarrow> distinct (map fst (add_score ops w pg scores))"
  by (simp_all add: add_score_def Let_def AList.dom_update AList.distinct_update)

lemma add_scores_keys:
  "fst ` set (fold (add_score ops w) ps scores) = fst ` set scores \<union> pg_doc ` set ps \<and>
   (distinct (map fst scores) \<longrightarrow> distinct (map fst (fold (add_score ops w) ps scores)))"
  by (induction ps arbitrary: scores) (auto simp: add_score_keys)

lemma score_term_keys:
  "fst ` set (score_term ops si t scores) = fst ` set scores \<union> pg_doc ` set (listed (sx_postings si) t) \<and>
   (distinct (map fst scores) \<longrightarrow> distinct (map fst (score_term ops si t scores)))"
  using add_scores_keys [of ops _ "listed (sx_postings si) t" scores]
  by (simp add: score_term_def Let_def)

lemma score_terms_keys:
  "fst ` set (fold (score_term ops si) terms scores) =
     fst ` set scores \<union> (\<Union>t \<in> set terms. pg_doc ` set (listed (sx_postings si) t)) \<and>
   (distinct (map fst scores) \<longrightarrow> distinct (map fst (fold (score_term ops si) terms scores)))"
proof (induction terms arbitrary: scores)
  case (Cons t terms)
  show ?case
    using Cons.IH [of "score_term ops si t scores"] score_term_keys [of ops si t scores] by auto
qed simp

lemma field_posting_docs: "pg_doc ` set (field_posting lib i p fld t) = (if t \<in> set (field_tokens lib p fld) then {i} else {})"
  by (simp add: field_posting_def)

lemma doc_postings_docs: "pg_doc ` set (doc_postings lib i p t) = (if t \<in> doc_terms lib p then {i} else {})"
  by (auto simp: doc_postings_def image_Un field_posting_docs doc_terms_def)

lemma indexed_docs:
  "indexed lib ps si \<Longrightarrow>
     pg_doc ` set (listed (sx_postings si) t) = {i. i < length ps \<and> t \<in> doc_terms lib (ps ! i)}"
  by (auto simp: indexed_def image_UN doc_postings_docs split: if_splits)

lemma rank_docs:
  assumes "indexed lib ps si"
  shows "set (map sc_doc (rank ops si terms)) = {i. i < length ps \<and> (\<exists>t \<in> set terms. t \<in> doc_terms lib (ps ! i))}"
    and "distinct (map sc_doc (rank ops si terms))"
proof -
  let ?s = "fold (score_term ops si) terms []"
  let ?q = "\<lambda>(i, sc). \<lparr>sc_doc = i, sc_score = quantize ops sc\<rparr>"
  have k: "fst ` set ?s = {i. i < length ps \<and> (\<exists>t \<in> set terms. t \<in> doc_terms lib (ps ! i))}"
    and d: "distinct (map fst ?s)"
    using score_terms_keys [of ops si terms "[]"] indexed_docs [OF assms] by auto
  have m: "map sc_doc (map ?q ?s) = map fst ?s" by auto
  show "set (map sc_doc (rank ops si terms)) = {i. i < length ps \<and> (\<exists>t \<in> set terms. t \<in> doc_terms lib (ps ! i))}"
    using k arg_cong [OF m, of set] by (auto simp: rank_def image_image split_def)
  have "mset (map sc_doc (sort_by (ranks_before si) (map ?q ?s))) = mset (map sc_doc (map ?q ?s))"
    by (simp only: mset_map mset_sort_by)
  then have "mset (map sc_doc (sort_by (ranks_before si) (map ?q ?s))) = mset (map fst ?s)" by (simp only: m)
  then have "distinct (map sc_doc (sort_by (ranks_before si) (map ?q ?s)))"
    using d mset_eq_imp_distinct_iff [THEN iffD2] by blast
  then show "distinct (map sc_doc (rank ops si terms))" by (simp add: rank_def)
qed

subsection \<open>The order of the results\<close>

lemma ranks_before_lex:
  "ranks_before si a b \<longleftrightarrow>
     sc_score b < sc_score a \<or> sc_score a = sc_score b \<and>
       (gt_instant (sd_date (sx_docs si ! sc_doc b)) < gt_instant (sd_date (sx_docs si ! sc_doc a)) \<or>
        gt_instant (sd_date (sx_docs si ! sc_doc a)) = gt_instant (sd_date (sx_docs si ! sc_doc b)) \<and>
        sd_slug (sx_docs si ! sc_doc a) < sd_slug (sx_docs si ! sc_doc b))"
  by (auto simp: ranks_before_def Let_def)

lemma ranks_before_trans: "ranks_before si a b \<Longrightarrow> ranks_before si b c \<Longrightarrow> ranks_before si a c"
  unfolding ranks_before_lex by (elim disjE conjE) auto

lemma ranks_before_irrefl [simp]: "\<not> ranks_before si a a"
  by (simp add: ranks_before_lex)

lemma ranks_before_total:
  "sd_slug (sx_docs si ! sc_doc a) \<noteq> sd_slug (sx_docs si ! sc_doc b) \<Longrightarrow> ranks_before si a b \<or> ranks_before si b a"
  unfolding ranks_before_lex by (metis linorder_less_linear)

lemma indexed_slugs:
  "indexed lib ps si \<Longrightarrow> i < length ps \<Longrightarrow> sd_slug (sx_docs si ! i) = po_slug (ps ! i)"
  by (simp add: indexed_def search_doc_of_def)

lemma rank_order:
  assumes "indexed lib ps si" and "distinct (map po_slug ps)"
    and "\<forall>a \<in> set xs. sc_doc a < length ps" and "distinct (map sc_doc xs)"
  shows "strict_total (ranks_before si) (set xs)"
proof -
  have "ranks_before si a b \<or> ranks_before si b a" if "a \<in> set xs" "b \<in> set xs" "a \<noteq> b" for a b
  proof (rule ranks_before_total)
    have n: "sc_doc a \<noteq> sc_doc b" using assms(4) that by (auto simp: distinct_map inj_on_def)
    have l: "sc_doc a < length ps" "sc_doc b < length ps" using assms(3) that by auto
    then have "po_slug (ps ! sc_doc a) \<noteq> po_slug (ps ! sc_doc b)"
      using n assms(2) nth_eq_iff_index_eq [of "map po_slug ps" "sc_doc a" "sc_doc b"] by auto
    then show "sd_slug (sx_docs si ! sc_doc a) \<noteq> sd_slug (sx_docs si ! sc_doc b)"
      using l by (simp add: indexed_slugs [OF assms(1)])
  qed
  then show ?thesis unfolding strict_total_def by (blast intro: ranks_before_trans dest: ranks_before_irrefl [THEN notE])
qed

lemma rank_range:
  "indexed lib ps si \<Longrightarrow> \<forall>a \<in> set (rank ops si terms). sc_doc a < length ps"
  using rank_docs(1) [of lib ps si ops terms] by (auto simp: image_iff set_eq_iff)

lemma rank_sorted:
  assumes "indexed lib ps si" and "distinct (map po_slug ps)"
  shows "strict_total (ranks_before si) (set (rank ops si terms)) \<and> sorted_wrt (ranks_before si) (rank ops si terms)"
proof -
  have st: "strict_total (ranks_before si) (set (rank ops si terms))"
    by (rule rank_order [OF assms rank_range [OF assms(1)] rank_docs(2) [OF assms(1)]])
  obtain xs where xs: "rank ops si terms = sort_by (ranks_before si) xs"
    by (cases "terms = []") (use that [of "[]"] in \<open>auto simp: rank_def sort_by_def\<close>)
  have "distinct (rank ops si terms)"
    using rank_docs(2) [OF assms(1), of ops terms] by (simp add: distinct_map)
  then have "distinct xs" unfolding xs using mset_eq_imp_distinct_iff [OF mset_sort_by] by blast
  then show ?thesis using st unfolding xs by (simp add: sorted_sort_by)
qed

subsection \<open>Paging\<close>

lemma search_fits:
  assumes "int (length (parse_query_terms lib q)) \<le> se_max_query_terms (sx_cfg si)"
    and "hits = rank ops si (parse_query_terms lib q)" and "L = effective_limit si opts"
  shows "\<exists>r. search lib ops (Some si) src q (opts\<lparr>so_offset := int k * L\<rparr>) = Ok r \<and>
    sp_total r = length hits \<and> sp_page r = int k + 1 \<and> sp_total_pages r = total_pages (length hits) L \<and>
    map (\<lambda>x. (sr_slug x, sr_score x)) (sp_results r) =
      map (\<lambda>s. (sd_slug (sx_docs si ! sc_doc s), sc_score s)) (take (nat L) (drop (k * nat L) hits))"
proof -
  have L: "0 < L" using assms(3) by (auto simp: effective_limit_def Let_def)
  have lim: "effective_limit si (opts\<lparr>so_offset := int k * L\<rparr>) = L"
    using assms(3) by (simp add: effective_limit_def)
  have kL: "nat (int k * L) = k * nat L" using L by (simp add: nat_mult_distrib)
  have nn: "\<not> int k * L < 0" using L by (simp add: mult_less_0_iff)
  let ?o = "int k * L" let ?t = "int (length hits)"
  have page: "(if ?o < ?t then take (nat (min (?o + L) ?t - ?o)) (drop (nat ?o) hits) else []) =
      take (nat L) (drop (k * nat L) hits)"
  proof (cases "?o < ?t")
    case True
    have "length (drop (k * nat L) hits) = nat (?t - ?o)"
      using True L kL by (simp add: nat_diff_distrib)
    moreover have "nat (min (?o + L) ?t - ?o) = min (nat L) (nat (?t - ?o))"
      using L True by (simp add: min_def)
    ultimately show ?thesis using True kL by (simp add: min_def)
  next
    case False
    then have "length hits \<le> k * nat L" using kL by linarith
    then show ?thesis using False by simp
  qed
  have "?o div L + 1 = int k + 1" using L by simp
  then show ?thesis
    using assms(1) L nn page
    by (simp add: search_def lim Let_def assms(2) [symmetric] build_result_def comp_def)
qed

text \<open>The page count: the fewest pages, at least one, that have room for the hits.\<close>

lemma total_pages_fit:
  assumes "0 < L" and "n = nat (total_pages h L)"
  shows "int n = total_pages h L" and "1 \<le> n" and "h \<le> n * nat L" and "n = 1 \<or> (n - 1) * nat L < h"
proof -
  let ?c = "(int h + L - 1) div L"
  show i: "int n = total_pages h L" "1 \<le> n"
    using assms by (auto simp: total_pages_def)
  have "?c \<le> int n" unfolding i(1) using assms(1) by (simp add: total_pages_def)
  from mult_right_mono [OF this, of L] have "int h \<le> int n * L"
    using assms(1) div_ceil_enough [of L h] by linarith
  moreover have L: "int (nat L) = L" using assms(1) by simp
  ultimately have "int h \<le> int (n * nat L)" by simp
  then show "h \<le> n * nat L" by linarith
  show "n = 1 \<or> (n - 1) * nat L < h"
  proof (cases "n = 1")
    case False
    then have "int n = ?c" using i assms(1) by (auto simp: total_pages_def max_def split: if_splits)
    moreover have "?c * L \<le> int h + L - 1"
      using assms(1) div_mult_mod_eq [of "int h + L - 1" L] pos_mod_sign [of L "int h + L - 1"] by linarith
    ultimately have "int n * L < int h + L" by simp
    then have "(int n - 1) * L < int h" by (simp add: algebra_simps)
    moreover have "int (n - 1) = int n - 1" using i(2) by simp
    ultimately have "int ((n - 1) * nat L) < int h" by (simp only: of_nat_mult L)
    then show ?thesis by linarith
  qed simp
qed

lemma search_pages:
  assumes i: "indexed lib ps si"
    and fits: "int (length (parse_query_terms lib q)) \<le> se_max_query_terms (sx_cfg si)"
    and hits: "hits = rank ops si (parse_query_terms lib q)" and L: "L = effective_limit si opts"
  shows "\<exists>r n. (\<forall>k. search lib ops (Some si) src q (opts\<lparr>so_offset := int k * L\<rparr>) = Ok (r k) \<and>
       sp_total (r k) = length hits \<and> sp_page (r k) = int k + 1 \<and> sp_total_pages (r k) = int n \<and>
       map (\<lambda>x. (sr_slug x, sr_score x)) (sp_results (r k)) =
         map (\<lambda>s. (po_slug (ps ! sc_doc s), sc_score s)) (take (nat L) (drop (k * nat L) hits))) \<and>
     1 \<le> n \<and> length hits \<le> n * nat L \<and> (n = 1 \<or> (n - 1) * nat L < length hits) \<and>
     concat (map (\<lambda>k. map (\<lambda>x. (sr_slug x, sr_score x)) (sp_results (r k))) [0..<n]) =
       map (\<lambda>s. (po_slug (ps ! sc_doc s), sc_score s)) hits"
proof -
  let ?hit = "\<lambda>s. (po_slug (ps ! sc_doc s), sc_score s)"
  let ?page = "\<lambda>k. take (nat L) (drop (k * nat L) hits)"
  define n where "n = nat (total_pages (length hits) L)"
  have L0: "0 < L" by (auto simp: L effective_limit_def Let_def)
  note n = total_pages_fit [OF L0 n_def]
  have h: "map (\<lambda>s. (sd_slug (sx_docs si ! sc_doc s), sc_score s)) (?page k) = map ?hit (?page k)" for k
    using rank_range [OF i, of ops "parse_query_terms lib q"]
    by (auto simp: hits indexed_slugs [OF i] dest!: in_set_takeD in_set_dropD)
  have "\<forall>k. \<exists>r. search lib ops (Some si) src q (opts\<lparr>so_offset := int k * L\<rparr>) = Ok r \<and>
      sp_total r = length hits \<and> sp_page r = int k + 1 \<and> sp_total_pages r = int n \<and>
      map (\<lambda>x. (sr_slug x, sr_score x)) (sp_results r) = map ?hit (?page k)"
    using search_fits [OF fits hits L, of src] unfolding h n(1) by blast
  then obtain r where r: "\<forall>k. search lib ops (Some si) src q (opts\<lparr>so_offset := int k * L\<rparr>) = Ok (r k) \<and>
      sp_total (r k) = length hits \<and> sp_page (r k) = int k + 1 \<and> sp_total_pages (r k) = int n \<and>
      map (\<lambda>x. (sr_slug x, sr_score x)) (sp_results (r k)) = map ?hit (?page k)"
    by (rule choice [THEN exE])
  have "map ?hit (concat (map ?page [0..<n])) = map ?hit hits"
    using n(3) by (simp only: pages_concat)
  then have "concat (map (\<lambda>k. map ?hit (?page k)) [0..<n]) = map ?hit hits"
    by (simp only: map_concat map_map comp_def)
  then have "concat (map (\<lambda>k. map (\<lambda>x. (sr_slug x, sr_score x)) (sp_results (r k))) [0..<n]) = map ?hit hits"
    by (simp only: r [rule_format])
  then show ?thesis using r n(2-4) by blast
qed

text \<open>
  C12. Search finds what the index holds: on an index of posts with distinct slugs, the ranked
  hits are exactly the documents with a term of the query, each once, in the one order the
  ranking allows, so the unspecified order of Go's map and its unstable sort do not show. No
  index and a query with too many terms are errors. Otherwise page \<open>k\<close> holds the slugs and
  scores of exactly its slice of the ranking, and carries its number, the number of hits and
  the number of pages, which is the least, from one on, that has room for the hits; the pages
  from the first to the last, one after the other, are the ranking.
\<close>

theorem search_results_exact:
  assumes "indexed lib ps si" and "distinct (map po_slug ps)"
  shows "let terms = parse_query_terms lib q; hits = rank ops si terms; L = effective_limit si opts;
      page = (\<lambda>k. search lib ops (Some si) src q (opts\<lparr>so_offset := int k * L\<rparr>));
      hit = (\<lambda>s. (po_slug (ps ! sc_doc s), sc_score s)) in
    set (map sc_doc hits) = {i. i < length ps \<and> set (tokenize lib q) \<inter> doc_terms lib (ps ! i) \<noteq> {}} \<and>
    distinct (map sc_doc hits) \<and> sorted_wrt (ranks_before si) hits \<and>
    (\<forall>ys. set ys = set hits \<and> sorted_wrt (ranks_before si) ys \<longrightarrow> ys = hits) \<and>
    search lib ops None src q opts = Err ErrIndexUnavailable \<and>
    (if se_max_query_terms (sx_cfg si) < int (length terms) then \<forall>k. page k = Err ErrQueryTooComplex
     else \<exists>r n. (\<forall>k. page k = Ok (r k) \<and> sp_total (r k) = length hits \<and> sp_page (r k) = int k + 1 \<and>
         sp_total_pages (r k) = int n \<and>
         map (\<lambda>x. (sr_slug x, sr_score x)) (sp_results (r k)) = map hit (take (nat L) (drop (k * nat L) hits))) \<and>
       1 \<le> n \<and> length hits \<le> n * nat L \<and> (n = 1 \<or> (n - 1) * nat L < length hits) \<and>
       concat (map (\<lambda>k. map (\<lambda>x. (sr_slug x, sr_score x)) (sp_results (r k))) [0..<n]) = map hit hits)"
proof -
  let ?terms = "parse_query_terms lib q"
  define hits where "hits = rank ops si ?terms"
  define L where "L = effective_limit si opts"
  let ?page = "\<lambda>k. search lib ops (Some si) src q (opts\<lparr>so_offset := int k * L\<rparr>)"
  have 1: "set (map sc_doc hits) = {i. i < length ps \<and> set (tokenize lib q) \<inter> doc_terms lib (ps ! i) \<noteq> {}}"
    and 2: "distinct (map sc_doc hits)"
    unfolding hits_def using rank_docs [OF assms(1), of ops ?terms] by (auto simp: parse_query_terms_def)
  have 3: "strict_total (ranks_before si) (set hits)" "sorted_wrt (ranks_before si) hits"
    unfolding hits_def using rank_sorted [OF assms] by auto
  have 4: "\<forall>ys. set ys = set hits \<and> sorted_wrt (ranks_before si) ys \<longrightarrow> ys = hits"
    using sorted_unique [OF 3] by auto
  have 5: "\<forall>k. ?page k = Err ErrQueryTooComplex" if "se_max_query_terms (sx_cfg si) < int (length ?terms)"
    using that by (simp add: search_def)
  have 6: "search lib ops None src q opts = Err ErrIndexUnavailable" by (simp add: search_def)
  note 7 = search_pages [OF assms(1) _ hits_def L_def, of src]
  show ?thesis
    unfolding Let_def hits_def [symmetric] L_def [symmetric]
    by (intro conjI 1 2 3(2) 4 6) (use 5 7 in \<open>simp split: if_split\<close>)
qed

definition demo_floats :: "nat float_ops" where
  "demo_floats = \<lparr>fo_of_nat = id, fo_add = (+), fo_mul = (*), fo_div = (\<lambda>a b. a), fo_log = id, fo_round = id\<rparr>"

definition demo_index :: search_index where
  "demo_index = admit demo_post (build_doc demo_text demo_post) 0
     \<lparr>sx_docs = [], sx_postings = Map.empty, sx_doc_freq = (\<lambda>_. 0), sx_bytes = 0, sx_tokens = 0,
      sx_truncated = False, sx_reason = TruncationNone, sx_generation = 7,
      sx_cfg = cg_search default_config\<rparr>"

lemma demo_indexed: "indexed demo_text [demo_post] demo_index"
  using indexed_admit [of demo_text "[]" _ demo_post 0] by (simp add: demo_index_def) (simp add: indexed_def)

theorem search_results_exact_witness:
  "set (map sc_doc (rank demo_floats demo_index (parse_query_terms demo_text ''Go?''))) = {0} \<and>
   parse_query_terms demo_text ''Go?'' = [''go'']"
proof -
  have d: "distinct (map po_slug [demo_post])" by simp
  have t: "tokenize demo_text ''Go?'' = [''go'']" by code_simp
  have "''go'' \<in> doc_terms demo_text demo_post"
  proof -
    have "tokenize demo_text ''hi go'' = [''hi'', ''go'']" by code_simp
    then show ?thesis by (simp add: doc_terms_def field_tokens_def demo_post_def)
  qed
  then have "{i. i < length [demo_post] \<and> set (tokenize demo_text ''Go?'') \<inter> doc_terms demo_text ([demo_post] ! i) \<noteq> {}} = {0}"
    unfolding t by auto
  then show ?thesis
    using search_results_exact [OF demo_indexed d, where q = "''Go?''" and ops = demo_floats] t
    by (simp add: Let_def parse_query_terms_def)
qed

subsection \<open>The first match\<close>

text \<open>The token of \<open>rs\<close> from \<open>m\<close> up to \<open>n\<close>, and that it is a term.\<close>

definition token_at :: "(nat \<Rightarrow> bool) \<Rightarrow> nat list \<Rightarrow> nat \<Rightarrow> nat \<Rightarrow> bool" where
  "token_at tok rs m n \<longleftrightarrow> m < n \<and> n \<le> length rs \<and> (\<forall>i. m \<le> i \<and> i < n \<longrightarrow> tok (rs ! i)) \<and>
     (m = 0 \<or> \<not> tok (rs ! (m - 1))) \<and> (n = length rs \<or> \<not> tok (rs ! n))"

definition match_at :: "text_lib \<Rightarrow> string set \<Rightarrow> nat list \<Rightarrow> nat \<Rightarrow> bool" where
  "match_at lib terms rs m \<longleftrightarrow>
     (\<exists>n. token_at (tl_token_rune lib) rs m n \<and> tl_lower lib (encode_runes (take (n - m) (drop m rs))) \<in> terms)"

lemma match_at_token: "match_at lib terms rs m \<Longrightarrow> m < length rs \<and> tl_token_rune lib (rs ! m)"
  by (auto simp: match_at_def token_at_def)

lemma match_at_start: "match_at lib terms rs m \<Longrightarrow> 0 < m \<Longrightarrow> \<not> tl_token_rune lib (rs ! (m - 1))"
  by (auto simp: match_at_def token_at_def)

text \<open>A maximal run of token runes.\<close>

definition run_split :: "(nat \<Rightarrow> bool) \<Rightarrow> nat list \<Rightarrow> nat list \<Rightarrow> bool" where
  "run_split tok pre cur \<longleftrightarrow> (\<forall>r \<in> set cur. tok r) \<and> (pre = [] \<or> \<not> tok (last pre))"

lemma run_match:
  assumes "run_split (tl_token_rune lib) pre cur" and "cur \<noteq> []" and "post = [] \<or> \<not> tl_token_rune lib (hd post)"
  shows "match_at lib terms (pre @ cur @ post) (length pre) \<longleftrightarrow> tl_lower lib (encode_runes cur) \<in> terms"
proof -
  let ?rs = "pre @ cur @ post" let ?n = "length pre + length cur"
  have inside: "\<forall>i. length pre \<le> i \<and> i < ?n \<longrightarrow> tl_token_rune lib (?rs ! i)"
  proof (intro allI impI)
    fix i assume i: "length pre \<le> i \<and> i < ?n"
    then have "?rs ! i = cur ! (i - length pre)" "i - length pre < length cur" by (auto simp: nth_append)
    then show "tl_token_rune lib (?rs ! i)" using assms(1) by (simp add: run_split_def)
  qed
  have before: "length pre = 0 \<or> \<not> tl_token_rune lib (?rs ! (length pre - 1))"
    using assms(1) by (cases pre rule: rev_cases) (simp_all add: run_split_def nth_append)
  have after: "?n = length ?rs \<or> \<not> tl_token_rune lib (?rs ! ?n)"
    using assms(3) by (cases post) (simp_all add: nth_append)
  have t: "token_at (tl_token_rune lib) ?rs (length pre) ?n"
    unfolding token_at_def using inside before after assms(2) by simp
  have "n = ?n" if "token_at (tl_token_rune lib) ?rs (length pre) n" for n
  proof (rule linorder_cases [of n ?n])
    assume "n < ?n"
    moreover have "n = length ?rs \<or> \<not> tl_token_rune lib (?rs ! n)" "length pre < n"
      using that by (auto simp: token_at_def)
    ultimately show ?thesis using inside by auto
  next
    assume "?n < n"
    moreover have "\<forall>i. length pre \<le> i \<and> i < n \<longrightarrow> tl_token_rune lib (?rs ! i)" "n \<le> length ?rs"
      using that by (auto simp: token_at_def)
    ultimately have "tl_token_rune lib (?rs ! ?n)" "?n < length ?rs" by (meson le_add1, linarith)
    then show ?thesis using after by simp
  qed
  moreover have "take (?n - length pre) (drop (length pre) ?rs) = cur" by simp
  ultimately show ?thesis using t unfolding match_at_def by metis
qed

lemma run_inside:
  assumes "run_split (tl_token_rune lib) pre cur" and "length pre < m" and "m < length pre + length cur"
  shows "\<not> match_at lib terms (pre @ cur @ post) m"
proof
  assume "match_at lib terms (pre @ cur @ post) m"
  then have "\<not> tl_token_rune lib ((pre @ cur @ post) ! (m - 1))"
    using match_at_start assms(2) by blast
  moreover have "\<not> m - 1 < length pre" "m - 1 - length pre < length cur" using assms(2,3) by auto
  then have "(pre @ cur @ post) ! (m - 1) \<in> set cur" by (auto simp: nth_append)
  ultimately show False using assms(1) by (simp add: run_split_def)
qed

definition first_of :: "(nat \<Rightarrow> bool) \<Rightarrow> nat option \<Rightarrow> bool" where
  "first_of P r \<longleftrightarrow> (case r of None \<Rightarrow> \<forall>m. \<not> P m | Some m \<Rightarrow> P m \<and> (\<forall>k < m. \<not> P k))"

lemma first_of_Some: "first_of P (Some m) \<longleftrightarrow> P m \<and> (\<forall>k < m. \<not> P k)"
  by (simp add: first_of_def)

lemma first_match_from_ok:
  assumes "run_split (tl_token_rune lib) pre cur" and "\<forall>k < length pre. \<not> match_at lib terms (pre @ cur @ rs) k"
  shows "first_of (match_at lib terms (pre @ cur @ rs)) (first_match_from lib terms cur (length pre + length cur) rs)"
  using assms
proof (induction rs arbitrary: pre cur)
  case Nil
  have "\<not> match_at lib terms (pre @ cur) m" if "length pre < m \<or> cur = []" for m
    using that run_inside [OF Nil(1), of m terms "[]"] Nil(2) match_at_token [of lib terms "pre @ cur" m]
    by (cases "m < length pre + length cur") auto
  then show ?case
    using Nil(2) run_match [OF Nil(1), of "[]" terms]
    by (auto simp: first_of_def) (metis linorder_neqE_nat)+
next
  case (Cons r rs)
  show ?case
  proof (cases "tl_token_rune lib r")
    case True
    have "run_split (tl_token_rune lib) pre (cur @ [r])" using Cons.prems(1) True by (auto simp: run_split_def)
    from Cons.IH [OF this] show ?thesis using Cons.prems(2) True by simp
  next
    case False
    show ?thesis
    proof (cases "cur \<noteq> [] \<and> tl_lower lib (encode_runes cur) \<in> terms")
      case True
      then show ?thesis
        using False Cons.prems run_match [OF Cons.prems(1), of "r # rs" terms] by (simp add: first_of_def)
    next
      case n: False
      have rs: "run_split (tl_token_rune lib) (pre @ cur @ [r]) []" using False by (simp add: run_split_def)
      have "\<not> match_at lib terms (pre @ cur @ r # rs) k" if "k < length (pre @ cur @ [r])" for k
      proof -
        have kk: "k < length pre + length cur + 1" using that by simp
        have not_r: "\<not> match_at lib terms (pre @ cur @ r # rs) (length pre + length cur)"
          using False match_at_token [of lib terms "pre @ cur @ r # rs" "length pre + length cur"]
          by (auto simp: nth_append)
        consider "k < length pre" | "k = length pre" | "length pre < k" "k < length pre + length cur"
          | "k = length pre + length cur"
          using kk by linarith
        then show ?thesis
        proof cases
          case 2
          then show ?thesis
            using n not_r run_match [OF Cons.prems(1), of "r # rs" terms] False by (cases "cur = []") simp_all
        next
          case 4
          then show ?thesis using not_r by simp
        qed (use Cons.prems run_inside [OF Cons.prems(1), of k terms "r # rs"] in auto)
      qed
      then have "\<forall>k < length (pre @ cur @ [r]). \<not> match_at lib terms ((pre @ cur @ [r]) @ [] @ rs) k" by simp
      from Cons.IH [OF rs this] show ?thesis using False n by auto
    qed
  qed
qed

lemma first_match_ok:
  "first_of (match_at lib (set terms) rs) (first_match_rune_index lib rs terms)"
proof (cases "terms = []")
  case True
  then show ?thesis by (simp add: first_of_def first_match_rune_index_def match_at_def)
next
  case False
  then show ?thesis
    using first_match_from_ok [of lib "[]" "[]" "set terms" rs]
    by (simp add: first_match_rune_index_def run_split_def)
qed

text \<open>
  C25. The excerpt: nothing for a length that is not positive or a text that is blank;
  otherwise a run of consecutive runes of the collapsed text, as long as the length allows,
  with an ellipsis on exactly the sides where text is left out, and it contains the start of
  the first token that is a term of the query, where there is one.
\<close>

theorem excerpt_window:
  "let display = collapse_whitespace (tl_nfc lib txt); rs = runes display; e = make_excerpt lib txt terms len in
   if len \<le> 0 \<or> display = [] then e = []
   else \<exists>a b. a \<le> b \<and> b \<le> length rs \<and> int (b - a) = min len (int (length rs)) \<and>
     e = (if 0 < a then ellipsis else []) @ encode_runes (take (b - a) (drop a rs)) @
         (if b < length rs then ellipsis else []) \<and>
     (\<forall>m. match_at lib (set terms) rs m \<and> (\<forall>k < m. \<not> match_at lib (set terms) rs k) \<longrightarrow> a \<le> m \<and> m < b)"
proof -
  define display where "display = collapse_whitespace (tl_nfc lib txt)"
  define rs where "rs = runes display"
  define total where "total = int (length rs)"
  define start0 where "start0 = (case first_match_rune_index lib rs terms of None \<Rightarrow> 0 | Some m \<Rightarrow> max 0 (int m - len div 2))"
  define start where "start = (if total < start0 + len then max 0 (min start0 (total - len)) else start0)"
  define stop where "stop = (if total < start0 + len then total else start0 + len)"
  show ?thesis
  proof (cases "len \<le> 0 \<or> display = []")
    case True
    then show ?thesis unfolding make_excerpt_def Let_def display_def by auto
  next
    case False
    then have pos: "0 < len" by simp
    have e: "make_excerpt lib txt terms len = (if 0 < start then ellipsis else '''') @
        encode_runes (take (nat (stop - start)) (drop (nat start) rs)) @ (if stop < total then ellipsis else '''')"
      using False unfolding make_excerpt_def Let_def display_def [symmetric] rs_def [symmetric]
      by (simp add: start_def stop_def start0_def total_def split: if_split)
    have s0: "0 \<le> start0" by (simp add: start0_def split: option.split)
    have le: "0 \<le> start" "start \<le> stop" "stop \<le> total" "stop - start = min len total"
      using s0 pos by (auto simp: start_def stop_def total_def)
    have hit: "start \<le> int m \<and> int m < stop"
      if m: "match_at lib (set terms) rs m" "\<forall>k < m. \<not> match_at lib (set terms) rs k" for m
    proof -
      have "first_match_rune_index lib rs terms = Some m"
        using first_match_ok [of lib terms rs] m
        by (auto simp: first_of_def split: option.splits) (metis linorder_neqE_nat)
      then have "start0 = max 0 (int m - len div 2)" by (simp add: start0_def)
      moreover have "int m < total" using match_at_token [OF m(1)] by (simp add: total_def)
      ultimately show ?thesis using pos by (auto simp: start_def stop_def)
    qed
    let ?a = "nat start" let ?b = "nat stop"
    have ab: "?a \<le> ?b" "?b \<le> length rs" "int (?b - ?a) = min len (int (length rs))"
      "nat (stop - start) = ?b - ?a" "(0 < start) = (0 < ?a)" "(stop < total) = (?b < length rs)"
      using le by (auto simp: total_def nat_diff_distrib)
    have "?a \<le> m \<and> m < ?b"
      if "match_at lib (set terms) rs m" "\<forall>k < m. \<not> match_at lib (set terms) rs k" for m
      using hit [OF that] by (simp add: zless_nat_eq_int_zless nat_le_iff)
    then have "\<forall>m. match_at lib (set terms) rs m \<and> (\<forall>k < m. \<not> match_at lib (set terms) rs k) \<longrightarrow> ?a \<le> m \<and> m < ?b"
      by blast
    then have "\<exists>a b. a \<le> b \<and> b \<le> length rs \<and> int (b - a) = min len (int (length rs)) \<and>
      make_excerpt lib txt terms len = (if 0 < a then ellipsis else []) @ encode_runes (take (b - a) (drop a rs)) @
         (if b < length rs then ellipsis else []) \<and>
      (\<forall>m. match_at lib (set terms) rs m \<and> (\<forall>k < m. \<not> match_at lib (set terms) rs k) \<longrightarrow> a \<le> m \<and> m < b)"
      using ab(1-3) unfolding e ab(4-6) by (intro exI [of _ ?a] exI [of _ ?b] conjI) simp_all
    then show ?thesis
      unfolding Let_def display_def [symmetric] rs_def [symmetric] if_not_P [OF False] .
  qed
qed

theorem excerpt_window_witness:
  "\<exists>a b. b - a = 4 \<and> a \<le> 6 \<and> 6 < b \<and> b \<le> 11 \<and>
     make_excerpt demo_text ''hi   to go on'' [''go''] 4 =
       (if 0 < a then ellipsis else []) @ encode_runes (take 4 (drop a (map of_char ''hi to go on''))) @
       (if b < 11 then ellipsis else [])"
proof -
  have d: "collapse_whitespace (tl_nfc demo_text ''hi   to go on'') = ''hi to go on''" by code_simp
  have r: "runes ''hi to go on'' = map of_char ''hi to go on''" by code_simp
  have f: "first_match_rune_index demo_text (map of_char ''hi to go on'') [''go''] = Some 6" by code_simp
  have l: "length (map of_char ''hi to go on'' :: nat list) = 11" by simp
  have n: "\<not> ((4 :: int) \<le> 0 \<or> ''hi to go on'' = [])" by simp
  define rs :: "nat list" where "rs = map of_char ''hi to go on''"
  note e = excerpt_window [of demo_text "''hi   to go on''" "[''go'']" 4, unfolded Let_def d r if_not_P [OF n],
      folded rs_def]
  have m: "match_at demo_text (set [''go'']) rs 6 \<and> (\<forall>k < 6. \<not> match_at demo_text (set [''go'']) rs k)"
    using first_match_ok [of demo_text "[''go'']" rs] unfolding f [folded rs_def] by (rule first_of_Some [THEN iffD1])
  from e obtain a b where ab: "b \<le> length rs" "int (b - a) = min 4 (int (length rs))"
    "make_excerpt demo_text ''hi   to go on'' [''go''] 4 =
       (if 0 < a then ellipsis else []) @ encode_runes (take (b - a) (drop a rs)) @
       (if b < length rs then ellipsis else [])"
    "\<forall>m. match_at demo_text (set [''go'']) rs m \<and> (\<forall>k < m. \<not> match_at demo_text (set [''go'']) rs k) \<longrightarrow>
       a \<le> m \<and> m < b"
    by blast
  have l': "length rs = 11" using l by (simp only: rs_def)
  have "b - a = 4" using ab(2) unfolding l' by simp
  then show ?thesis
    using ab(1,3) ab(4) [rule_format, OF m] unfolding l' rs_def [symmetric]
    by (intro exI [of _ a] exI [of _ b]) simp
qed

end
