(* ===== verification/Http.thy ===== *)
theory Http
  imports Go_Paths
begin

text \<open>
  What the source uses of \<open>net/http\<close> and \<open>net/url\<close>: requests, the response writer with its
  header that is frozen by the first \<open>WriteHeader\<close>, \<open>http.Error\<close>, \<open>http.Redirect\<close> to a plain
  path, and the two escapings of \<open>net/url\<close>. A handler takes a state and a writer and may
  panic; what it has written until then stays written.
\<close>

subsection \<open>Requests and responses\<close>

text \<open>
  \<open>rq_query\<close> and \<open>rq_header\<close> are the \<open>Get\<close> of the parsed query and of the header, the empty
  string for what is absent; \<open>rq_uri\<close> is \<open>URL.RequestURI()\<close>. \<open>rq_cancelled\<close> and \<open>rq_gone\<close>
  tell whether the context is done when a render checks it and when a failed render is handled;
  \<open>rq_id\<close> is the request ID the context carries.
\<close>

record request =
  rq_method :: string
  rq_path :: string
  rq_uri :: string
  rq_query :: "string \<Rightarrow> string"
  rq_value :: "string \<Rightarrow> string"
  rq_header :: "string \<Rightarrow> string"
  rq_xff :: "string list"
  rq_remote :: string
  rq_cancelled :: bool
  rq_gone :: bool
  rq_id :: string

type_synonym header = "string \<rightharpoonup> string"

record writer =
  hw_header :: header
  hw_sent :: "(nat \<times> header) option"
  hw_body :: string

definition new_writer :: writer where
  "new_writer = \<lparr>hw_header = Map.empty, hw_sent = None, hw_body = ''''\<rparr>"

definition set_header :: "string \<Rightarrow> string \<Rightarrow> writer \<Rightarrow> writer" where
  "set_header k v w = w\<lparr>hw_header := (hw_header w)(k \<mapsto> v)\<rparr>"

definition del_header :: "string \<Rightarrow> writer \<Rightarrow> writer" where
  "del_header k w = w\<lparr>hw_header := (hw_header w)(k := None)\<rparr>"

definition write_header :: "nat \<Rightarrow> writer \<Rightarrow> writer" where
  "write_header code w = (if hw_sent w = None then w\<lparr>hw_sent := Some (code, hw_header w)\<rparr> else w)"

definition write_body :: "string \<Rightarrow> writer \<Rightarrow> writer" where
  "write_body b w = (let w' = write_header 200 w in w'\<lparr>hw_body := hw_body w' @ b\<rparr>)"

text \<open>A handler that returns without writing sends an empty 200.\<close>

definition response_of :: "writer \<Rightarrow> nat \<times> header \<times> string" where
  "response_of w = (case hw_sent w of
      None \<Rightarrow> (200, hw_header w, hw_body w)
    | Some (code, h) \<Rightarrow> (code, h, hw_body w))"

definition status_of :: "writer \<Rightarrow> nat" where
  "status_of w = fst (response_of w)"

definition text_plain :: string where
  "text_plain = ''text/plain; charset=utf-8''"

definition http_error :: "string \<Rightarrow> nat \<Rightarrow> writer \<Rightarrow> writer" where
  "http_error msg code w =
     write_body (msg @ [CHR 0x0A])
       (write_header code
         (set_header ''X-Content-Type-Options'' ''nosniff''
           (set_header ''Content-Type'' text_plain (del_header ''Content-Length'' w))))"

text \<open>A permanent redirect to a path that needs no escaping.\<close>

definition http_redirect :: "request \<Rightarrow> string \<Rightarrow> writer \<Rightarrow> writer" where
  "http_redirect req url w =
     (let had = hw_header w ''Content-Type'' \<noteq> None;
          w1 = set_header ''Location'' url w;
          w2 = (if \<not> had \<and> rq_method req \<in> {''GET'', ''HEAD''}
                then set_header ''Content-Type'' ''text/html; charset=utf-8'' w1 else w1);
          w3 = write_header 301 w2
      in if \<not> had \<and> rq_method req = ''GET''
         then write_body (''<a href='' @ [CHR 0x22] @ url @ [CHR 0x22] @ ''>Moved Permanently</a>.'' @ [CHR 0x0A, CHR 0x0A]) w3
         else w3)"

datatype exit = Returned | Panicked string

type_synonym 's handler = "request \<Rightarrow> 's \<times> writer \<Rightarrow> ('s \<times> writer) \<times> exit"

subsection \<open>Escaping\<close>

definition hex_upper :: "nat \<Rightarrow> char" where
  "hex_upper n = (if n < 10 then char_of (48 + n) else char_of (55 + n))"

definition percent :: "char \<Rightarrow> string" where
  "percent c = [CHR ''%'', hex_upper (byte c div 16), hex_upper (byte c mod 16)]"

definition unreserved :: "char \<Rightarrow> bool" where
  "unreserved c \<longleftrightarrow> is_alpha_char c \<or> is_digit_char c \<or> c \<in> set ''-_.~''"

definition path_escape :: "string \<Rightarrow> string" where
  "path_escape s = concat (map (\<lambda>c. if unreserved c \<or> c \<in> set ''$&+:=@'' then [c] else percent c) s)"

definition query_escape :: "string \<Rightarrow> string" where
  "query_escape s =
     concat (map (\<lambda>c. if unreserved c then [c] else if c = CHR '' '' then ''+'' else percent c) s)"

subsection \<open>Facts\<close>

lemma write_header_sent [simp]: "hw_sent (write_header c w) \<noteq> None"
  by (simp add: write_header_def)

lemma write_header_first [simp]:
  "hw_sent w = None \<Longrightarrow> hw_sent (write_header c w) = Some (c, hw_header w)"
  "hw_sent w = Some s \<Longrightarrow> hw_sent (write_header c w) = Some s"
  by (simp_all add: write_header_def)

lemma write_header_rest [simp]:
  "hw_header (write_header c w) = hw_header w" "hw_body (write_header c w) = hw_body w"
  by (simp_all add: write_header_def)

lemma set_header_rest [simp]:
  "hw_sent (set_header k v w) = hw_sent w" "hw_body (set_header k v w) = hw_body w"
  "hw_header (set_header k v w) = (hw_header w)(k \<mapsto> v)"
  "hw_sent (del_header k w) = hw_sent w" "hw_body (del_header k w) = hw_body w"
  "hw_header (del_header k w) = (hw_header w)(k := None)"
  by (simp_all add: set_header_def del_header_def)

lemma write_body_simps [simp]:
  "hw_sent (write_body b w) = hw_sent (write_header 200 w)" "hw_header (write_body b w) = hw_header w"
  "hw_body (write_body b w) = hw_body w @ b"
  by (simp_all add: write_body_def Let_def)

lemma http_error_simps [simp]:
  "hw_sent w = None \<Longrightarrow> hw_sent (http_error msg code w) =
     Some (code, (hw_header w)(''Content-Length'' := None, ''Content-Type'' \<mapsto> text_plain,
       ''X-Content-Type-Options'' \<mapsto> ''nosniff''))"
  "hw_body (http_error msg code w) = hw_body w @ msg @ [CHR 0x0A]"
  by (simp_all add: http_error_def)

lemma status_sent: "hw_sent w = Some (c, h) \<Longrightarrow> status_of w = c"
  by (simp add: status_of_def response_of_def)

text \<open>Escaping leaves none of the characters that delimit a URL.\<close>

definition url_delims :: "char list" where
  "url_delims = ''#? /''"

lemma hex_upper_safe: "n < 16 \<Longrightarrow> hex_upper n \<notin> set url_delims"
proof -
  assume "n < 16"
  then have "n \<in> set [0..<16]" by simp
  moreover have "list_all (\<lambda>n. hex_upper n \<notin> set url_delims) [0..<16]" by code_simp
  ultimately show ?thesis unfolding list_all_iff by blast
qed

lemma byte_256: "byte c < 256"
  using nat_of_char_less_256 [of c] by simp

lemma percent_safe: "c \<in> set (percent d) \<Longrightarrow> c \<notin> set url_delims"
proof -
  have "byte d div 16 < 16" using byte_256 [of d] by linarith
  moreover have "byte d mod 16 < 16" by simp
  moreover have "CHR ''%'' \<notin> set url_delims" by code_simp
  ultimately show "c \<in> set (percent d) \<Longrightarrow> c \<notin> set url_delims"
    unfolding percent_def list.set using hex_upper_safe by blast
qed

lemma escape_safe:
  "c \<in> set (query_escape s) \<Longrightarrow> c \<notin> set url_delims"
  "c \<in> set (path_escape s) \<Longrightarrow> c \<notin> set url_delims"
proof -
  have u: "unreserved d \<Longrightarrow> d \<notin> set url_delims" for d
  proof -
    have "list_all (\<lambda>c. \<not> unreserved c) url_delims" by code_simp
    then show "unreserved d \<Longrightarrow> d \<notin> set url_delims" by (auto simp only: list_all_iff)
  qed
  have x: "CHR ''+'' \<notin> set url_delims" by code_simp
  have y: "d \<in> set ''$&+:=@'' \<Longrightarrow> d \<notin> set url_delims" for d
  proof -
    have "list_all (\<lambda>d. d \<notin> set url_delims) ''$&+:=@''" by code_simp
    then show "d \<in> set ''$&+:=@'' \<Longrightarrow> d \<notin> set url_delims" unfolding list_all_iff by blast
  qed
  {
    assume "c \<in> set (query_escape s)"
    then obtain d where "c \<in> set (if unreserved d then [d] else if d = CHR '' '' then ''+'' else percent d)"
      unfolding query_escape_def set_concat set_map by blast
    then consider "c = d" "unreserved d" | "c = CHR ''+''" | "c \<in> set (percent d)"
      by (cases "unreserved d"; cases "d = CHR '' ''") simp_all
    then show "c \<notin> set url_delims"
      by cases (use u x percent_safe in blast)+
  next
    assume "c \<in> set (path_escape s)"
    then obtain d where d: "c \<in> set (if unreserved d \<or> d \<in> set ''$&+:=@'' then [d] else percent d)"
      unfolding path_escape_def set_concat set_map by blast
    show "c \<notin> set url_delims"
    proof (cases "unreserved d \<or> d \<in> set ''$&+:=@''")
      case True
      then have "c = d" using d by (simp only: if_True list.set) blast
      then show ?thesis using True u y by blast
    next
      case False
      then have "c \<in> set (percent d)" using d by (simp only: if_False)
      then show ?thesis by (rule percent_safe)
    qed
  }
qed

subsection \<open>Numbers\<close>

lemma digit_char: "d < 10 \<Longrightarrow> is_digit_char (char_of (48 + d)) \<and> byte (char_of (48 + d)) = 48 + d"
proof -
  assume "d < 10"
  then have "d \<in> set [0..<10]" by simp
  moreover have "list_all (\<lambda>d. is_digit_char (char_of (48 + d)) \<and> byte (char_of (48 + d)) = 48 + d) [0..<10]"
    by code_simp
  ultimately show ?thesis by (simp only: list_all_iff)
qed

lemma nat_digits_value:
  "digits_value (nat_digits n) = int n \<and> list_all is_digit_char (nat_digits n) \<and> nat_digits n \<noteq> []"
proof (induction n rule: nat_digits.induct)
  case (1 n)
  show ?case
  proof (cases "n < 10")
    case True
    then show ?thesis
      using digit_char [of n] by (subst (1 2 3) nat_digits.simps) (simp add: digits_value_def)
  next
    case False
    have d: "n mod 10 < 10" by simp
    have "digits_value (nat_digits n) = 10 * digits_value (nat_digits (n div 10)) + int (n mod 10)"
      using False digit_char [OF d] by (subst nat_digits.simps) (simp add: digits_value_def)
    then show ?thesis
      using 1 [OF False] digit_char [OF d] False
      by (subst (2 3) nat_digits.simps) (simp add: zdiv_int zmod_int)
  qed
qed

lemma atoi_itoa: "0 \<le> n \<Longrightarrow> n \<le> max_int \<Longrightarrow> atoi (itoa n) = Some n"
proof -
  assume n: "0 \<le> n" "n \<le> max_int"
  have v: "digits_value (nat_digits (nat n)) = n" "list_all is_digit_char (nat_digits (nat n))" "nat_digits (nat n) \<noteq> []"
    using nat_digits_value [of "nat n"] n by auto
  have "\<not> is_digit_char CHR ''-''" "\<not> is_digit_char CHR ''+''" by code_simp+
  then have "\<not> has_prefix (nat_digits (nat n)) ''-''" "\<not> has_prefix (nat_digits (nat n)) ''+''"
    using v(2,3) by (cases "nat_digits (nat n)"; auto)+
  then show ?thesis using n v by (simp add: atoi_def itoa_def Let_def min_int_def)
qed

end
