(* ===== verification/Theme.thy ===== *)
theory Theme
  imports Scanner
begin

text \<open>
  The theme engine of \<open>internal/theme/theme.go\<close>. \<open>html/template\<close> is the record \<open>tmpl_lib\<close> over
  a type \<open>'t\<close> of template sets and a type \<open>'d\<close> of the data handed to a template. A template set
  is a value: a render works on a clone. The walk over \<open>templates/\<close> and the files are those of
  \<open>content_fs\<close>. The two atomic pointers are the fields of \<open>engine\<close>.
\<close>

subsection \<open>Loading\<close>

record ('t, 'd) tmpl_lib =
  tp_new :: 't
  tp_parse :: "'t \<Rightarrow> string \<Rightarrow> string \<Rightarrow> 't option"
  tp_has :: "'t \<Rightarrow> string \<Rightarrow> bool"
  tp_clone :: "'t \<Rightarrow> 't option"
  tp_parse_page :: "'t \<Rightarrow> string \<Rightarrow> 't option"
  tp_execute :: "'t \<Rightarrow> string \<Rightarrow> 'd \<Rightarrow> string option"

datatype theme_error =
    WalkTemplates fs_error
  | ReadTemplate string fs_error
  | ParseTemplate string
  | NoBase
  | TemplateNotFound string
  | CloneFailed
  | ParsePage string
  | Cancelled
  | ExecuteFailed

definition base_name :: string where
  "base_name = ''templates/base.html''"

definition is_shared :: "string \<Rightarrow> bool" where
  "is_shared path \<longleftrightarrow> contains path ''partials/'' \<or> path = base_name"

text \<open>The callback of the walk.\<close>

definition load_visit ::
  "('t, 'd) tmpl_lib \<Rightarrow> content_fs \<Rightarrow> visit \<Rightarrow> 't \<times> (string \<rightharpoonup> string) \<Rightarrow>
   (theme_error, 't \<times> (string \<rightharpoonup> string)) result" where
  "load_visit lib fs v s =
     (case v of
        VisitErr path e \<Rightarrow> Err (WalkTemplates e)
      | VisitDir path \<Rightarrow> Ok s
      | VisitFile path \<Rightarrow>
          (if \<not> has_suffix path ''.html'' then Ok s
           else case cf_read fs path of
             Inl e \<Rightarrow> Err (ReadTemplate path e)
           | Inr src \<Rightarrow>
               (if is_shared path
                then case tp_parse lib (fst s) path src of
                    None \<Rightarrow> Err (ParseTemplate path)
                  | Some base \<Rightarrow> Ok (base, snd s)
                else Ok (fst s, (snd s)(path \<mapsto> src)))))"

fun load_visits ::
  "('t, 'd) tmpl_lib \<Rightarrow> content_fs \<Rightarrow> visit list \<Rightarrow> 't \<times> (string \<rightharpoonup> string) \<Rightarrow>
   (theme_error, 't \<times> (string \<rightharpoonup> string)) result" where
  "load_visits lib fs [] s = Ok s"
| "load_visits lib fs (v # vs) s =
     (case load_visit lib fs v s of Inl e \<Rightarrow> Err e | Inr s' \<Rightarrow> load_visits lib fs vs s')"

record 't engine =
  en_base :: 't
  en_pages :: "string \<rightharpoonup> string"

definition load_templates :: "('t, 'd) tmpl_lib \<Rightarrow> content_fs \<Rightarrow> (theme_error, 't engine) result" where
  "load_templates lib fs =
     (case load_visits lib fs (cf_walk fs ''templates'') (tp_new lib, Map.empty) of
        Inl e \<Rightarrow> Err e
      | Inr (base, pages) \<Rightarrow>
          if \<not> tp_has lib base base_name then Err NoBase else Ok \<lparr>en_base = base, en_pages = pages\<rparr>)"

definition new_engine :: "('t, 'd) tmpl_lib \<Rightarrow> content_fs \<Rightarrow> (theme_error, 't engine) result" where
  "new_engine lib fs = load_templates lib fs"

text \<open>The pointers are stored when all has loaded.\<close>

definition engine_reload :: "('t, 'd) tmpl_lib \<Rightarrow> content_fs \<Rightarrow> 't engine \<Rightarrow> theme_error option \<times> 't engine" where
  "engine_reload lib fs en =
     (case load_templates lib fs of Inl e \<Rightarrow> (Some e, en) | Inr en' \<Rightarrow> (None, en'))"

subsection \<open>Rendering\<close>

text \<open>\<open>cancelled\<close>: the request's context is done when the render checks it.\<close>

definition render_page ::
  "('t, 'd) tmpl_lib \<Rightarrow> 't engine \<Rightarrow> bool \<Rightarrow> string \<Rightarrow> 'd \<Rightarrow> (theme_error, string) result" where
  "render_page lib en cancelled name d =
     (case en_pages en name of
        None \<Rightarrow> Err (TemplateNotFound name)
      | Some src \<Rightarrow>
          (case tp_clone lib (en_base en) of
             None \<Rightarrow> Err CloneFailed
           | Some t \<Rightarrow>
               (case tp_parse_page lib t src of
                  None \<Rightarrow> Err (ParsePage name)
                | Some t' \<Rightarrow>
                    (if cancelled then Err Cancelled
                     else case tp_execute lib t' base_name d of
                       None \<Rightarrow> Err ExecuteFailed
                     | Some out \<Rightarrow> Ok out))))"

subsection \<open>Template functions\<close>

definition tf_truncate :: "string \<Rightarrow> int \<Rightarrow> string" where
  "tf_truncate s n =
     (if n \<le> 0 then ''''
      else let rs = runes s in
        if int (length rs) \<le> n then s
        else let t = encode_runes (take (nat n) rs) in
          case last_index_of (CHR '' '') t of
            Some i \<Rightarrow> (if 0 < i then take i t else t) @ ellipsis
          | None \<Rightarrow> t @ ellipsis)"

definition tf_reading_time :: "string \<Rightarrow> int" where
  "tf_reading_time txt =
     (let m = int (length (Go_Strings.fields txt)) div 200 in if 0 < m then m else 1)"

text \<open>The difference is taken in 64-bit arithmetic.\<close>

definition wrap_int :: "int \<Rightarrow> int" where
  "wrap_int x = (x + 2 ^ 63) mod 2 ^ 64 - 2 ^ 63"

definition tf_seq :: "int \<Rightarrow> int \<Rightarrow> int list option" where
  "tf_seq start stop =
     (if 10000 < wrap_int (stop - start) \<or> wrap_int (stop - start) < 0 then None else Some [start..stop])"

text \<open>\<open>urlize\<close>, on runes: \<open>NFKD\<close>, \<open>NFC\<close>, the lower case and the Unicode classes are parameters.\<close>

record uni_lib =
  ul_lower :: "string \<Rightarrow> string"
  ul_nfkd :: "string \<Rightarrow> string"
  ul_nfc :: "string \<Rightarrow> string"
  ul_mark :: "nat \<Rightarrow> bool"
  ul_letter_number :: "nat \<Rightarrow> bool"

definition latin_translit :: "(nat \<times> string) list" where
  "latin_translit =
     [(0xDF, ''ss''), (0xE6, ''ae''), (0x153, ''oe''), (0xF8, ''o''), (0x111, ''d''), (0x142, ''l''),
      (0xFE, ''th''), (0xF0, ''d'')]"

definition replace_rune :: "nat \<Rightarrow> string \<Rightarrow> nat list \<Rightarrow> nat list" where
  "replace_rune old new rs = concat (map (\<lambda>r. if r = old then map of_char new else [r]) rs)"

definition url_rune :: "nat \<Rightarrow> bool" where
  "url_rune r \<longleftrightarrow> 97 \<le> r \<and> r \<le> 122 \<or> 48 \<le> r \<and> r \<le> 57 \<or> r = 45"

definition urlize :: "uni_lib \<Rightarrow> string \<Rightarrow> string" where
  "urlize lib s =
     (let rs = runes (ul_nfkd lib (ul_lower lib s));
          rs = fold (\<lambda>(old, new). replace_rune old new) latin_translit rs;
          rs = map (\<lambda>r. if r = 32 then 45 else r) rs;
          rs = filter (\<lambda>r. url_rune r \<or> \<not> ul_mark lib r \<and> ul_letter_number lib r) rs
      in ul_nfc lib (encode_runes rs))"

subsection \<open>Reloading\<close>

lemma load_templates_ok: "load_templates lib fs = Ok en \<Longrightarrow> tp_has lib (en_base en) base_name"
  by (auto simp: load_templates_def split: sum.splits if_splits prod.splits)

lemma engine_reload_keeps: "engine_reload lib fs en = (Some e, en') \<Longrightarrow> en' = en"
  by (auto simp: engine_reload_def split: sum.splits)

lemma engine_reload_base:
  "tp_has lib (en_base en) base_name \<Longrightarrow> tp_has lib (en_base (snd (engine_reload lib fs en))) base_name"
  by (auto simp: engine_reload_def split: sum.splits dest: load_templates_ok)

text \<open>What a successful load holds: the pages are the files that are not shared, each with its text.\<close>

lemma load_visits_pages:
  "load_visits lib fs vs s = Ok s' \<Longrightarrow>
     snd s' p = (if VisitFile p \<in> set vs \<and> has_suffix p ''.html'' \<and> \<not> is_shared p
                 then (case cf_read fs p of Inr src \<Rightarrow> Some src | Inl e \<Rightarrow> None) else snd s p)"
proof (induction vs arbitrary: s)
  case (Cons v vs)
  obtain s1 where s1: "load_visit lib fs v s = Ok s1" "load_visits lib fs vs s1 = Ok s'"
    using Cons.prems by (auto split: sum.splits)
  have "snd s1 p = (if v = VisitFile p \<and> has_suffix p ''.html'' \<and> \<not> is_shared p
      then (case cf_read fs p of Inr src \<Rightarrow> Some src | Inl e \<Rightarrow> None) else snd s p)"
    using s1(1) by (auto simp: load_visit_def split: visit.splits if_splits sum.splits option.splits)
  then show ?case using Cons.IH [OF s1(2)] by auto
qed simp

lemma load_templates_pages:
  assumes "load_templates lib fs = Ok en"
  shows "en_pages en p = (if VisitFile p \<in> set (cf_walk fs ''templates'') \<and> has_suffix p ''.html'' \<and> \<not> is_shared p
    then (case cf_read fs p of Inr src \<Rightarrow> Some src | Inl e \<Rightarrow> None) else None)"
proof -
  obtain s where "load_visits lib fs (cf_walk fs ''templates'') (tp_new lib, Map.empty) = Ok s" "snd s = en_pages en"
    using assms by (auto simp: load_templates_def split: sum.splits if_splits prod.splits)
  then show ?thesis using load_visits_pages [of lib fs _ "(tp_new lib, Map.empty)" s p] by simp
qed

end
