(* ===== verification/Handlers.thy ===== *)
theory Handlers
  imports Http Theme Search_Query
begin

text \<open>
  The page handlers of \<open>internal/server/handlers/handlers.go\<close> and \<open>search.go\<close> over the shared
  state \<open>Deps\<close>. The state's atomic pointers are the fields of \<open>deps\<close>; the Prometheus counters
  of page views and queries are kept as the list of what was counted. A handler that would
  dereference a nil content index panics.
\<close>

subsection \<open>Shared state\<close>

record site_snapshot =
  ss_generation :: nat
  ss_content :: "index option"
  ss_search :: "search_index option"

record 't deps =
  dp_config :: config
  dp_snap :: "site_snapshot option"
  dp_gen :: nat
  dp_theme :: "'t engine"
  dp_overlay :: "(string \<Rightarrow> (fs_error, string) result) option"
  dp_search_enabled :: bool
  dp_static :: "string option"
  dp_views :: "(string \<times> string) list"
  dp_queries :: "string list"
  dp_counts :: "nat list"

definition new_deps :: "config \<Rightarrow> index option \<Rightarrow> 't engine \<Rightarrow> 't deps" where
  "new_deps cfg idx theme =
     \<lparr>dp_config = cfg, dp_snap = Some \<lparr>ss_generation = 0, ss_content = idx, ss_search = None\<rparr>, dp_gen = 0,
      dp_theme = theme, dp_overlay = None, dp_search_enabled = False, dp_static = None,
      dp_views = [], dp_queries = [], dp_counts = []\<rparr>"

definition set_config :: "config \<Rightarrow> 't deps \<Rightarrow> 't deps" where
  "set_config cfg d = d\<lparr>dp_config := cfg, dp_static := None\<rparr>"

text \<open>\<open>atomic.Uint64\<close>.\<close>

definition next_generation :: "'t deps \<Rightarrow> nat \<times> 't deps" where
  "next_generation d = (let g = (dp_gen d + 1) mod 2 ^ 64 in (g, d\<lparr>dp_gen := g\<rparr>))"

definition set_search_enabled :: "bool \<Rightarrow> 't deps \<Rightarrow> 't deps" where
  "set_search_enabled v d = d\<lparr>dp_search_enabled := v\<rparr>"

definition load_index :: "'t deps \<Rightarrow> index option" where
  "load_index d = (case dp_snap d of None \<Rightarrow> None | Some s \<Rightarrow> ss_content s)"

definition load_search :: "'t deps \<Rightarrow> search_index option" where
  "load_search d = (case dp_snap d of None \<Rightarrow> None | Some s \<Rightarrow> ss_search s)"

definition set_snapshot :: "nat \<Rightarrow> index option \<Rightarrow> search_index option \<Rightarrow> 't deps \<Rightarrow> 't deps" where
  "set_snapshot gen idx si d =
     d\<lparr>dp_snap := Some \<lparr>ss_generation = gen, ss_content = idx, ss_search = si\<rparr>, dp_static := None\<rparr>"

definition set_index :: "index option \<Rightarrow> 't deps \<Rightarrow> 't deps" where
  "set_index idx d = (let (g, d') = next_generation d in set_snapshot g idx None d')"

definition post_count :: "'t deps \<Rightarrow> nat" where
  "post_count d = (case load_index d of None \<Rightarrow> 0 | Some idx \<Rightarrow> length (ix_posts idx))"

subsection \<open>Template data\<close>

record 'f search_data =
  sq_enabled :: bool
  sq_executed :: bool
  sq_query :: string
  sq_results :: "'f search_result list"
  sq_total :: nat
  sq_page :: int
  sq_total_pages :: int
  sq_has_prev :: bool
  sq_has_next :: bool
  sq_prev_url :: string
  sq_next_url :: string
  sq_error :: string
  sq_truncated :: bool

definition empty_search_data :: "'f search_data" where
  "empty_search_data =
     \<lparr>sq_enabled = False, sq_executed = False, sq_query = '''', sq_results = [], sq_total = 0, sq_page = 0,
      sq_total_pages = 0, sq_has_prev = False, sq_has_next = False, sq_prev_url = '''', sq_next_url = '''',
      sq_error = '''', sq_truncated = False\<rparr>"

record pagination =
  pg_current :: int
  pg_total :: int
  pg_has_prev :: bool
  pg_has_next :: bool
  pg_prev :: int
  pg_next :: int
  pg_prev_url :: string
  pg_next_url :: string

record 'f page_data =
  pd_site :: site_config
  pd_feed :: feed_config
  pd_post :: "post option"
  pd_page :: "post option"
  pd_posts :: "post list"
  pd_tag :: string
  pd_title :: string
  pd_pagination :: "pagination option"
  pd_search :: "'f search_data option"

definition page_data_of :: "config \<Rightarrow> string \<Rightarrow> 'f page_data" where
  "page_data_of cfg title =
     \<lparr>pd_site = cg_site cfg, pd_feed = cg_feed cfg, pd_post = None, pd_page = None, pd_posts = [],
      pd_tag = '''', pd_title = title, pd_pagination = None, pd_search = None\<rparr>"

subsection \<open>Rendering\<close>

definition html_type :: string where
  "html_type = ''text/html; charset=utf-8''"

definition nil_panic :: string where
  "nil_panic = ''runtime error: invalid memory address or nil pointer dereference''"

definition server_error :: "writer \<Rightarrow> writer" where
  "server_error w = http_error ''Internal Server Error'' 500 w"

definition write_html :: "nat \<Rightarrow> string \<Rightarrow> writer \<Rightarrow> writer" where
  "write_html code out w = write_body out (write_header code (set_header ''Content-Type'' html_type w))"

definition render_template ::
  "('t, 'f page_data) tmpl_lib \<Rightarrow> request \<Rightarrow> string \<Rightarrow> 'f page_data \<Rightarrow> nat \<Rightarrow> 't deps \<times> writer \<Rightarrow>
   ('t deps \<times> writer) \<times> exit" where
  "render_template lib req name data code s =
     (case s of (d, w) \<Rightarrow>
       (let data' = (if pd_search data = None
              then data\<lparr>pd_search := Some (empty_search_data\<lparr>sq_enabled := dp_search_enabled d\<rparr>)\<rparr> else data) in
        case render_page lib (dp_theme d) (rq_cancelled req) name data' of
          Inl e \<Rightarrow> ((d, if rq_gone req then w else server_error w), Returned)
        | Inr out \<Rightarrow> ((d, write_html code out w), Returned)))"

definition record_view :: "string \<Rightarrow> string \<Rightarrow> 't deps \<times> writer \<Rightarrow> 't deps \<times> writer" where
  "record_view typ slug s = (case s of (d, w) \<Rightarrow> (d\<lparr>dp_views := dp_views d @ [(typ, slug)]\<rparr>, w))"

definition not_found_handler :: "('t, 'f page_data) tmpl_lib \<Rightarrow> 't deps handler" where
  "not_found_handler lib req s =
     render_template lib req ''templates/404.html'' (page_data_of (dp_config (fst s)) ''Page Not Found'') 404 s"

subsection \<open>Paging\<close>

text \<open>\<open>math.Ceil\<close> of the quotient of two counts that are exact as \<open>float64\<close>.\<close>

definition ceil_div :: "int \<Rightarrow> int \<Rightarrow> int" where
  "ceil_div a b = - ((- a) div b)"

definition list_total :: "nat \<Rightarrow> int \<Rightarrow> int" where
  "list_total posts per_page = max 1 (ceil_div (int posts) per_page)"

definition paginate :: "post list \<Rightarrow> int \<Rightarrow> int \<Rightarrow> post list \<times> pagination" where
  "paginate posts page per_page0 =
     (if per_page0 = 0
      then (posts, \<lparr>pg_current = 1, pg_total = 1, pg_has_prev = False, pg_has_next = False, pg_prev = 0,
                    pg_next = 0, pg_prev_url = '''', pg_next_url = ''''\<rparr>)
      else let per_page = (if per_page0 < 0 then 10 else per_page0);
          total = length posts;
          total_pages = list_total total per_page;
          page1 = (if page < 1 then 1 else page);
          page2 = (if total_pages < page1 then total_pages else page1);
          start = (page2 - 1) * per_page;
          stop = min (start + per_page) (int total)
        in (take (nat (stop - start)) (drop (nat start) posts),
            \<lparr>pg_current = page2, pg_total = total_pages, pg_has_prev = 1 < page2,
             pg_has_next = page2 < total_pages, pg_prev = page2 - 1, pg_next = page2 + 1,
             pg_prev_url = '''', pg_next_url = ''''\<rparr>))"

definition query_int :: "request \<Rightarrow> string \<Rightarrow> int \<Rightarrow> int" where
  "query_int req key dflt =
     (let s = rq_query req key in
      if s = '''' then dflt else case atoi s of None \<Rightarrow> dflt | Some v \<Rightarrow> v)"

definition parse_page :: "request \<Rightarrow> int \<times> bool" where
  "parse_page req =
     (let p = rq_value req ''page'' in
      if p \<noteq> '''' then (case atoi p of None \<Rightarrow> (-1, True) | Some v \<Rightarrow> if v < 1 then (-1, True) else (v, True))
      else (query_int req ''page'' 1, False))"

definition valid_page :: "nat \<Rightarrow> int \<Rightarrow> int \<Rightarrow> bool" where
  "valid_page posts page per_page =
     (if per_page \<le> 0 then page = 1 else 1 \<le> page \<and> page \<le> list_total posts per_page)"

definition list_page_url :: "int \<Rightarrow> string" where
  "list_page_url p = (if p \<le> 1 then ''/'' else ''/page/'' @ itoa p)"

definition posts_page_url :: "int \<Rightarrow> string" where
  "posts_page_url p = (if p \<le> 1 then ''/posts'' else ''/posts?page='' @ itoa p)"

definition tag_page_url :: "string \<Rightarrow> int \<Rightarrow> string" where
  "tag_page_url tag p =
     (if p \<le> 1 then ''/tags/'' @ path_escape tag else ''/tags/'' @ path_escape tag @ ''?page='' @ itoa p)"

definition set_page_urls :: "(int \<Rightarrow> string) \<Rightarrow> pagination \<Rightarrow> pagination" where
  "set_page_urls url pag =
     (let pag1 = (if pg_has_prev pag then pag\<lparr>pg_prev_url := url (pg_prev pag)\<rparr> else pag) in
      if pg_has_next pag1 then pag1\<lparr>pg_next_url := url (pg_next pag1)\<rparr> else pag1)"

definition list_data :: "config \<Rightarrow> string \<Rightarrow> post list \<Rightarrow> int \<Rightarrow> (int \<Rightarrow> string) \<Rightarrow> 'f page_data" where
  "list_data cfg title posts page url =
     (let (paged, pag) = paginate posts page (co_posts_per_page (cg_content cfg)) in
      (page_data_of cfg title)\<lparr>pd_posts := paged, pd_pagination := Some (set_page_urls url pag)\<rparr>)"

subsection \<open>Handlers\<close>

definition panic_nil :: "'s \<times> writer \<Rightarrow> ('s \<times> writer) \<times> exit" where
  "panic_nil s = (s, Panicked nil_panic)"

definition list_handler :: "('t, 'f page_data) tmpl_lib \<Rightarrow> 't deps handler" where
  "list_handler lib req s =
     (let cfg = dp_config (fst s); per_page = co_posts_per_page (cg_content cfg);
          (page, path_based) = parse_page req in
      if page < 0 then not_found_handler lib req s
      else if path_based \<and> page = 1 then ((fst s, http_redirect req ''/'' (snd s)), Returned)
      else case load_index (fst s) of
          None \<Rightarrow> panic_nil s
        | Some idx \<Rightarrow>
            (if path_based \<and> \<not> valid_page (length (ix_posts idx)) page per_page then not_found_handler lib req s
             else render_template lib req ''templates/list.html''
                 (list_data cfg ''Posts'' (ix_posts idx) page list_page_url) 200 (record_view ''list'' '''' s)))"

definition posts_list_handler :: "('t, 'f page_data) tmpl_lib \<Rightarrow> 't deps handler" where
  "posts_list_handler lib req s =
     (let cfg = dp_config (fst s); q = query_int req ''page'' 1; page = (if q < 1 then 1 else q) in
      case load_index (fst s) of
        None \<Rightarrow> panic_nil s
      | Some idx \<Rightarrow>
          render_template lib req ''templates/list.html''
            (list_data cfg ''Posts'' (ix_posts idx) page posts_page_url) 200 (record_view ''posts_list'' '''' s))"

definition post_handler :: "('t, 'f page_data) tmpl_lib \<Rightarrow> 't deps handler" where
  "post_handler lib req s =
     (let slug = rq_value req ''slug'' in
      case load_index (fst s) of
        None \<Rightarrow> panic_nil s
      | Some idx \<Rightarrow>
          (case ix_by_slug idx slug of
             None \<Rightarrow> not_found_handler lib req s
           | Some p \<Rightarrow>
               render_template lib req ''templates/post.html''
                 ((page_data_of (dp_config (fst s)) (fm_title (po_fm p)))\<lparr>pd_post := Some p\<rparr>) 200
                 (record_view ''post'' slug s)))"

definition page_handler :: "('t, 'f page_data) tmpl_lib \<Rightarrow> 't deps handler" where
  "page_handler lib req s =
     (let slug = rq_value req ''slug'' in
      case load_index (fst s) of
        None \<Rightarrow> panic_nil s
      | Some idx \<Rightarrow>
          (case ix_page_by_slug idx slug of
             None \<Rightarrow> not_found_handler lib req s
           | Some p \<Rightarrow>
               render_template lib req ''templates/page.html''
                 ((page_data_of (dp_config (fst s)) (fm_title (po_fm p)))\<lparr>pd_page := Some p\<rparr>) 200
                 (record_view ''page'' slug s)))"

definition tag_handler :: "('t, 'f page_data) tmpl_lib \<Rightarrow> 't deps handler" where
  "tag_handler lib req s =
     (let tag = rq_value req ''tag'' in
      case load_index (fst s) of
        None \<Rightarrow> panic_nil s
      | Some idx \<Rightarrow>
          (if listed (ix_by_tag idx) tag = [] then not_found_handler lib req s
           else render_template lib req ''templates/list.html''
               ((list_data (dp_config (fst s)) (''Posts tagged '' @ [CHR 0x22] @ tag @ [CHR 0x22])
                   (listed (ix_by_tag idx) tag) (query_int req ''page'' 1) (tag_page_url tag))\<lparr>pd_tag := tag\<rparr>)
               200 (record_view ''tag'' tag s)))"

definition write_static :: "string \<Rightarrow> writer \<Rightarrow> writer" where
  "write_static b w =
     write_body b (set_header ''Content-Type'' html_type (del_header ''Content-Security-Policy'' w))"

text \<open>The cached bytes are served whatever the path; \<open>SetConfig\<close> and \<open>SetSnapshot\<close> drop them.\<close>

definition serve_static_home :: "('t, 'f page_data) tmpl_lib \<Rightarrow> string \<Rightarrow> 't deps handler" where
  "serve_static_home lib hp req s =
     (case s of (d, w) \<Rightarrow>
       (case dp_static d of
          Some cached \<Rightarrow> ((d, write_static cached w), Returned)
        | None \<Rightarrow>
            (case dp_overlay d of
               None \<Rightarrow> list_handler lib req s
             | Some read \<Rightarrow>
                 (case read (trim_prefix hp ''static:'') of
                    Inl e \<Rightarrow> list_handler lib req s
                  | Inr b \<Rightarrow> ((d\<lparr>dp_static := Some b\<rparr>, write_static b w), Returned)))))"

definition home_handler :: "('t, 'f page_data) tmpl_lib \<Rightarrow> 't deps handler" where
  "home_handler lib req s =
     (let cfg = dp_config (fst s); hp = si_homepage (cg_site cfg) in
      if hp = '''' \<or> hp = ''post_list'' then list_handler lib req s
      else if has_prefix hp ''static:'' then serve_static_home lib hp req s
      else let slug = trim_prefix hp ''page:'' in
        case load_index (fst s) of
          None \<Rightarrow> panic_nil s
        | Some idx \<Rightarrow>
            (case ix_page_by_slug idx slug of
               None \<Rightarrow> list_handler lib req s
             | Some p \<Rightarrow>
                 render_template lib req ''templates/page.html''
                   ((page_data_of cfg (fm_title (po_fm p)))\<lparr>pd_page := Some p\<rparr>) 200
                   (record_view ''home'' slug s)))"

subsection \<open>Search\<close>

definition max_search_page :: int where
  "max_search_page = 1000000"

definition parse_search_page :: "request \<Rightarrow> int" where
  "parse_search_page req =
     (let p = rq_query req ''page'' in
      if p = '''' then 1
      else case atoi p of
        None \<Rightarrow> 1
      | Some v \<Rightarrow> if v < 1 then 1 else if max_search_page < v then max_search_page else v)"

definition search_page_url :: "string \<Rightarrow> int \<Rightarrow> string" where
  "search_page_url query page =
     ''/search?q='' @ query_escape query @ (if 1 < page then ''&page='' @ itoa page else '''')"

definition search_title :: "string \<Rightarrow> string" where
  "search_title query =
     (if query = '''' then ''Search''
      else ''Search results for '' @ [CHR 0x22] @ query @ [CHR 0x22])"

definition populate_search_results :: "'f search_response \<Rightarrow> 'f search_data \<Rightarrow> 'f search_data" where
  "populate_search_results r sq =
     (let has_prev = 1 < sp_page r; has_next = sp_page r < sp_total_pages r;
          prev = min (sp_page r - 1) (sp_total_pages r)
      in sq\<lparr>sq_executed := True, sq_results := sp_results r, sq_total := sp_total r, sq_page := sp_page r,
            sq_total_pages := sp_total_pages r, sq_truncated := sp_truncated r,
            sq_has_prev := has_prev, sq_has_next := has_next,
            sq_prev_url := (if has_prev then search_page_url (sp_query r) prev else sq_prev_url sq),
            sq_next_url := (if has_next then search_page_url (sp_query r) (sp_page r + 1) else sq_next_url sq)\<rparr>)"

text \<open>Whether the page was rendered, and the state after it.\<close>

definition render_search ::
  "('t, 'f page_data) tmpl_lib \<Rightarrow> request \<Rightarrow> 'f search_data \<Rightarrow> nat \<Rightarrow> 't deps \<times> writer \<Rightarrow> bool \<times> 't deps \<times> writer" where
  "render_search lib req sq code s =
     (case s of (d, w) \<Rightarrow>
       (let pd = (page_data_of (dp_config d) (search_title (sq_query sq)))\<lparr>pd_search := Some sq\<rparr> in
        case render_page lib (dp_theme d) (rq_cancelled req) ''templates/search.html'' pd of
          Inl e \<Rightarrow> (False, d, if rq_gone req then w else server_error w)
        | Inr out \<Rightarrow> (True, d, write_html code out w)))"

definition record_query :: "string \<Rightarrow> 't deps \<Rightarrow> 't deps" where
  "record_query st d = d\<lparr>dp_queries := dp_queries d @ [st]\<rparr>"

definition finish_search ::
  "('t, 'f page_data) tmpl_lib \<Rightarrow> request \<Rightarrow> 'f search_data \<Rightarrow> nat \<Rightarrow> string \<Rightarrow> 't deps \<times> writer \<Rightarrow>
   bool \<times> 't deps \<times> writer" where
  "finish_search lib req sq code st s =
     (case render_search lib req sq code s of
        (ok, d, w) \<Rightarrow> (ok, record_query (if ok then st else ''error'') d, w))"

definition search_handler ::
  "text_lib \<Rightarrow> ('f :: linorder) float_ops \<Rightarrow> ('t, 'f page_data) tmpl_lib \<Rightarrow> 't deps handler" where
  "search_handler tx ops lib req s =
     (let sc = cg_search (dp_config (fst s));
          raw = rq_query req ''q''; normalized = normalize_query tx raw;
          sq = empty_search_data\<lparr>sq_enabled := True, sq_query := raw, sq_page := 1\<rparr>;
          refuse = (\<lambda>msg code st. (snd (finish_search lib req (sq\<lparr>sq_error := msg\<rparr>) code st s), Returned));
          unavailable = refuse ''Search is temporarily unavailable. Please try again shortly.'' 503 ''error'' in
      if normalized = '''' then (snd (render_search lib req sq 200 s), Returned)
      else if se_max_query_length sc < int (rune_len normalized)
      then refuse ''Search query is too long. Please shorten it and try again.'' 400 ''invalid''
      else if int (rune_len normalized) < se_min_query_length sc
      then refuse (''Please enter at least '' @ itoa (se_min_query_length sc) @ '' characters to search.'') 200 ''invalid''
      else let page = parse_search_page req;
          limit = (if se_max_results sc < 1 then 20 else se_max_results sc) in
        case dp_snap (fst s) of
          None \<Rightarrow> unavailable
        | Some snap \<Rightarrow>
            (case ss_search snap of
               None \<Rightarrow> unavailable
             | Some si \<Rightarrow>
                 (case search tx ops (Some si) (map_option ix_by_slug (ss_content snap)) raw
                     \<lparr>so_limit = limit, so_offset = (page - 1) * limit\<rparr> of
                    Inl ErrQueryTooComplex \<Rightarrow>
                      refuse ''Search query is too complex. Please use fewer distinct words.'' 400 ''invalid''
                  | Inl ErrIndexUnavailable \<Rightarrow> unavailable
                  | Inr r \<Rightarrow>
                      (case finish_search lib req (populate_search_results r sq) 200 ''ok'' s of
                         (ok, d, w) \<Rightarrow>
                           ((if ok then d\<lparr>dp_counts := dp_counts d @ [sp_total r]\<rparr> else d, w), Returned)))))"

subsection \<open>Pages of the post list\<close>

lemma ceil_div_eq: "0 < b \<Longrightarrow> ceil_div a b = (a + b - 1) div b"
proof -
  assume b: "0 < b"
  have "- a = b * ((- a) div b) + (- a) mod b" by simp
  then have e: "a + b - 1 = b * (- ((- a) div b)) + (b - 1 - (- a) mod b)" by (simp add: algebra_simps)
  have "0 \<le> b - 1 - (- a) mod b" "b - 1 - (- a) mod b < b"
    using b pos_mod_bound [of b "- a"] pos_mod_sign [of b "- a"] by linarith+
  from int_div_pos_eq [OF e this] show ?thesis by (simp add: ceil_div_def)
qed

lemma list_total_covers:
  assumes "0 < n"
  shows "length posts \<le> nat (list_total (length posts) n) * nat n" and "1 \<le> list_total (length posts) n"
proof -
  show one: "1 \<le> list_total (length posts) n" by (simp add: list_total_def)
  have "(int (length posts) + n - 1) div n \<le> list_total (length posts) n"
    by (simp add: list_total_def ceil_div_eq [OF assms])
  from mult_right_mono [OF this, of n] have "int (length posts) \<le> list_total (length posts) n * n"
    using assms div_ceil_enough [of n "length posts"] by linarith
  then show "length posts \<le> nat (list_total (length posts) n) * nat n"
    using assms one by (simp add: nat_mult_distrib [symmetric])
qed

lemma list_total_le: "0 < n \<Longrightarrow> list_total m n \<le> max 1 (int m)"
proof -
  assume n: "0 < n"
  have "(int m + n - 1) div n \<le> int m"
  proof (cases "m = 0")
    case True
    then show ?thesis using n by (simp add: div_pos_pos_trivial)
  next
    case False
    have "int m + n - 1 = n + (int m - 1)" by simp
    then have "(int m + n - 1) div n = (int m - 1) div n + 1"
      using n div_add_self1 [of n "int m - 1"] by (simp only:)
    moreover have "(int m - 1) div n \<le> int m - 1"
      using False n zdiv_mono2 [of "int m - 1" 1 n] by simp
    ultimately show ?thesis by linarith
  qed
  then show ?thesis unfolding list_total_def ceil_div_eq [OF n] by simp
qed

text \<open>The data of page \<open>p\<close>.\<close>

definition page_of :: "post list \<Rightarrow> int \<Rightarrow> int \<Rightarrow> pagination" where
  "page_of posts p n =
     \<lparr>pg_current = p, pg_total = list_total (length posts) n, pg_has_prev = 1 < p,
      pg_has_next = p < list_total (length posts) n, pg_prev = p - 1, pg_next = p + 1,
      pg_prev_url = '''', pg_next_url = ''''\<rparr>"

lemma paginate_page:
  assumes "0 < n" and "1 \<le> p" and "p \<le> list_total (length posts) n"
  shows "paginate posts p n = (take (nat n) (drop (nat (p - 1) * nat n) posts), page_of posts p n)"
proof -
  let ?start = "(p - 1) * n" let ?total = "int (length posts)"
  have s0: "0 \<le> ?start" using assms by simp
  have start: "nat ?start = nat (p - 1) * nat n" using assms by (simp add: nat_mult_distrib)
  have "take (nat (min (?start + n) ?total - ?start)) (drop (nat ?start) posts) = take (nat n) (drop (nat ?start) posts)"
  proof (cases "?start + n \<le> ?total")
    case True
    then show ?thesis by simp
  next
    case False
    then have "nat (min (?start + n) ?total - ?start) = length (drop (nat ?start) posts)"
      using s0 by simp
    moreover have "length (drop (nat ?start) posts) \<le> nat n" using False s0 assms(1) by simp
    ultimately show ?thesis by simp
  qed
  then show ?thesis
    using assms by (simp add: paginate_def Let_def page_of_def start)
qed

definition page_request :: "request \<Rightarrow> string \<Rightarrow> request" where
  "page_request req v = req\<lparr>rq_value := (rq_value req)(''page'' := v)\<rparr>"

definition shown :: "'t deps \<Rightarrow> 'f page_data \<Rightarrow> 'f page_data" where
  "shown d pd = pd\<lparr>pd_search := Some (empty_search_data\<lparr>sq_enabled := dp_search_enabled d\<rparr>)\<rparr>"

definition list_shown :: "'t deps \<Rightarrow> post list \<Rightarrow> int \<Rightarrow> 'f page_data" where
  "list_shown d posts p = shown d (list_data (dp_config d) ''Posts'' posts p list_page_url)"

lemma render_template_ok:
  assumes "render_page lib (dp_theme (fst s)) (rq_cancelled req) name (shown (fst s) pd) = Ok out"
    and "pd_search pd = None"
  shows "render_template lib req name pd code s = ((fst s, write_html code out (snd s)), Returned)"
  using assms by (simp add: render_template_def shown_def split_beta)

lemma response_html:
  "response_of (write_html code out new_writer) = (code, [''Content-Type'' \<mapsto> html_type], out)"
  by (simp add: response_of_def write_html_def new_writer_def)

lemma record_view_simps [simp]:
  "snd (record_view typ slug s) = snd s" "dp_theme (fst (record_view typ slug s)) = dp_theme (fst s)"
  "shown (fst (record_view typ slug s)) pd = shown (fst s) pd"
  by (simp_all add: record_view_def split_beta shown_def)

lemma set_page_urls_list:
  "pg_next_url (set_page_urls url (page_of posts p n)) =
     (if p < list_total (length posts) n then url (p + 1) else '''')"
  "pg_prev_url (set_page_urls url (page_of posts p n)) = (if 1 < p then url (p - 1) else '''')"
  by (simp_all add: set_page_urls_def page_of_def Let_def)

lemma list_shown_page:
  fixes d :: "'t deps"
  assumes "n = co_posts_per_page (cg_content (dp_config d))" and "0 < n"
    and "1 \<le> p" and "p \<le> list_total (length posts) n"
  shows "pd_posts (list_shown d posts p :: 'f page_data) = take (nat n) (drop (nat (p - 1) * nat n) posts)"
    and "pd_pagination (list_shown d posts p :: 'f page_data) = Some (set_page_urls list_page_url (page_of posts p n))"
  using paginate_page [OF assms(2-4)] assms(1)
  by (simp_all add: list_shown_def shown_def list_data_def)

text \<open>A path value that is no page number.\<close>

lemma list_handler_path:
  fixes lib :: "('t, 'f page_data) tmpl_lib"
  assumes idx: "load_index d = Some idx"
    and n: "n = co_posts_per_page (cg_content (dp_config d))" "0 < n"
    and live: "\<not> rq_cancelled req" "v \<noteq> ''''"
    and list: "\<And>pd. render_page lib (dp_theme d) False ''templates/list.html'' pd = Ok (out pd)"
    and missing: "\<And>pd. render_page lib (dp_theme d) False ''templates/404.html'' pd = Ok (nf pd)"
  shows "response_of (snd (fst (list_handler lib (page_request req v) (d, new_writer)))) =
    (case atoi v of
       None \<Rightarrow> (404, [''Content-Type'' \<mapsto> html_type], nf (shown d (page_data_of (dp_config d) ''Page Not Found'')))
     | Some p \<Rightarrow>
        if p = 1 then response_of (http_redirect req ''/'' new_writer)
        else if 1 \<le> p \<and> p \<le> list_total (length (ix_posts idx)) n
        then (200, [''Content-Type'' \<mapsto> html_type], out (list_shown d (ix_posts idx) p))
        else (404, [''Content-Type'' \<mapsto> html_type],
              nf (shown d (page_data_of (dp_config d) ''Page Not Found''))))"
proof -
  have live': "rq_cancelled (page_request req v) = False" using live by (simp add: page_request_def)
  have v: "rq_value (page_request req v) ''page'' = v" by (simp add: page_request_def)
  have nf: "response_of (snd (fst (not_found_handler lib (page_request req v) (d, new_writer)))) =
      (404, [''Content-Type'' \<mapsto> html_type], nf (shown d (page_data_of (dp_config d) ''Page Not Found'')))"
    unfolding not_found_handler_def
    by (subst render_template_ok) (simp_all add: live' missing page_data_of_def response_html)
  have red: "http_redirect (page_request req v) ''/'' w = http_redirect req ''/'' w" for w
    by (simp add: http_redirect_def page_request_def)
  have ok: "response_of (snd (fst (render_template lib (page_request req v) ''templates/list.html''
        (list_data (dp_config d) ''Posts'' (ix_posts idx) p list_page_url) 200 (record_view ''list'' '''' (d, new_writer))))) =
      (200, [''Content-Type'' \<mapsto> html_type], out (list_shown d (ix_posts idx) p))" for p
    by (subst render_template_ok)
      (simp_all add: live' list list_shown_def list_data_def page_data_of_def response_html split_beta)
  show ?thesis
  proof (cases "atoi v")
    case None
    then have "parse_page (page_request req v) = (-1, True)" using live v by (simp add: parse_page_def)
    then show ?thesis using None nf by (simp add: list_handler_def)
  next
    case (Some p)
    then have pp: "parse_page (page_request req v) = (if p < 1 then (-1, True) else (p, True))"
      using live v by (simp add: parse_page_def)
    consider "p < 1" | "p = 1" | "1 < p" "p \<le> list_total (length (ix_posts idx)) n"
      | "1 < p" "list_total (length (ix_posts idx)) n < p" by linarith
    then show ?thesis
    proof cases
      case 1
      then show ?thesis using Some pp nf by (simp add: list_handler_def)
    next
      case 2
      then show ?thesis using Some pp by (simp add: list_handler_def red)
    next
      case 3
      then show ?thesis using Some pp n ok idx by (simp add: list_handler_def valid_page_def)
    next
      case 4
      then show ?thesis using Some pp n nf idx by (simp add: list_handler_def valid_page_def)
    qed
  qed
qed

lemma list_handler_home:
  fixes lib :: "('t, 'f page_data) tmpl_lib"
  assumes idx: "load_index d = Some idx"
    and live: "\<not> rq_cancelled req" "rq_query req ''page'' = ''''"
    and list: "\<And>pd. render_page lib (dp_theme d) False ''templates/list.html'' pd = Ok (out pd)"
  shows "response_of (snd (fst (list_handler lib (page_request req '''') (d, new_writer)))) =
    (200, [''Content-Type'' \<mapsto> html_type], out (list_shown d (ix_posts idx) 1))"
proof -
  have pp: "parse_page (page_request req '''') = (1, False)"
    using live by (simp add: parse_page_def page_request_def query_int_def)
  have "response_of (snd (fst (render_template lib (page_request req '''') ''templates/list.html''
        (list_data (dp_config d) ''Posts'' (ix_posts idx) 1 list_page_url) 200 (record_view ''list'' '''' (d, new_writer))))) =
      (200, [''Content-Type'' \<mapsto> html_type], out (list_shown d (ix_posts idx) 1))"
    using live by (subst render_template_ok)
      (simp_all add: page_request_def list list_shown_def list_data_def page_data_of_def response_html split_beta)
  then show ?thesis using pp idx by (simp add: list_handler_def)
qed

text \<open>
  C18. The post list is paged without loss: with a theme that renders, the pages from \<open>/\<close>
  over \<open>/page/2\<close> to the last each answer 200, show the posts of the index exactly once, in
  order, and link each to its neighbours, none beyond the ends; \<open>/page/1\<close>, however written,
  redirects to \<open>/\<close>; every other path value, a number out of range or no number, is a 404.
\<close>

theorem list_pages_exact:
  fixes lib :: "('t, 'f page_data) tmpl_lib" and d :: "'t deps"
  assumes "load_index d = Some idx" and "int (length (ix_posts idx)) \<le> max_int"
    and "n = co_posts_per_page (cg_content (dp_config d))" and "0 < n"
    and "\<not> rq_cancelled req" and "rq_query req ''page'' = ''''"
    and "\<And>pd. render_page lib (dp_theme d) False ''templates/list.html'' pd = Ok (out pd)"
    and "\<And>pd. render_page lib (dp_theme d) False ''templates/404.html'' pd = Ok (nf pd)"
  shows "let k = nat (list_total (length (ix_posts idx)) n);
      get = (\<lambda>v. response_of (snd (fst (list_handler lib (page_request req v) (d, new_writer)))));
      ds = map (\<lambda>i. list_shown d (ix_posts idx) (int i + 1)) [0..<k] in
    concat (map pd_posts ds) = ix_posts idx \<and>
    (\<forall>i < k. get (if i = 0 then '''' else itoa (int i + 1)) = (200, [''Content-Type'' \<mapsto> html_type], out (ds ! i)) \<and>
       map_option (\<lambda>g. (pg_prev_url g, pg_next_url g)) (pd_pagination (ds ! i)) =
         Some (if i = 0 then '''' else list_page_url (int i),
               if i + 1 = k then '''' else ''/page/'' @ itoa (int i + 2))) \<and>
    (\<forall>v. v \<noteq> '''' \<and> atoi v = Some 1 \<longrightarrow> fst (get v) = 301 \<and> fst (snd (get v)) ''Location'' = Some ''/'') \<and>
    (\<forall>v. v \<noteq> '''' \<and> (\<forall>i < k. atoi v \<noteq> Some (int i + 1)) \<longrightarrow> fst (get v) = 404)"
proof -
  let ?posts = "ix_posts idx" let ?K = "list_total (length (ix_posts idx)) n"
  let ?k = "nat ?K"
  let ?get = "\<lambda>v. response_of (snd (fst (list_handler lib (page_request req v) (d, new_writer))))"
  let ?ds = "map (\<lambda>i. list_shown d (ix_posts idx) (int i + 1) :: 'f page_data) [0..<?k]"
  have K1: "1 \<le> ?K" and len: "length ?posts \<le> ?k * nat n"
    using list_total_covers [OF assms(4)] by auto
  have Kmax: "?K \<le> max_int"
    using list_total_le [OF assms(4), of "length ?posts"] assms(2) by (simp add: max_int_def)
  note path = list_handler_path [OF assms(1,3,4,5) _ assms(7,8)]
  have "map pd_posts ?ds = map (\<lambda>i. take (nat n) (drop (i * nat n) ?posts)) [0..<?k]"
    using list_shown_page(1) [OF assms(3,4), where 'f = 'f and posts = ?posts] by simp
  then have all: "concat (map pd_posts ?ds) = ?posts"
    by (simp only: pages_concat [OF len])
  have one: "?get (if i = 0 then '''' else itoa (int i + 1)) = (200, [''Content-Type'' \<mapsto> html_type], out (?ds ! i)) \<and>
       map_option (\<lambda>g. (pg_prev_url g, pg_next_url g)) (pd_pagination (?ds ! i)) =
         Some (if i = 0 then '''' else list_page_url (int i), if i + 1 = ?k then '''' else ''/page/'' @ itoa (int i + 2))"
    if i: "i < ?k" for i
  proof
    have r: "1 \<le> int i + 1" "int i + 1 \<le> ?K" using i by linarith+
    have a: "atoi (itoa (int i + 1)) = Some (int i + 1)" using r Kmax by (intro atoi_itoa) simp_all
    have ne: "itoa (int i + 1) \<noteq> ''''" using a by (auto simp: atoi_def)
    show "?get (if i = 0 then '''' else itoa (int i + 1)) = (200, [''Content-Type'' \<mapsto> html_type], out (?ds ! i))"
      using i a r path [OF ne] list_handler_home [OF assms(1,5,6,7)] by (cases "i = 0") simp_all
    have "int i + 1 < ?K \<longleftrightarrow> i + 1 \<noteq> ?k" using i by linarith
    then show "map_option (\<lambda>g. (pg_prev_url g, pg_next_url g)) (pd_pagination (?ds ! i)) =
         Some (if i = 0 then '''' else list_page_url (int i), if i + 1 = ?k then '''' else ''/page/'' @ itoa (int i + 2))"
      using i list_shown_page(2) [OF assms(3,4) r, where 'f = 'f]
      by (simp add: set_page_urls_list list_page_url_def add.commute)
  qed
  have first: "fst (?get v) = 301 \<and> fst (snd (?get v)) ''Location'' = Some ''/''" if "v \<noteq> ''''" "atoi v = Some 1" for v
    using path [OF that(1)] that(2)
    by (simp add: http_redirect_def Let_def new_writer_def response_of_def set_header_def write_header_def write_body_def)
  have bad: "fst (?get v) = 404" if v: "v \<noteq> ''''" "\<forall>i < ?k. atoi v \<noteq> Some (int i + 1)" for v
  proof (cases "atoi v")
    case None
    then show ?thesis using path [OF v(1)] by simp
  next
    case (Some p)
    have "p \<noteq> int (nat (p - 1)) + 1 \<or> \<not> nat (p - 1) < ?k" using v(2) unfolding Some by blast
    then have "\<not> (1 \<le> p \<and> p \<le> ?K)" by linarith
    moreover from this have "p \<noteq> 1" using K1 by auto
    ultimately show ?thesis using Some path [OF v(1)] by simp
  qed
  show ?thesis
    unfolding Let_def by (intro conjI all allI impI) (use one first bad in \<open>simp_all\<close>)
qed

definition demo_tmpl :: "(string, 'f page_data) tmpl_lib" where
  "demo_tmpl = \<lparr>tp_new = '''', tp_parse = (\<lambda>t path src. Some (t @ path)), tp_has = (\<lambda>t path. contains t path),
     tp_clone = Some, tp_parse_page = (\<lambda>t src. Some (t @ src)),
     tp_execute = (\<lambda>t name pd. Some (join '','' (map po_slug (pd_posts pd))))\<rparr>"

definition demo_engine :: "string engine" where
  "demo_engine = \<lparr>en_base = base_name, en_pages = (\<lambda>_. Some ''x'')\<rparr>"

definition demo_request :: request where
  "demo_request = \<lparr>rq_method = ''GET'', rq_path = ''/'', rq_uri = ''/'', rq_query = (\<lambda>_. ''''), rq_value = (\<lambda>_. ''''),
     rq_header = (\<lambda>_. ''''), rq_xff = [], rq_remote = '''', rq_cancelled = False, rq_gone = False, rq_id = ''''\<rparr>"

definition demo_deps :: "string deps" where
  "demo_deps = new_deps default_config (Some (empty_index\<lparr>ix_posts := replicate 11 demo_post\<rparr>)) demo_engine"

theorem list_pages_exact_witness:
  "\<exists>get. get = (\<lambda>v. response_of (snd (fst (list_handler (demo_tmpl :: (string, nat page_data) tmpl_lib)
       (page_request demo_request v) (demo_deps, new_writer))))) \<and>
     fst (get ''1'') = 301 \<and> fst (get ''3'') = 404 \<and> fst (get ''x'') = 404"
proof -
  have r: "render_page demo_tmpl (dp_theme demo_deps) False t pd = Ok (join '','' (map po_slug (pd_posts pd)))"
    for t and pd :: "nat page_data"
    by (simp add: render_page_def demo_tmpl_def demo_deps_def new_deps_def demo_engine_def)
  have i: "load_index demo_deps = Some (empty_index\<lparr>ix_posts := replicate 11 demo_post\<rparr>)"
    by (simp add: demo_deps_def new_deps_def load_index_def)
  have n: "10 = co_posts_per_page (cg_content (dp_config demo_deps))"
    by (simp add: demo_deps_def new_deps_def default_config_def)
  have k: "list_total (length (replicate 11 demo_post)) 10 = 2" by (simp add: list_total_def ceil_div_def)
  have a: "atoi ''1'' = Some 1" "atoi ''3'' = Some 3" "atoi ''x'' = None" by code_simp+
  have l: "int (length (ix_posts (empty_index\<lparr>ix_posts := replicate 11 demo_post\<rparr>))) \<le> max_int" by (simp add: max_int_def)
  have p: "(0 :: int) < 10" by simp
  have c: "\<not> rq_cancelled demo_request" "rq_query demo_request ''page'' = ''''" by (simp_all add: demo_request_def)
  note e = list_pages_exact [OF i l n p c r r]
  note e' = e [unfolded Let_def, THEN conjunct2, THEN conjunct2]
  have ix: "ix_posts (empty_index\<lparr>ix_posts := replicate 11 demo_post\<rparr>) = replicate 11 demo_post" by simp
  note f = e' [THEN conjunct1, rule_format, of "''1''"] and g = e' [THEN conjunct2, rule_format, unfolded ix k]
  have "fst (response_of (snd (fst (list_handler (demo_tmpl :: (string, nat page_data) tmpl_lib)
       (page_request demo_request ''1'') (demo_deps, new_writer))))) = 301"
    using f a by simp
  moreover have "fst (response_of (snd (fst (list_handler (demo_tmpl :: (string, nat page_data) tmpl_lib)
       (page_request demo_request v) (demo_deps, new_writer))))) = 404" if "v = ''3'' \<or> v = ''x''" for v
    by (rule g) (use that a in \<open>auto simp: less_Suc_eq\<close>)
  ultimately show ?thesis by blast
qed

end
