(* ===== verification/Feeds.thy ===== *)
theory Feeds
  imports Handlers Content_Cache Client_IP
begin

text \<open>
  The feed, the sitemap and their conditional responses (\<open>internal/server/handlers/feed.go\<close>,
  \<open>sitemap.go\<close>, \<open>cache.go\<close>). \<open>encoding/xml\<close>, SHA-256 and the time formats are the record
  \<open>feed_lib\<close>; times are instants, zero for the zero time, \<open>now\<close> the clock of the request.
\<close>

subsection \<open>Documents\<close>

record atom_link =
  al_href :: string
  al_rel :: string
  al_type :: string

record atom_entry =
  ae_title :: string
  ae_link :: atom_link
  ae_id :: string
  ae_updated :: string
  ae_summary :: string

record atom_feed =
  af_xmlns :: string
  af_title :: string
  af_links :: "atom_link list"
  af_updated :: string
  af_author_name :: string
  af_author_email :: string
  af_id :: string
  af_entries :: "atom_entry list"

record rss_item =
  ri_title :: string
  ri_link :: string
  ri_description :: string
  ri_pub_date :: string
  ri_guid :: string

record rss_feed =
  rf_version :: string
  rf_title :: string
  rf_link :: string
  rf_description :: string
  rf_language :: string
  rf_pub_date :: string
  rf_items :: "rss_item list"

record site_url =
  su_loc :: string
  su_last_mod :: string
  su_change_freq :: string
  su_priority :: string

record url_set =
  us_xmlns :: string
  us_urls :: "site_url list"

datatype xml_doc = AtomDoc atom_feed | RssDoc rss_feed | SitemapDoc url_set

record feed_lib =
  fl_encode :: "xml_doc \<Rightarrow> string option"
  fl_sha256 :: "string \<Rightarrow> string"
  fl_rfc3339 :: "int \<Rightarrow> string"
  fl_rfc1123z :: "int \<Rightarrow> string"
  fl_day :: "int \<Rightarrow> string"
  fl_http_date :: "int \<Rightarrow> string"
  fl_parse_http :: "string \<Rightarrow> int option"

subsection \<open>Conditional responses\<close>

definition etag_matches :: "string \<Rightarrow> string \<Rightarrow> bool" where
  "etag_matches inm etag \<longleftrightarrow>
     trim_space inm = ''*'' \<or>
     list_ex (\<lambda>field. trim_prefix (trim_space field) ''W/'' = etag) (split_on CHR '','' inm)"

definition quoted :: "string \<Rightarrow> string" where
  "quoted s = CHR 0x22 # s @ [CHR 0x22]"

definition xml_header :: string where
  "xml_header = ''<?xml version='' @ quoted ''1.0'' @ '' encoding='' @ quoted ''UTF-8'' @ ''?>'' @ [CHR 0x0A]"

definition etag_of :: "feed_lib \<Rightarrow> string \<Rightarrow> string" where
  "etag_of lib body = quoted (hex_encode (take 8 (fl_sha256 lib body)))"

definition write_xml_cached :: "feed_lib \<Rightarrow> request \<Rightarrow> string \<Rightarrow> xml_doc \<Rightarrow> int \<Rightarrow> writer \<Rightarrow> writer" where
  "write_xml_cached lib req ctype doc last_mod w =
     (case fl_encode lib doc of
        None \<Rightarrow> server_error w
      | Some xml \<Rightarrow>
          (let body = xml_header @ xml; etag = etag_of lib body;
               w1 = set_header ''ETag'' etag (set_header ''Cache-Control'' ''public, max-age=3600''
                 (set_header ''Content-Type'' ctype w));
               w2 = (if last_mod \<noteq> 0 then set_header ''Last-Modified'' (fl_http_date lib last_mod) w1 else w1);
               inm = rq_header req ''If-None-Match''; ims = rq_header req ''If-Modified-Since'' in
           if inm \<noteq> ''''
           then (if etag_matches inm etag then write_header 304 w2 else write_body body w2)
           else if last_mod \<noteq> 0 \<and> ims \<noteq> '''' \<and>
             (case fl_parse_http lib ims of None \<Rightarrow> False | Some t \<Rightarrow> last_mod - last_mod mod second \<le> t)
           then write_header 304 w2
           else write_body body w2))"

subsection \<open>The feed\<close>

definition limited_posts :: "config \<Rightarrow> post list \<Rightarrow> post list" where
  "limited_posts cfg posts =
     (let limit = (if fe_items (cg_feed cfg) \<le> 0 then 20 else fe_items (cg_feed cfg)) in
      if limit < int (length posts) then take (nat limit) posts else posts)"

definition instant_of :: "post \<Rightarrow> int" where
  "instant_of p = gt_instant (fm_date (po_fm p))"

definition post_url :: "config \<Rightarrow> post \<Rightarrow> string" where
  "post_url cfg p = si_base_url (cg_site cfg) @ ''/posts/'' @ po_slug p"

definition newest :: "post list \<Rightarrow> int" where
  "newest posts = (if posts = [] then 0 else instant_of (hd posts))"

definition atom_feed_of :: "feed_lib \<Rightarrow> int \<Rightarrow> config \<Rightarrow> post list \<Rightarrow> atom_feed" where
  "atom_feed_of lib now cfg posts =
     (let base = si_base_url (cg_site cfg) in
      \<lparr>af_xmlns = ''http://www.w3.org/2005/Atom'', af_title = si_title (cg_site cfg),
       af_links = [\<lparr>al_href = base @ ''/feed.xml'', al_rel = ''self'', al_type = ''application/atom+xml''\<rparr>,
                   \<lparr>al_href = base @ ''/'', al_rel = ''alternate'', al_type = ''text/html''\<rparr>],
       af_updated = fl_rfc3339 lib (if posts = [] then now else newest posts),
       af_author_name = si_author_name (cg_site cfg), af_author_email = si_author_email (cg_site cfg),
       af_id = base @ ''/'',
       af_entries = map (\<lambda>p. \<lparr>ae_title = fm_title (po_fm p),
           ae_link = \<lparr>al_href = post_url cfg p, al_rel = ''alternate'', al_type = ''''\<rparr>, ae_id = post_url cfg p,
           ae_updated = fl_rfc3339 lib (instant_of p), ae_summary = po_summary p\<rparr>) posts\<rparr>)"

definition rss_feed_of :: "feed_lib \<Rightarrow> config \<Rightarrow> post list \<Rightarrow> rss_feed" where
  "rss_feed_of lib cfg posts =
     \<lparr>rf_version = ''2.0'', rf_title = si_title (cg_site cfg), rf_link = si_base_url (cg_site cfg),
      rf_description = si_description (cg_site cfg), rf_language = si_language (cg_site cfg),
      rf_pub_date = (if posts = [] then '''' else fl_rfc1123z lib (newest posts)),
      rf_items = map (\<lambda>p. \<lparr>ri_title = fm_title (po_fm p), ri_link = post_url cfg p,
          ri_description = po_summary p, ri_pub_date = fl_rfc1123z lib (instant_of p),
          ri_guid = post_url cfg p\<rparr>) posts\<rparr>"

definition feed_handler :: "feed_lib \<Rightarrow> int \<Rightarrow> 't deps handler" where
  "feed_handler lib now req s =
     (case s of (d, w) \<Rightarrow>
       (let cfg = dp_config d in
        case load_index d of
          None \<Rightarrow> panic_nil s
        | Some idx \<Rightarrow>
            (let posts = limited_posts cfg (ix_posts idx) in
             ((d, if fe_type (cg_feed cfg) = ''rss''
                  then write_xml_cached lib req ''application/rss+xml; charset=utf-8''
                    (RssDoc (rss_feed_of lib cfg posts)) (newest posts) w
                  else write_xml_cached lib req ''application/atom+xml; charset=utf-8''
                    (AtomDoc (atom_feed_of lib now cfg posts)) (newest posts) w), Returned))))"

subsection \<open>The sitemap\<close>

definition max_urls :: nat where
  "max_urls = 50000"

definition url_entry :: "feed_lib \<Rightarrow> string \<Rightarrow> string \<Rightarrow> string \<Rightarrow> int \<Rightarrow> site_url" where
  "url_entry lib loc freq prio t =
     \<lparr>su_loc = loc, su_last_mod = (if t \<noteq> 0 then fl_day lib t else ''''), su_change_freq = freq, su_priority = prio\<rparr>"

definition sitemap_urls :: "feed_lib \<Rightarrow> config \<Rightarrow> index \<Rightarrow> site_url list" where
  "sitemap_urls lib cfg idx =
     (let base = si_base_url (cg_site cfg);
          urls = url_entry lib (base @ ''/'') ''daily'' ''1.0'' (newest (ix_posts idx)) #
            map (\<lambda>p. url_entry lib (post_url cfg p) ''weekly'' ''0.8'' (instant_of p)) (ix_posts idx) @
            map (\<lambda>p. url_entry lib (base @ ''/'' @ po_slug p) ''monthly'' ''0.6'' (instant_of p)) (ix_pages idx)
      in if max_urls < length urls then take max_urls urls else urls)"

definition latest :: "post list \<Rightarrow> int \<Rightarrow> int" where
  "latest ps t = fold (\<lambda>p t. if t < instant_of p then instant_of p else t) ps t"

definition sitemap_handler :: "feed_lib \<Rightarrow> 't deps handler" where
  "sitemap_handler lib req s =
     (case s of (d, w) \<Rightarrow>
       (case load_index d of
          None \<Rightarrow> panic_nil s
        | Some idx \<Rightarrow>
            ((d, write_xml_cached lib req ''application/xml; charset=utf-8''
                (SitemapDoc \<lparr>us_xmlns = ''http://www.sitemaps.org/schemas/sitemap/0.9'',
                   us_urls = sitemap_urls lib (dp_config d) idx\<rparr>)
                (latest (ix_pages idx) (latest (ix_posts idx) 0)) w), Returned)))"

subsection \<open>Entity tags\<close>

definition solid :: "char \<Rightarrow> bool" where
  "solid c \<longleftrightarrow> byte c < 128 \<and> \<not> is_space1 (byte c)"

lemma trim_space_solid:
  assumes "s = a # t" and "s = u @ [b]" and "solid a" and "solid b"
  shows "trim_space s = s"
proof -
  have "space_prefix s = 0"
    using assms(3) unfolding assms(1) by (auto simp: solid_def is_space2_def is_space3_def split: list.split)
  then have l: "trim_left s = s" by (simp add: trim_left.simps)
  have "space_suffix_rev (rev s) = 0"
    using assms(4) unfolding assms(2) by (auto simp: solid_def is_space2_def is_space3_def split: list.split)
  then show ?thesis by (simp add: trim_space_def l trim_right_rev.simps)
qed

lemma trim_space_blank: "trim_space (CHR '' '' # s) = trim_space s"
proof -
  have "space_prefix (CHR '' '' # s) = 1" by (simp add: is_space1_def)
  then have "trim_left (CHR '' '' # s) = trim_left s" by (subst trim_left.simps) simp
  then show ?thesis by (simp add: trim_space_def)
qed

lemma trim_quoted:
  "trim_space (quoted s) = quoted s" "trim_space (''W/'' @ quoted s) = ''W/'' @ quoted s"
proof -
  have c: "solid CHR 0x22" "solid CHR ''W''" by (simp_all add: solid_def is_space1_def)
  show "trim_space (quoted s) = quoted s"
    by (rule trim_space_solid [where u = "CHR 0x22 # s", OF _ _ c(1) c(1)]) (simp_all add: quoted_def)
  show "trim_space (''W/'' @ quoted s) = ''W/'' @ quoted s"
    by (rule trim_space_solid [where u = "''W/'' @ CHR 0x22 # s", OF _ _ c(2) c(1)]) (simp_all add: quoted_def)
qed

lemma byte_hex_digit: "n < 16 \<Longrightarrow> byte (hex_digit n) = (if n < 10 then 48 + n else 87 + n)"
  by (simp add: hex_digit_def)

lemma hex_digit_facts: "n < 16 \<Longrightarrow> m < 16 \<Longrightarrow> hex_digit n = hex_digit m \<longleftrightarrow> n = m"
  "n < 16 \<Longrightarrow> hex_digit n \<noteq> CHR '',''"
proof -
  show "hex_digit n = hex_digit m \<longleftrightarrow> n = m" if "n < 16" "m < 16"
  proof
    assume "hex_digit n = hex_digit m"
    then have "(if n < 10 then 48 + n else 87 + n) = (if m < 10 then 48 + m else 87 + m)"
      using byte_hex_digit that by metis
    then show "n = m" using that by (simp split: if_splits)
  qed simp
  show "hex_digit n \<noteq> CHR '',''" if "n < 16"
  proof
    assume "hex_digit n = CHR '',''"
    then have "(if n < 10 then 48 + n else 87 + n) = byte CHR '',''" using byte_hex_digit that by metis
    then show False by (simp split: if_splits)
  qed
qed

lemma nibbles: "of_char c div 16 < (16 :: nat)" "of_char c mod 16 < (16 :: nat)"
  using byte_256 [of c] by (linarith, simp)

lemma hex_encode_inj: "hex_encode s = hex_encode t \<Longrightarrow> s = t"
proof (induction s arbitrary: t)
  case Nil
  then show ?case by (cases t) (simp_all add: hex_encode_def)
next
  case (Cons c s)
  then obtain d t' where t: "t = d # t'" by (cases t) (simp_all add: hex_encode_def)
  have "hex_digit (of_char c div 16) = hex_digit (of_char d div 16)"
    "hex_digit (of_char c mod 16) = hex_digit (of_char d mod 16)" "hex_encode s = hex_encode t'"
    using Cons.prems by (simp_all add: t hex_encode_def)
  then have e: "of_char c div 16 = (of_char d div 16 :: nat)" "of_char c mod 16 = (of_char d mod 16 :: nat)" "s = t'"
    using Cons.IH by (simp_all add: hex_digit_facts nibbles)
  have "of_char c = (of_char d :: nat)" using e(1,2) by (metis div_mod_decomp)
  then show ?case using e(3) t by simp
qed

lemma hex_encode_no_comma: "CHR '','' \<notin> set (hex_encode s)"
  using hex_digit_facts(2) [OF nibbles(1)] hex_digit_facts(2) [OF nibbles(2)] by (fastforce simp: hex_encode_def)

lemma etag_inj: "etag_of lib a = etag_of lib b \<longleftrightarrow> take 8 (fl_sha256 lib a) = take 8 (fl_sha256 lib b)"
  using hex_encode_inj by (auto simp: etag_of_def quoted_def)

lemma etag_no_comma: "CHR '','' \<notin> set (etag_of lib a)"
  using hex_encode_no_comma by (simp add: etag_of_def quoted_def)

text \<open>A tag sent back alone, weakened, or in a list.\<close>

lemma etag_matches_self:
  "etag_matches (etag_of lib b) (etag_of lib a) \<longleftrightarrow> etag_of lib b = etag_of lib a"
  "etag_matches (''W/'' @ etag_of lib b) (etag_of lib a) \<longleftrightarrow> etag_of lib b = etag_of lib a"
  "etag_matches (pre @ '', '' @ etag_of lib a @ '','' @ post) (etag_of lib a)"
proof -
  have q: "\<exists>s. etag_of lib x = quoted s" for x by (auto simp: etag_of_def)
  have t: "trim_space (etag_of lib x) = etag_of lib x" "trim_space (''W/'' @ etag_of lib x) = ''W/'' @ etag_of lib x"
    "trim_prefix (etag_of lib x) ''W/'' = etag_of lib x" "trim_prefix (''W/'' @ etag_of lib x) ''W/'' = etag_of lib x"
    "etag_of lib x \<noteq> ''*''" "''W/'' @ etag_of lib x \<noteq> ''*''" for x
    using q [of x] trim_quoted by (auto simp: trim_prefix_def has_prefix_def quoted_def)
  have s: "split_on CHR '','' (etag_of lib x) = [etag_of lib x]"
    "split_on CHR '','' (''W/'' @ etag_of lib x) = [''W/'' @ etag_of lib x]" for x
    using etag_no_comma [of lib x] by (intro split_on_single; simp)+
  show "etag_matches (etag_of lib b) (etag_of lib a) \<longleftrightarrow> etag_of lib b = etag_of lib a"
    "etag_matches (''W/'' @ etag_of lib b) (etag_of lib a) \<longleftrightarrow> etag_of lib b = etag_of lib a"
    using t s by (simp_all add: etag_matches_def del: append_Cons append.simps)
  have "split_on CHR '','' (pre @ '', '' @ etag_of lib a @ '','' @ post) =
      split_on CHR '','' pre @ split_on CHR '','' ((CHR '' '' # etag_of lib a) @ CHR '','' # post)"
    using split_on_append_any [of "CHR '',''" pre "CHR '' '' # etag_of lib a @ '','' @ post"] by simp
  also have "split_on CHR '','' ((CHR '' '' # etag_of lib a) @ CHR '','' # post) =
      (CHR '' '' # etag_of lib a) # split_on CHR '','' post"
    using etag_no_comma [of lib a] by (intro split_on_append) simp
  finally show "etag_matches (pre @ '', '' @ etag_of lib a @ '','' @ post) (etag_of lib a)"
    using t by (simp add: etag_matches_def trim_space_blank)
qed

subsection \<open>Revalidation\<close>

definition with_header :: "string \<Rightarrow> string \<Rightarrow> request \<Rightarrow> request" where
  "with_header k v req = req\<lparr>rq_header := (rq_header req)(k := v)\<rparr>"

definition not_modified :: "feed_lib \<Rightarrow> request \<Rightarrow> string \<Rightarrow> int \<Rightarrow> bool" where
  "not_modified lib req etag t \<longleftrightarrow>
     (if rq_header req ''If-None-Match'' \<noteq> '''' then etag_matches (rq_header req ''If-None-Match'') etag
      else t \<noteq> 0 \<and> rq_header req ''If-Modified-Since'' \<noteq> '''' \<and>
        (case fl_parse_http lib (rq_header req ''If-Modified-Since'') of None \<Rightarrow> False | Some u \<Rightarrow> t - t mod second \<le> u))"

definition cache_headers :: "feed_lib \<Rightarrow> string \<Rightarrow> string \<Rightarrow> int \<Rightarrow> header" where
  "cache_headers lib ctype etag t =
     (if t \<noteq> 0 then [''Content-Type'' \<mapsto> ctype, ''Cache-Control'' \<mapsto> ''public, max-age=3600'', ''ETag'' \<mapsto> etag,
        ''Last-Modified'' \<mapsto> fl_http_date lib t]
      else [''Content-Type'' \<mapsto> ctype, ''Cache-Control'' \<mapsto> ''public, max-age=3600'', ''ETag'' \<mapsto> etag])"

lemma write_xml_cached_response:
  "fl_encode lib doc = Some xml \<Longrightarrow>
     response_of (write_xml_cached lib req ctype doc t new_writer) =
       (let body = xml_header @ xml; etag = etag_of lib body; h = cache_headers lib ctype etag t in
        if not_modified lib req etag t then (304, h, '''') else (200, h, body))"
  by (auto simp: write_xml_cached_def Let_def not_modified_def cache_headers_def response_of_def new_writer_def
      set_header_def write_header_def write_body_def split: option.split)

text \<open>What the feed handler serves: type, document and time of the newest post.\<close>

definition feed_doc :: "feed_lib \<Rightarrow> int \<Rightarrow> config \<Rightarrow> index \<Rightarrow> string \<times> xml_doc \<times> int" where
  "feed_doc lib now cfg idx =
     (let posts = limited_posts cfg (ix_posts idx) in
      if fe_type (cg_feed cfg) = ''rss''
      then (''application/rss+xml; charset=utf-8'', RssDoc (rss_feed_of lib cfg posts), newest posts)
      else (''application/atom+xml; charset=utf-8'', AtomDoc (atom_feed_of lib now cfg posts), newest posts))"

lemma feed_handler_response:
  assumes "load_index d = Some idx" and "feed_doc lib now (dp_config d) idx = (ctype, doc, t)"
    and "fl_encode lib doc = Some xml"
  shows "response_of (snd (fst (feed_handler lib now req (d, new_writer)))) =
    (let body = xml_header @ xml; etag = etag_of lib body; h = cache_headers lib ctype etag t in
     if not_modified lib req etag t then (304, h, '''') else (200, h, body))"
  using assms(1,2) write_xml_cached_response [OF assms(3), of req ctype t]
  by (auto simp: feed_handler_def feed_doc_def Let_def split: if_splits)

text \<open>
  C23. Revalidating the feed. A client that sends back the entity tag of an earlier response,
  as it is, weakened or in a list, gets an empty 304 when the first eight bytes of the SHA-256
  of the new body, of which the tag is made, are those of the earlier body; with the tag alone
  it gets the full new response when they differ. A date alone is compared with the newest
  post's, not with the content: the answer is 304 exactly when the feed has a newest post and it
  is, to the second, not newer than the date sent, also when the bytes of the feed differ, and
  the full new response otherwise. Next to a tag the date is ignored. Without either header the
  client gets the whole feed, whose posts are the first ones of the index, at most as many as
  configured.
\<close>

theorem feed_revalidation:
  fixes d d2 :: "'t deps"
  assumes "load_index d = Some idx" and "feed_doc lib now (dp_config d) idx = (ctype, doc, t)"
    and "fl_encode lib doc = Some xml"
    and "load_index d2 = Some idx2" and "feed_doc lib now2 (dp_config d2) idx2 = (ctype2, doc2, t2)"
    and "fl_encode lib doc2 = Some xml2"
    and "rq_header req ''If-None-Match'' = ''''" and "rq_header req ''If-Modified-Since'' = ''''"
    and "fl_parse_http lib (fl_http_date lib t) = Some (t - t mod second)" and "fl_http_date lib t \<noteq> ''''"
  shows "let get = (\<lambda>req. response_of (snd (fst (feed_handler lib now req (d, new_writer)))));
      get2 = (\<lambda>req. response_of (snd (fst (feed_handler lib now2 req (d2, new_writer)))));
      (_, h, body) = get req; (_, h2, body2) = get2 req; e = etag_of lib body;
      inm = (\<lambda>v. with_header ''If-None-Match'' v req);
      same = (take 8 (fl_sha256 lib body) = take 8 (fl_sha256 lib body2)) in
    get req = (200, h, xml_header @ xml) \<and> h ''ETag'' = Some e \<and>
    get2 (inm e) = (if same then (304, h2, '''') else (200, h2, body2)) \<and>
    get2 (inm (''W/'' @ e)) = (if same then (304, h2, '''') else (200, h2, body2)) \<and>
    (\<forall>pre post. same \<longrightarrow> get2 (inm (pre @ '', '' @ e @ '','' @ post)) = (304, h2, '''')) \<and>
    (t \<noteq> 0 \<longrightarrow> h ''Last-Modified'' = Some (fl_http_date lib t) \<and>
       get2 (with_header ''If-Modified-Since'' (fl_http_date lib t) req) =
         (if t2 \<noteq> 0 \<and> t2 div second \<le> t div second then (304, h2, '''') else (200, h2, body2))) \<and>
    (\<forall>v m. v \<noteq> '''' \<longrightarrow> get2 (with_header ''If-Modified-Since'' m (inm v)) = get2 (inm v)) \<and>
    (\<forall>posts. posts = limited_posts (dp_config d) (ix_posts idx) \<longrightarrow>
       posts = take (length posts) (ix_posts idx) \<and>
       (0 < fe_items (cg_feed (dp_config d)) \<longrightarrow> int (length posts) \<le> fe_items (cg_feed (dp_config d))))"
proof -
  let ?b = "xml_header @ xml" and ?b2 = "xml_header @ xml2"
  let ?e = "etag_of lib ?b" and ?e2 = "etag_of lib ?b2"
  let ?h = "cache_headers lib ctype ?e t" and ?h2 = "cache_headers lib ctype2 ?e2 t2"
  let ?same = "take 8 (fl_sha256 lib ?b) = take 8 (fl_sha256 lib ?b2)"
  let ?inm = "\<lambda>v. with_header ''If-None-Match'' v req"
  have g: "response_of (snd (fst (feed_handler lib now r (d, new_writer)))) =
      (if not_modified lib r ?e t then (304, ?h, '''') else (200, ?h, ?b))" for r
    unfolding feed_handler_response [OF assms(1-3)] by (simp add: Let_def)
  have g2: "response_of (snd (fst (feed_handler lib now2 r (d2, new_writer)))) =
      (if not_modified lib r ?e2 t2 then (304, ?h2, '''') else (200, ?h2, ?b2))" for r
    unfolding feed_handler_response [OF assms(4-6)] by (simp add: Let_def)
  have plain: "\<not> not_modified lib req x u" for x u
    using assms(7,8) by (simp add: not_modified_def)
  have ne: "?e \<noteq> ''''" by (simp add: etag_of_def quoted_def)
  have tag: "not_modified lib (?inm v) ?e2 u = etag_matches v ?e2" if "v \<noteq> ''''" for v u
    using that by (simp add: not_modified_def with_header_def)
  have both: "not_modified lib (with_header ''If-Modified-Since'' m (?inm v)) ?e2 u = etag_matches v ?e2"
    if "v \<noteq> ''''" for v m u
    using that by (simp add: not_modified_def with_header_def)
  have 1: "etag_matches ?e ?e2 = ?same" "etag_matches (''W/'' @ ?e) ?e2 = ?same"
    using etag_matches_self(1,2) etag_inj [of lib ?b ?b2] by metis+
  have 2: "etag_matches (pre @ '', '' @ ?e @ '','' @ post) ?e2" if ?same for pre post
    using that etag_matches_self(3) etag_inj [of lib ?b ?b2] by metis
  have s: "0 < second" by (simp add: second_def)
  have trunc: "u - u mod second \<le> v - v mod second \<longleftrightarrow> u div second \<le> v div second" for u v :: int
    using s by (simp add: minus_mod_eq_mult_div)
  have 3: "not_modified lib (with_header ''If-Modified-Since'' (fl_http_date lib t) req) ?e2 t2 \<longleftrightarrow>
      t2 \<noteq> 0 \<and> t2 div second \<le> t div second"
    using assms(7,9,10) by (simp add: not_modified_def with_header_def trunc)
  have lm: "t \<noteq> 0 \<longrightarrow> ?h ''Last-Modified'' = Some (fl_http_date lib t)" "?h ''ETag'' = Some ?e"
    by (simp_all add: cache_headers_def)
  have lim: "\<forall>posts. posts = limited_posts (dp_config d) (ix_posts idx) \<longrightarrow>
       posts = take (length posts) (ix_posts idx) \<and>
       (0 < fe_items (cg_feed (dp_config d)) \<longrightarrow> int (length posts) \<le> fe_items (cg_feed (dp_config d)))"
    by (auto simp: limited_posts_def Let_def min_def)
  show ?thesis
    unfolding Let_def g g2 using plain lm lim 1 2 3 ne
    by (simp add: tag both split del: if_split)
qed

definition demo_feed_lib :: feed_lib where
  "demo_feed_lib = \<lparr>fl_encode = (\<lambda>doc. case doc of AtomDoc f \<Rightarrow> Some (af_title f) | RssDoc f \<Rightarrow> Some (rf_title f) | SitemapDoc u \<Rightarrow> None),
     fl_sha256 = rev, fl_rfc3339 = itoa, fl_rfc1123z = itoa, fl_day = itoa, fl_http_date = itoa,
     fl_parse_http = (\<lambda>s. map_option (\<lambda>t. t - t mod second) (atoi s))\<rparr>"

definition dated_post :: post where
  "dated_post = demo_post\<lparr>po_fm := (po_fm demo_post)\<lparr>fm_date := \<lparr>gt_instant = 7 * second + 1, gt_year = 1\<rparr>\<rparr>\<rparr>"

definition feed_deps :: "string \<Rightarrow> string deps" where
  "feed_deps title = new_deps (default_config\<lparr>cg_site := (cg_site default_config)\<lparr>si_title := title\<rparr>\<rparr>)
     (Some (empty_index\<lparr>ix_posts := [dated_post]\<rparr>)) demo_engine"

theorem feed_revalidation_witness:
  "let get = (\<lambda>t req. fst (response_of (snd (fst (feed_handler demo_feed_lib 9 req (feed_deps t, new_writer))))));
     e = etag_of demo_feed_lib (xml_header @ ''My Blog''); r = with_header ''If-None-Match'' e demo_request in
   get ''My Blog'' r = 304 \<and> get ''Our Blog'' r = 200 \<and> get ''My Blog'' demo_request = 200"
proof -
  let ?t = "7 * second + 1"
  have i: "load_index (feed_deps title) = Some (empty_index\<lparr>ix_posts := [dated_post]\<rparr>)" for title
    by (simp add: feed_deps_def new_deps_def load_index_def)
  have n: "newest [dated_post] = ?t" by (simp add: newest_def instant_of_def dated_post_def)
  have f: "\<exists>doc. feed_doc demo_feed_lib 9 (dp_config (feed_deps title)) (empty_index\<lparr>ix_posts := [dated_post]\<rparr>) =
      (''application/atom+xml; charset=utf-8'', doc, ?t) \<and> fl_encode demo_feed_lib doc = Some title" for title
    by (simp add: feed_doc_def feed_deps_def new_deps_def default_config_def limited_posts_def n Let_def
        demo_feed_lib_def atom_feed_of_def)
  obtain doc1 doc2 where docs:
    "feed_doc demo_feed_lib 9 (dp_config (feed_deps ''My Blog'')) (empty_index\<lparr>ix_posts := [dated_post]\<rparr>) =
       (''application/atom+xml; charset=utf-8'', doc1, ?t)" "fl_encode demo_feed_lib doc1 = Some ''My Blog''"
    "feed_doc demo_feed_lib 9 (dp_config (feed_deps ''Our Blog'')) (empty_index\<lparr>ix_posts := [dated_post]\<rparr>) =
       (''application/atom+xml; charset=utf-8'', doc2, ?t)" "fl_encode demo_feed_lib doc2 = Some ''Our Blog''"
    using f by metis
  have a: "atoi (itoa ?t) = Some ?t" by (rule atoi_itoa) (simp_all add: second_def max_int_def)
  have h: "fl_parse_http demo_feed_lib (fl_http_date demo_feed_lib ?t) = Some (?t - ?t mod second)"
    "fl_http_date demo_feed_lib ?t \<noteq> ''''"
    using a by (simp_all add: demo_feed_lib_def) (auto simp: atoi_def)
  have r: "rq_header demo_request ''If-None-Match'' = ''''" "rq_header demo_request ''If-Modified-Since'' = ''''"
    by (simp_all add: demo_request_def)
  note same = feed_revalidation [OF i docs(1,2) i docs(1,2) r h]
    and other = feed_revalidation [OF i docs(1,2) i docs(3,4) r h]
  note s = same [unfolded Let_def split_beta] and o = other [unfolded Let_def split_beta]
  note o2 = feed_revalidation [OF i docs(3,4) i docs(3,4) r h, unfolded Let_def split_beta]
  note p = arg_cong [OF s [THEN conjunct1], of fst, unfolded fst_conv]
    and b = arg_cong [OF s [THEN conjunct1], of "\<lambda>x. snd (snd x)", unfolded snd_conv]
    and b2 = arg_cong [OF o2 [THEN conjunct1], of "\<lambda>x. snd (snd x)", unfolded snd_conv]
  have ne: "take 8 (fl_sha256 demo_feed_lib (xml_header @ ''My Blog'')) \<noteq> take 8 (fl_sha256 demo_feed_lib (xml_header @ ''Our Blog''))"
    by code_simp
  have "fst (response_of (snd (fst (feed_handler demo_feed_lib 9
      (with_header ''If-None-Match'' (etag_of demo_feed_lib (xml_header @ ''My Blog'')) demo_request)
      (feed_deps ''My Blog'', new_writer))))) = 304"
    using s [THEN conjunct2, THEN conjunct2, THEN conjunct1] unfolding b if_P [OF refl] by (simp only: fst_conv)
  moreover have "fst (response_of (snd (fst (feed_handler demo_feed_lib 9
      (with_header ''If-None-Match'' (etag_of demo_feed_lib (xml_header @ ''My Blog'')) demo_request)
      (feed_deps ''Our Blog'', new_writer))))) = 200"
    using o [THEN conjunct2, THEN conjunct2, THEN conjunct1] unfolding b b2 if_not_P [OF ne] by (simp only: fst_conv)
  ultimately show ?thesis using p by (simp only: Let_def)
qed

end
