(* ===== verification/Reload.thy ===== *)
theory Reload
  imports Handlers Content_Cache Config_Load
begin

text \<open>
  Publishing and reloading content (\<open>cmd/blogflow/reload.go\<close>) with the gauges of
  \<open>internal/search/metrics.go\<close>. A panic of the search build is a choice of the input, as are
  the file trees the configuration, the theme and the scan read. The callback main registers
  with the loader is number 0: it sets the handlers' configuration.
\<close>

subsection \<open>Gauges\<close>

record search_gauges =
  ga_documents :: int
  ga_tokens :: int
  ga_memory :: int
  ga_peak :: int
  ga_generation :: nat
  ga_rebuilds :: "string list"
  ga_truncated :: "truncation list"

definition observe_rebuild :: "search_index option \<Rightarrow> int \<Rightarrow> search_gauges \<Rightarrow> search_gauges" where
  "observe_rebuild osi peak g =
     (let g1 = g\<lparr>ga_rebuilds := ga_rebuilds g @ [''ok'']\<rparr> in
      case osi of
        None \<Rightarrow> g1
      | Some si \<Rightarrow>
          g1\<lparr>ga_documents := int (length (sx_docs si)), ga_tokens := int (sx_tokens si), ga_memory := sx_bytes si,
             ga_peak := peak, ga_generation := sx_generation si,
             ga_truncated := (if sx_truncated si then ga_truncated g @ [sx_reason si] else ga_truncated g)\<rparr>)"

definition record_rebuild_failure :: "nat \<Rightarrow> search_gauges \<Rightarrow> search_gauges" where
  "record_rebuild_failure gen g =
     g\<lparr>ga_rebuilds := ga_rebuilds g @ [''error''], ga_documents := 0, ga_tokens := 0, ga_memory := 0,
       ga_peak := 0, ga_generation := gen\<rparr>"

subsection \<open>Publishing\<close>

definition build_search_index_safe ::
  "text_lib \<Rightarrow> bool \<Rightarrow> index option \<Rightarrow> search_config \<Rightarrow> nat \<Rightarrow> search_index option" where
  "build_search_index_safe tx panics idx cfg gen =
     (if panics then None else Some (build_index tx (\<lambda>_. True) (map_option ix_posts idx) cfg gen))"

definition publish_content_snapshot ::
  "text_lib \<Rightarrow> bool \<Rightarrow> index option \<Rightarrow> bool \<Rightarrow> search_config \<Rightarrow> 't deps \<times> search_gauges \<Rightarrow>
   't deps \<times> search_gauges" where
  "publish_content_snapshot tx panics idx build cfg s =
     (case s of (d, g) \<Rightarrow>
       (let (gen, d1) = next_generation d in
        if \<not> build then (set_snapshot gen idx None d1, g)
        else let old = (case load_search d1 of None \<Rightarrow> 0 | Some prev \<Rightarrow> sx_bytes prev) in
          case build_search_index_safe tx panics idx cfg gen of
            None \<Rightarrow> (set_snapshot gen idx None d1, record_rebuild_failure gen g)
          | Some si \<Rightarrow> (set_snapshot gen idx (Some si) d1, observe_rebuild (Some si) (sx_bytes si + old) g)))"

subsection \<open>Reloading\<close>

record 't site =
  st_deps :: "'t deps"
  st_gauges :: search_gauges
  st_cache :: "cache option"
  st_loader :: "loader option"
  st_themed :: bool

record reload_input =
  ri_world :: world
  ri_theme :: content_fs
  ri_content :: content_fs
  ri_panics :: bool

definition zero_search_config :: search_config where
  "zero_search_config = \<lparr>se_enabled = False, se_max_results = 0, se_max_query_length = 0, se_min_query_length = 0,
     se_max_query_terms = 0, se_excerpt_length = 0, se_max_docs = 0, se_max_tokens = 0, se_max_index_bytes = 0\<rparr>"

definition apply_callback :: "nat \<times> config \<Rightarrow> 't deps \<Rightarrow> 't deps" where
  "apply_callback call d = (case call of (cb, cfg) \<Rightarrow> if cb = 0 then set_config cfg d else d)"

definition reload_config ::
  "('ip, 'x) cfg_lib_scheme \<Rightarrow> (string \<Rightarrow> config \<Rightarrow> config option) \<Rightarrow> world \<Rightarrow> 't site \<Rightarrow> 't site" where
  "reload_config clib yaml w s =
     (case st_loader s of
        None \<Rightarrow> s
      | Some l \<Rightarrow>
          (case loader_reload clib yaml w l of
             (r, calls, l') \<Rightarrow> s\<lparr>st_loader := Some l', st_deps := fold apply_callback calls (st_deps s)\<rparr>))"

definition reload_theme :: "('t, 'd) tmpl_lib \<Rightarrow> content_fs \<Rightarrow> 't site \<Rightarrow> 't site" where
  "reload_theme tlib fs s =
     (if st_themed s
      then s\<lparr>st_deps := (st_deps s)\<lparr>dp_theme := snd (engine_reload tlib fs (dp_theme (st_deps s)))\<rparr>\<rparr>
      else s)"

definition content_reloader ::
  "('ip, 'x) cfg_lib_scheme \<Rightarrow> (string \<Rightarrow> config \<Rightarrow> config option) \<Rightarrow> ('t, 'd) tmpl_lib \<Rightarrow> scan_lib \<Rightarrow>
   scanner \<Rightarrow> text_lib \<Rightarrow> reload_input \<Rightarrow> 't site \<Rightarrow> scan_error option \<times> 't site" where
  "content_reloader clib yaml tlib slib sn tx inp s =
     (let s1 = reload_config clib yaml (ri_world inp) s;
          s2 = reload_theme tlib (ri_theme inp) s1 in
      case scan_content slib sn (ri_content inp) False of
        Inl e \<Rightarrow> (Some e, s2)
      | Inr idx \<Rightarrow>
          (let cfg = (case st_loader s2 of None \<Rightarrow> zero_search_config | Some l \<Rightarrow> cg_search (loader_get l));
               (d, g) = publish_content_snapshot tx (ri_panics inp) (Some idx) (dp_search_enabled (st_deps s2)) cfg
                 (st_deps s2, st_gauges s2)
           in (None, s2\<lparr>st_deps := d, st_gauges := g, st_cache := map_option cache_invalidate_all (st_cache s2)\<rparr>)))"

subsection \<open>Startup\<close>

text \<open>The command line's overrides of the loaded configuration.\<close>

definition override_config :: "int \<Rightarrow> string \<Rightarrow> string \<Rightarrow> config \<Rightarrow> config" where
  "override_config port repo branch cfg =
     (let cfg1 = (if 0 < port then cfg\<lparr>cg_server := (cg_server cfg)\<lparr>sv_port := port\<rparr>\<rparr> else cfg) in
      if repo \<noteq> '''' \<or> branch \<noteq> ''''
      then let y = cg_sync cfg1;
          y1 = (if repo \<noteq> '''' then y\<lparr>sy_repo := repo\<rparr> else y);
          y2 = (if branch \<noteq> '''' then y1\<lparr>sy_branch := branch\<rparr> else y1)
        in cfg1\<lparr>cg_sync := y2\<rparr>
      else cfg1)"

definition start_site ::
  "text_lib \<Rightarrow> bool \<Rightarrow> config \<Rightarrow> loader \<Rightarrow> index \<Rightarrow> 't engine \<Rightarrow> (string \<Rightarrow> (fs_error, string) result) \<Rightarrow> 't site" where
  "start_site tx panics cfg l idx en overlay =
     (let cache = (if cc_enabled (cg_cache cfg)
            then Some (new_cache (cc_max_entries (cg_cache cfg)) (cc_ttl (cg_cache cfg))) else None);
          d0 = set_search_enabled (se_enabled (cg_search cfg))
            ((new_deps cfg (Some idx) en)\<lparr>dp_overlay := Some overlay\<rparr>);
          g0 = \<lparr>ga_documents = 0, ga_tokens = 0, ga_memory = 0, ga_peak = 0, ga_generation = 0,
                ga_rebuilds = [], ga_truncated = []\<rparr>;
          (d, g) = (if se_enabled (cg_search cfg)
            then publish_content_snapshot tx panics (Some idx) True (cg_search cfg) (d0, g0) else (d0, g0))
      in \<lparr>st_deps = d, st_gauges = g, st_cache = cache, st_loader = Some (on_change 0 l), st_themed = True\<rparr>)"

subsection \<open>What the site serves after reloads\<close>

definition published :: "text_lib \<Rightarrow> nat \<Rightarrow> index \<Rightarrow> 't deps \<Rightarrow> bool" where
  "published tx gen idx d \<longleftrightarrow>
     (\<exists>si. dp_snap d = Some \<lparr>ss_generation = gen, ss_content = Some idx, ss_search = si\<rparr> \<and>
       (si \<noteq> None \<longrightarrow> dp_search_enabled d \<and>
          (\<exists>cfg. si = Some (build_index tx (\<lambda>_. True) (Some (ix_posts idx)) cfg gen))))"

lemma publish_published:
  assumes "publish_content_snapshot tx panics (Some idx) build cfg (d, g) = (d', g')"
    and "build = dp_search_enabled d" and "dp_gen d + 1 < 2 ^ 64"
  shows "published tx (dp_gen d + 1) idx d'"
    and "d' = d\<lparr>dp_gen := dp_gen d + 1, dp_snap := dp_snap d', dp_static := None\<rparr>"
  using assms
  by (auto simp: publish_content_snapshot_def next_generation_def Let_def set_snapshot_def published_def
      build_search_index_safe_def split: if_splits option.splits)

lemma publish_searchable:
  "publish_content_snapshot tx False (Some idx) True cfg (d, g) = (d', g') \<Longrightarrow> load_search d' \<noteq> None"
  by (auto simp: publish_content_snapshot_def next_generation_def Let_def set_snapshot_def load_search_def
      build_search_index_safe_def)

definition scanned :: "scan_lib \<Rightarrow> scanner \<Rightarrow> reload_input \<Rightarrow> index list" where
  "scanned slib sn inp = (case scan_content slib sn (ri_content inp) False of Inl e \<Rightarrow> [] | Inr idx \<Rightarrow> [idx])"

definition loads :: "('ip, 'x) cfg_lib_scheme \<Rightarrow> (string \<Rightarrow> config \<Rightarrow> config option) \<Rightarrow> reload_input \<Rightarrow> config list" where
  "loads clib yaml inp = op_loads clib yaml (OpReload (ri_world inp))"

definition site_ok ::
  "text_lib \<Rightarrow> ('t, 'd) tmpl_lib \<Rightarrow> bool \<Rightarrow> config \<Rightarrow> nat \<Rightarrow> index \<Rightarrow> 't site \<Rightarrow> bool" where
  "site_ok tx tlib enabled cfg gen idx s \<longleftrightarrow>
     published tx gen idx (st_deps s) \<and> dp_gen (st_deps s) = gen \<and> dp_config (st_deps s) = cfg \<and>
     dp_search_enabled (st_deps s) = enabled \<and> tp_has tlib (en_base (dp_theme (st_deps s))) base_name \<and>
     st_themed s \<and> (\<exists>l. st_loader s = Some l \<and> ld_callbacks l = [0])"

lemma published_frame:
  "published tx gen idx (d\<lparr>dp_theme := e\<rparr>) = published tx gen idx d"
  "published tx gen idx (set_config c d) = published tx gen idx d"
  by (simp_all add: published_def set_config_def)

lemma site_ok_config:
  assumes "site_ok tx tlib enabled cfg gen idx s"
  shows "site_ok tx tlib enabled (last (cfg # op_loads clib yaml (OpReload w))) gen idx (reload_config clib yaml w s)"
  using assms
  by (auto simp: site_ok_def reload_config_def loader_reload_def loader_load_def op_loads_def fire_callbacks_def
      apply_callback_def published_frame split: sum.split) (simp_all add: set_config_def)

lemma site_ok_theme:
  assumes "site_ok tx tlib enabled cfg gen idx s"
  shows "site_ok tx tlib enabled cfg gen idx (reload_theme tlib fs s)"
  using assms engine_reload_base [of tlib "dp_theme (st_deps s)" fs]
  by (auto simp: site_ok_def reload_theme_def published_frame)

lemma site_ok_reload:
  assumes ok: "site_ok tx tlib enabled cfg gen idx s" and "gen + 1 < 2 ^ 64"
    and r: "content_reloader clib yaml tlib slib sn tx inp s = (e, s')"
  shows "site_ok tx tlib enabled (last (cfg # loads clib yaml inp)) (gen + length (scanned slib sn inp))
      (last (idx # scanned slib sn inp)) s' \<and>
    ((e = None) = (scanned slib sn inp \<noteq> [])) \<and>
    (scanned slib sn inp \<noteq> [] \<longrightarrow> dp_static (st_deps s') = None \<and>
      (case st_cache s' of None \<Rightarrow> True | Some c \<Rightarrow> ca_entries c = Map.empty) \<and>
      (enabled \<and> \<not> ri_panics inp \<longrightarrow> load_search (st_deps s') \<noteq> None))"
proof -
  let ?s2 = "reload_theme tlib (ri_theme inp) (reload_config clib yaml (ri_world inp) s)"
  have ok2: "site_ok tx tlib enabled (last (cfg # loads clib yaml inp)) gen idx ?s2"
    unfolding loads_def by (intro site_ok_theme site_ok_config ok)
  then have en: "dp_search_enabled (st_deps ?s2) = enabled" and g: "dp_gen (st_deps ?s2) = gen"
    by (simp_all add: site_ok_def)
  show ?thesis
  proof (cases "scan_content slib sn (ri_content inp) False")
    case (Inl x)
    then have "e = Some x" "s' = ?s2" "scanned slib sn inp = []"
      using r by (simp_all add: content_reloader_def Let_def scanned_def)
    then show ?thesis using ok2 by simp
  next
    case (Inr new)
    define sc where "sc = (case st_loader ?s2 of None \<Rightarrow> zero_search_config | Some l \<Rightarrow> cg_search (loader_get l))"
    obtain d ga where p: "publish_content_snapshot tx (ri_panics inp) (Some new) enabled sc
        (st_deps ?s2, st_gauges ?s2) = (d, ga)" by fastforce
    have sc: "scanned slib sn inp = [new]" using Inr by (simp add: scanned_def)
    have s': "e = None" "s' = ?s2\<lparr>st_deps := d, st_gauges := ga, st_cache := map_option cache_invalidate_all (st_cache ?s2)\<rparr>"
      using r p Inr en by (simp_all add: content_reloader_def Let_def sc_def)
    note pub = publish_published [OF p]
    have d: "d = (st_deps ?s2)\<lparr>dp_gen := gen + 1, dp_snap := dp_snap d, dp_static := None\<rparr>"
      using pub(2) en g assms(2) by simp
    have "published tx (gen + 1) new d" using pub(1) en g assms(2) by simp
    then have "site_ok tx tlib enabled (last (cfg # loads clib yaml inp)) (gen + 1) new s'"
      using ok2 s' arg_cong [OF d, of dp_gen] arg_cong [OF d, of dp_config] arg_cong [OF d, of dp_search_enabled]
        arg_cong [OF d, of dp_theme]
      by (simp add: site_ok_def del: last.simps)
    moreover have "dp_static d = None" using arg_cong [OF d, of dp_static] by simp
    moreover have "load_search d \<noteq> None" if "enabled" "\<not> ri_panics inp"
      using publish_searchable p that by auto
    ultimately show ?thesis
      unfolding sc using s' by (cases "st_cache ?s2") (simp_all add: cache_invalidate_all_def)
  qed
qed

text \<open>The run of a list of reloads.\<close>

definition reload_all ::
  "('ip, 'x) cfg_lib_scheme \<Rightarrow> (string \<Rightarrow> config \<Rightarrow> config option) \<Rightarrow> ('t, 'd) tmpl_lib \<Rightarrow> scan_lib \<Rightarrow>
   scanner \<Rightarrow> text_lib \<Rightarrow> reload_input list \<Rightarrow> 't site \<Rightarrow> 't site" where
  "reload_all clib yaml tlib slib sn tx inps s =
     run (\<lambda>inp s. snd (content_reloader clib yaml tlib slib sn tx inp s)) inps s"

lemma last_append_Cons: "last (x # xs @ ys) = last (last (x # xs) # ys)"
  by (cases ys rule: rev_cases) simp_all

lemma site_ok_all:
  assumes "site_ok tx tlib enabled cfg gen idx s" and "gen + length inps < 2 ^ 64"
  shows "site_ok tx tlib enabled (last (cfg # concat (map (loads clib yaml) inps)))
    (gen + length (concat (map (scanned slib sn) inps))) (last (idx # concat (map (scanned slib sn) inps)))
    (reload_all clib yaml tlib slib sn tx inps s)"
  using assms
proof (induction inps arbitrary: cfg gen idx s)
  case (Cons inp inps)
  obtain e s' where r: "content_reloader clib yaml tlib slib sn tx inp s = (e, s')" by fastforce
  have l: "length (scanned slib sn inp) \<le> 1" by (simp add: scanned_def split: sum.split)
  have ok: "site_ok tx tlib enabled (last (cfg # loads clib yaml inp)) (gen + length (scanned slib sn inp))
      (last (idx # scanned slib sn inp)) s'"
    using Cons.prems by (intro site_ok_reload [OF _ _ r, THEN conjunct1]) simp_all
  have "gen + length (scanned slib sn inp) + length inps < 2 ^ 64" using l Cons.prems(2) by simp
  from Cons.IH [OF ok this] show ?case
    by (simp add: reload_all_def r last_append_Cons add.assoc del: last.simps)
qed (simp add: reload_all_def)

lemma scans_length: "length (concat (map (scanned slib sn) inps)) \<le> length inps"
proof (induction inps)
  case (Cons i inps)
  then show ?case by (simp add: scanned_def split: sum.split)
qed simp

lemma start_site_ok:
  assumes "tp_has tlib (en_base en) base_name" and "ld_callbacks l = []"
  shows "site_ok tx tlib (se_enabled (cg_search cfg)) cfg (if se_enabled (cg_search cfg) then 1 else 0) idx
    (start_site tx panics cfg l idx en overlay)"
proof (cases "se_enabled (cg_search cfg)")
  case False
  then show ?thesis
    using assms by (simp add: site_ok_def start_site_def Let_def published_def new_deps_def set_search_enabled_def on_change_def)
next
  case True
  define d0 where "d0 = set_search_enabled True ((new_deps cfg (Some idx) en)\<lparr>dp_overlay := Some overlay\<rparr>)"
  define g0 where "g0 = \<lparr>ga_documents = 0, ga_tokens = 0, ga_memory = 0, ga_peak = 0, ga_generation = 0,
                ga_rebuilds = [], ga_truncated = []\<rparr>"
  obtain d g where p: "publish_content_snapshot tx panics (Some idx) True (cg_search cfg) (d0, g0) = (d, g)" by fastforce
  have "True = dp_search_enabled d0" "dp_gen d0 = 0"
    by (simp_all add: d0_def set_search_enabled_def new_deps_def)
  note pub = publish_published [OF p this(1), unfolded this(2)]
  have s: "start_site tx panics cfg l idx en overlay =
      \<lparr>st_deps = d, st_gauges = g, st_cache = (if cc_enabled (cg_cache cfg)
         then Some (new_cache (cc_max_entries (cg_cache cfg)) (cc_ttl (cg_cache cfg))) else None),
       st_loader = Some (on_change 0 l), st_themed = True\<rparr>"
    using True p by (simp add: start_site_def d0_def g0_def Let_def)
  have d: "d = d0\<lparr>dp_gen := 1, dp_snap := dp_snap d, dp_static := None\<rparr>" using pub(2) by simp
  show ?thesis
    using True assms pub(1) arg_cong [OF d, of dp_gen] arg_cong [OF d, of dp_config]
      arg_cong [OF d, of dp_search_enabled] arg_cong [OF d, of dp_theme]
    by (simp add: s site_ok_def d0_def set_search_enabled_def new_deps_def on_change_def)
qed

text \<open>
  C3. Reloading never takes the site down: after any sequence of reloads, whatever fails in
  them, the published content is the last one that scanned, its generation counts the
  publications, and the search index published with it, if there is one, was built from that
  very content under that generation, and only when search is enabled; the handlers'
  configuration is the last one that loaded and validates; the theme has its base template.
  The next reload reports an error exactly when its scan fails; when it succeeds, it drops the
  cached home page and every rendered page, and search is available unless its build panics.
\<close>

theorem site_reloads_sound:
  fixes clib yaml tlib slib sn tx inps panics cfg l idx en overlay tfs
  assumes "validate clib cfg = []" and "ld_callbacks l = []" and "load_templates tlib tfs = Ok en"
    and "length inps + 2 < 2 ^ 64"
  defines "s \<equiv> reload_all clib yaml tlib slib sn tx inps (start_site tx panics cfg l idx en overlay)"
  shows "(let scans = concat (map (scanned slib sn) inps); content = last (idx # scans);
        first = (if se_enabled (cg_search cfg) then 1 else 0) in
      published tx (first + length scans) content (st_deps s) \<and>
      dp_search_enabled (st_deps s) = se_enabled (cg_search cfg) \<and>
      dp_config (st_deps s) = last (cfg # concat (map (loads clib yaml) inps)) \<and>
      validate clib (dp_config (st_deps s)) = [] \<and>
      tp_has tlib (en_base (dp_theme (st_deps s))) base_name \<and>
      (\<forall>inp. case content_reloader clib yaml tlib slib sn tx inp s of (e, s') \<Rightarrow>
        (e = None \<longleftrightarrow> scanned slib sn inp \<noteq> []) \<and>
        (e = None \<longrightarrow> dp_static (st_deps s') = None \<and>
           (case st_cache s' of None \<Rightarrow> True | Some c \<Rightarrow> ca_entries c = Map.empty) \<and>
           (se_enabled (cg_search cfg) \<and> \<not> ri_panics inp \<longrightarrow> load_search (st_deps s') \<noteq> None))))"
proof -
  let ?first = "if se_enabled (cg_search cfg) then 1 else 0 :: nat"
  let ?scans = "concat (map (scanned slib sn) inps)"
  have "?first + length inps < 2 ^ 64" using assms(4) by simp
  from site_ok_all [OF start_site_ok [OF load_templates_ok [OF assms(3)] assms(2)] this]
  have ok: "site_ok tx tlib (se_enabled (cg_search cfg)) (last (cfg # concat (map (loads clib yaml) inps)))
      (?first + length ?scans) (last (idx # ?scans)) s"
    unfolding s_def .
  have g: "?first + length ?scans + 1 < 2 ^ 64" using assms(4) scans_length [of slib sn inps] by simp
  have "\<forall>c \<in> set (cfg # concat (map (loads clib yaml) inps)). validate clib c = []"
    using assms(1) op_loads_valid by (fastforce simp: loads_def)
  then have v: "validate clib (last (cfg # concat (map (loads clib yaml) inps))) = []"
    by (rule bspec) (rule last_in_set, simp)
  have "case content_reloader clib yaml tlib slib sn tx inp s of (e, s') \<Rightarrow>
        (e = None \<longleftrightarrow> scanned slib sn inp \<noteq> []) \<and>
        (e = None \<longrightarrow> dp_static (st_deps s') = None \<and>
           (case st_cache s' of None \<Rightarrow> True | Some c \<Rightarrow> ca_entries c = Map.empty) \<and>
           (se_enabled (cg_search cfg) \<and> \<not> ri_panics inp \<longrightarrow> load_search (st_deps s') \<noteq> None))" for inp
  proof -
    obtain e s' where r: "content_reloader clib yaml tlib slib sn tx inp s = (e, s')" by fastforce
    show ?thesis using site_ok_reload [OF ok g r] by (simp add: r)
  qed
  then show ?thesis using ok v by (simp add: Let_def site_ok_def del: last.simps)
qed

definition demo_theme_fs :: content_fs where
  "demo_theme_fs = \<lparr>cf_walk = (\<lambda>d. [VisitFile base_name]), cf_read = (\<lambda>p. Ok ''x'')\<rparr>"

definition demo_inputs :: "reload_input list" where
  "demo_inputs =
     [\<lparr>ri_world = demo_world, ri_theme = demo_theme_fs, ri_content = demo_content, ri_panics = False\<rparr>,
      \<lparr>ri_world = demo_world, ri_theme = demo_content, ri_content = demo_content\<lparr>cf_walk := (\<lambda>d. [VisitErr d (RawError ErrPermission)])\<rparr>,
       ri_panics = True\<rparr>]"

theorem site_reloads_sound_witness:
  "\<exists>(clib :: string cfg_lib) s. s = reload_all clib (\<lambda>_. Some) (demo_tmpl :: (string, nat page_data) tmpl_lib)
       demo_scan_lib (new_scanner '''' '''' 0) demo_text demo_inputs
       (start_site demo_text False default_config (new_loader ''etc'') empty_index
         \<lparr>en_base = base_name, en_pages = Map.empty\<rparr> (\<lambda>_. Ok '''')) \<and>
     published demo_text 1 (finish_index demo_scan_lib empty_index) (st_deps s)"
proof -
  define clib where "clib = demo_cfg_lib\<lparr>cl_url := (\<lambda>u. Some (''http'', ''localhost:8080''))\<rparr>"
  have v: "validate clib default_config = []" by (rule default_valid) (simp add: clib_def)
  have t: "load_templates (demo_tmpl :: (string, nat page_data) tmpl_lib) demo_theme_fs =
      Ok \<lparr>en_base = base_name, en_pages = Map.empty\<rparr>"
    by (simp add: load_templates_def demo_theme_fs_def load_visit_def is_shared_def demo_tmpl_def base_name_def
        has_suffix_def contains_def)
  have n: "length demo_inputs + 2 < 2 ^ 64" by (simp add: demo_inputs_def)
  have s: "scanned demo_scan_lib (new_scanner '''' '''' 0) i = (if i = hd demo_inputs then [finish_index demo_scan_lib empty_index] else [])"
    if "i \<in> set demo_inputs" for i
    using that demo_scan
    by (auto simp: scanned_def demo_inputs_def scan_content_def scan_dir_def absorb_def new_scanner_def demo_content_def
        scan_visit_def is_not_exist_def)
  have c: "concat (map (scanned demo_scan_lib (new_scanner '''' '''' 0)) demo_inputs) = [finish_index demo_scan_lib empty_index]"
    using s by (simp add: demo_inputs_def)
  have e: "se_enabled (cg_search default_config) = False" by (simp add: default_config_def)
  have l: "ld_callbacks (new_loader ''etc'') = []" by (simp add: new_loader_def)
  note r = site_reloads_sound [OF v l t n, where slib = demo_scan_lib and sn = "new_scanner '''' '''' 0" and idx = empty_index
      and tx = demo_text and panics = False and overlay = "\<lambda>_. Ok ''''" and yaml = "\<lambda>_. Some", unfolded c e Let_def]
  have "published demo_text 1 (finish_index demo_scan_lib empty_index) (st_deps (reload_all clib (\<lambda>_. Some)
       (demo_tmpl :: (string, nat page_data) tmpl_lib) demo_scan_lib (new_scanner '''' '''' 0) demo_text demo_inputs
       (start_site demo_text False default_config (new_loader ''etc'') empty_index
         \<lparr>en_base = base_name, en_pages = Map.empty\<rparr> (\<lambda>_. Ok ''''))))"
    using r [THEN conjunct1] by simp
  then show ?thesis by (intro exI conjI) (rule refl)
qed

subsection \<open>Concurrent reloads\<close>

text \<open>
  The webhook handler calls the reloader on the goroutine of the request and nothing
  serializes two deliveries. A reload in flight has scanned, then drawn its generation, then
  publishes; between these steps the files may change and other reloads run. \<open>lv_scans\<close> is
  the list of what was scanned, \<open>lv_used\<close> of the generations drawn.
\<close>

datatype reload_pc = Scanned index search_config | Numbered index search_config nat

record 't live =
  lv_deps :: "'t deps"
  lv_disk :: content_fs
  lv_threads :: "nat \<Rightarrow> reload_pc option"
  lv_scans :: "index list"
  lv_used :: "nat list"

inductive reload_step :: "text_lib \<Rightarrow> scan_lib \<Rightarrow> scanner \<Rightarrow> 't live \<Rightarrow> 't live \<Rightarrow> bool" for tx slib sn where
  edit: "reload_step tx slib sn s (s\<lparr>lv_disk := fs\<rparr>)"
| reconfigure: "reload_step tx slib sn s (s\<lparr>lv_deps := set_config cfg (lv_deps s)\<rparr>)"
| rescan: "lv_threads s t = None \<Longrightarrow> scan_content slib sn (lv_disk s) False = Ok idx \<Longrightarrow>
    reload_step tx slib sn s (s\<lparr>lv_threads := (lv_threads s)(t \<mapsto> Scanned idx cfg), lv_scans := lv_scans s @ [idx]\<rparr>)"
| number: "lv_threads s t = Some (Scanned idx cfg) \<Longrightarrow> next_generation (lv_deps s) = (gen, d) \<Longrightarrow>
    dp_gen (lv_deps s) + 1 < 2 ^ 64 \<Longrightarrow>
    reload_step tx slib sn s
      (s\<lparr>lv_deps := d, lv_threads := (lv_threads s)(t \<mapsto> Numbered idx cfg gen), lv_used := lv_used s @ [gen]\<rparr>)"
| publish: "lv_threads s t = Some (Numbered idx cfg gen) \<Longrightarrow>
    reload_step tx slib sn s
      (s\<lparr>lv_deps := set_snapshot gen (Some idx)
           (if dp_search_enabled (lv_deps s) then build_search_index_safe tx panics (Some idx) cfg gen else None)
           (lv_deps s),
         lv_threads := (lv_threads s)(t := None)\<rparr>)"

inductive_cases reload_stepE: "reload_step tx slib sn s s'"

inductive reload_reach :: "text_lib \<Rightarrow> scan_lib \<Rightarrow> scanner \<Rightarrow> 't live \<Rightarrow> 't live \<Rightarrow> bool" for tx slib sn s0 where
  reach_start: "reload_reach tx slib sn s0 s0"
| reach_step: "reload_reach tx slib sn s0 s \<Longrightarrow> reload_step tx slib sn s s' \<Longrightarrow> reload_reach tx slib sn s0 s'"

definition start_live :: "'t deps \<Rightarrow> content_fs \<Rightarrow> index \<Rightarrow> 't live" where
  "start_live d fs idx =
     \<lparr>lv_deps = d, lv_disk = fs, lv_threads = (\<lambda>_. None), lv_scans = [idx], lv_used = [dp_gen d]\<rparr>"

definition reload_inv :: "text_lib \<Rightarrow> 't live \<Rightarrow> bool" where
  "reload_inv tx s \<longleftrightarrow>
     (\<exists>gen idx. published tx gen idx (lv_deps s) \<and> idx \<in> set (lv_scans s) \<and> gen \<in> set (lv_used s)) \<and>
     distinct (lv_used s) \<and> (\<forall>g \<in> set (lv_used s). g \<le> dp_gen (lv_deps s)) \<and>
     (\<forall>t idx cfg. lv_threads s t = Some (Scanned idx cfg) \<longrightarrow> idx \<in> set (lv_scans s)) \<and>
     (\<forall>t idx cfg gen. lv_threads s t = Some (Numbered idx cfg gen) \<longrightarrow> idx \<in> set (lv_scans s) \<and> gen \<in> set (lv_used s))"

lemma published_gen: "published tx gen idx (d\<lparr>dp_gen := g\<rparr>) = published tx gen idx d"
  by (simp add: published_def)

lemma published_set:
  "published tx gen idx (set_snapshot gen (Some idx)
     (if dp_search_enabled d then build_search_index_safe tx panics (Some idx) cfg gen else None) d)"
  by (auto simp: published_def set_snapshot_def build_search_index_safe_def)

lemma reload_inv_step:
  assumes "reload_step tx slib sn s s'" and inv: "reload_inv tx s"
  shows "reload_inv tx s'"
  using assms(1)
proof (cases rule: reload_step.cases)
  case (number t idx cfg gen d)
  then have d: "gen = dp_gen (lv_deps s) + 1" "d = (lv_deps s)\<lparr>dp_gen := gen\<rparr>"
    by (auto simp: next_generation_def Let_def)
  have "gen \<notin> set (lv_used s)" using inv d by (fastforce simp: reload_inv_def)
  then show ?thesis
    using inv number d by (auto simp: reload_inv_def published_gen split: if_splits)
next
  case (publish t idx cfg gen panics)
  have "dp_gen (lv_deps s') = dp_gen (lv_deps s)" unfolding publish by (simp add: set_snapshot_def)
  moreover have "published tx gen idx (lv_deps s')"
    using published_set [of tx gen idx "lv_deps s" panics cfg] unfolding publish by simp
  moreover have "lv_scans s' = lv_scans s" "lv_used s' = lv_used s" "lv_threads s' = (lv_threads s)(t := None)"
    unfolding publish by simp_all
  moreover have "idx \<in> set (lv_scans s)" "gen \<in> set (lv_used s)"
    using inv publish(2) by (auto simp: reload_inv_def)
  ultimately show ?thesis
    using inv unfolding reload_inv_def by (intro conjI) (metis, simp_all)
qed (use inv in \<open>auto simp: reload_inv_def published_frame split: if_splits\<close>, auto simp: set_config_def)

text \<open>
  However reloads interleave, what is published is some scan of the files with the search
  index of that very scan, and no generation is used twice.
\<close>

lemma reload_race_coherent:
  assumes "reload_reach tx slib sn (start_live d fs idx) s" and "published tx (dp_gen d) idx d"
  shows "reload_inv tx s"
  using assms(1)
proof induction
  case reach_start
  then show ?case using assms(2) by (auto simp: reload_inv_def start_live_def)
next
  case (reach_step s s')
  then show ?case using reload_inv_step by blast
qed

text \<open>
  But the order of the publications need not be that of the scans: with two reloads in flight
  the older scan can be published last, under the newer generation, and stays until the next
  reload, although a scan of the files as they are was already served.
\<close>

theorem concurrent_reloads_roll_back:
  assumes "scan_content slib sn old False = Ok a" and "scan_content slib sn new False = Ok b" and "a \<noteq> b"
    and "dp_gen d + 2 < 2 ^ 64"
  shows "\<exists>s1 s2. reload_reach tx slib sn (start_live d old idx) s1 \<and> reload_reach tx slib sn s1 s2 \<and>
    lv_disk s1 = new \<and> load_index (lv_deps s1) = Some b \<and>
    lv_disk s2 = new \<and> load_index (lv_deps s2) = Some a \<and> lv_threads s2 = (\<lambda>_. None)"
proof -
  let ?cfg = zero_search_config and ?step = "reload_step tx slib sn"
  let ?g1 = "dp_gen d + 1" and ?g2 = "dp_gen d + 2"
  let ?s0 = "start_live d old idx"
  let ?d1 = "d\<lparr>dp_gen := ?g1\<rparr>"
  let ?si = "\<lambda>i g. if dp_search_enabled d then build_search_index_safe tx True (Some i) ?cfg g else None"
  let ?d2 = "set_snapshot ?g1 (Some b) (?si b ?g1) ?d1"
  let ?d3 = "?d2\<lparr>dp_gen := ?g2\<rparr>"
  define t1 :: "'a live" where "t1 = ?s0\<lparr>lv_threads := (lv_threads ?s0)(0 \<mapsto> Scanned a ?cfg), lv_scans := lv_scans ?s0 @ [a]\<rparr>"
  define t2 where "t2 = t1\<lparr>lv_disk := new\<rparr>"
  define t3 where "t3 = t2\<lparr>lv_threads := (lv_threads t2)(1 \<mapsto> Scanned b ?cfg), lv_scans := lv_scans t2 @ [b]\<rparr>"
  define t4 where "t4 = t3\<lparr>lv_deps := ?d1, lv_threads := (lv_threads t3)(1 \<mapsto> Numbered b ?cfg ?g1), lv_used := lv_used t3 @ [?g1]\<rparr>"
  define s1 where "s1 = t4\<lparr>lv_deps := ?d2, lv_threads := (lv_threads t4)(1 := None)\<rparr>"
  define t5 where "t5 = s1\<lparr>lv_deps := ?d3, lv_threads := (lv_threads s1)(0 \<mapsto> Numbered a ?cfg ?g2), lv_used := lv_used s1 @ [?g2]\<rparr>"
  define s2 where "s2 = t5\<lparr>lv_deps := set_snapshot ?g2 (Some a) (?si a ?g2) ?d3, lv_threads := (lv_threads t5)(0 := None)\<rparr>"
  note defs = t1_def t2_def t3_def t4_def s1_def t5_def s2_def start_live_def
  have "?step ?s0 t1" unfolding t1_def by (rule reload_step.rescan) (use assms in \<open>simp_all add: start_live_def\<close>)
  moreover have "?step t1 t2" unfolding t2_def by (rule reload_step.edit)
  moreover have "?step t2 t3" unfolding t3_def by (rule reload_step.rescan) (use assms in \<open>simp_all add: defs\<close>)
  moreover have "?step t3 t4"
    unfolding t4_def by (rule reload_step.number) (use assms in \<open>simp_all add: defs next_generation_def Let_def\<close>)
  moreover have "?step t4 s1"
    unfolding s1_def using reload_step.publish [of t4 1 b ?cfg ?g1 tx slib sn True] by (simp add: defs set_snapshot_def)
  ultimately have r1: "reload_reach tx slib sn ?s0 s1" by (meson reload_reach.intros)
  have "?step s1 t5"
    unfolding t5_def by (rule reload_step.number) (use assms in \<open>simp_all add: defs next_generation_def set_snapshot_def Let_def\<close>)
  moreover have "?step t5 s2"
    unfolding s2_def using reload_step.publish [of t5 0 a ?cfg ?g2 tx slib sn True] by (simp add: defs set_snapshot_def)
  ultimately have r2: "reload_reach tx slib sn s1 s2" by (meson reload_reach.intros)
  have "lv_threads s2 = (\<lambda>_. None)" by (simp add: defs fun_eq_iff)
  then show ?thesis
    using r1 r2 by (intro exI [of _ s1] exI [of _ s2]) (simp add: defs set_snapshot_def load_index_def)
qed

end
