(* ===== verification/Server.thy ===== *)
theory Server
  imports Feeds Reload Webhook
begin

text \<open>
  The HTTP server (\<open>internal/server/server.go\<close>, \<open>requestid.go\<close>, \<open>metrics.go\<close>): routes, health
  and readiness, and the chain of middleware. \<open>http.ServeMux\<close> is modelled as far as the
  registered patterns use it: literal segments, one-segment wildcards, \<open>{$}\<close> and a trailing
  slash; paths are compared decoded and a redirect is written as a plain path. The file
  server, the Prometheus handler and the webhook handler are handlers passed in; \<open>otelhttp\<close>
  only wraps the chain in a span and is left out. The 16 random bytes of a request are
  \<open>rnd\<close>, \<open>None\<close> when \<open>crypto/rand\<close> fails.
\<close>

subsection \<open>Patterns\<close>

datatype seg = Lit string | Wild string | Rest | End

definition parse_seg :: "string \<Rightarrow> seg" where
  "parse_seg e =
     (if e = '''' then Rest
      else if e = ''{$}'' then End
      else if 2 < length e \<and> hd e = CHR ''{'' \<and> last e = CHR ''}'' then Wild (butlast (tl e))
      else Lit e)"

definition parse_pattern :: "string \<Rightarrow> seg list" where
  "parse_pattern p = map parse_seg (elems (drop 1 p))"

fun match_segs :: "seg list \<Rightarrow> string list \<Rightarrow> (string \<times> string) list option" where
  "match_segs [] [] = Some []"
| "match_segs (Rest # ps) (x # xs) = Some []"
| "match_segs (End # ps) (x # xs) = (if x = '''' \<and> xs = [] then Some [] else None)"
| "match_segs (Lit s # ps) (x # xs) = (if s = x then match_segs ps xs else None)"
| "match_segs (Wild n # ps) (x # xs) =
     (if x = '''' then None else map_option ((#) (n, x)) (match_segs ps xs))"
| "match_segs _ _ = None"

definition match_path :: "string \<Rightarrow> string \<Rightarrow> (string \<times> string) list option" where
  "match_path pat path = match_segs (parse_pattern pat) (elems (drop 1 path))"

record 's route =
  rt_method :: string
  rt_pattern :: string
  rt_handler :: "'s handler"

definition allows :: "string \<Rightarrow> string \<Rightarrow> bool" where
  "allows m method \<longleftrightarrow> method = m \<or> m = ''GET'' \<and> method = ''HEAD''"

text \<open>The first registered route that matches; the registered ones do not overlap.\<close>

definition find_route :: "'s route list \<Rightarrow> string \<Rightarrow> string \<Rightarrow> ('s route \<times> (string \<times> string) list) option" where
  "find_route rts method path =
     (case filter (\<lambda>rt. allows (rt_method rt) method \<and> match_path (rt_pattern rt) path \<noteq> None) rts of
        [] \<Rightarrow> None
      | rt # _ \<Rightarrow> Some (rt, the (match_path (rt_pattern rt) path)))"

definition clean_path :: "string \<Rightarrow> string" where
  "clean_path p =
     (let q = (if p = '''' \<or> hd p \<noteq> sl then sl # p else p); np = clean q in
      if last q = sl \<and> np \<noteq> ''/'' then np @ ''/'' else np)"

definition allowed_methods :: "'s route list \<Rightarrow> string \<Rightarrow> string list" where
  "allowed_methods rts path =
     (let ms = map rt_method (filter (\<lambda>rt. match_path (rt_pattern rt) path \<noteq> None \<or>
            last path \<noteq> sl \<and> match_path (rt_pattern rt) (path @ ''/'') \<noteq> None) rts)
      in sort (remdups (ms @ (if ''GET'' \<in> set ms then [''HEAD''] else []))))"

text \<open>The mux: what it serves, and the pattern it records in the request.\<close>

definition pattern_label :: "'s route \<Rightarrow> string" where
  "pattern_label rt = rt_method rt @ '' '' @ rt_pattern rt"

definition with_values :: "(string \<times> string) list \<Rightarrow> request \<Rightarrow> request" where
  "with_values vs req = req\<lparr>rq_value := (\<lambda>k. case map_of vs k of None \<Rightarrow> '''' | Some v \<Rightarrow> v)\<rparr>"

text \<open>\<open>/tree\<close> is redirected to \<open>/tree/\<close> when only that is registered.\<close>

definition slash_redirect :: "'s route list \<Rightarrow> string \<Rightarrow> string \<Rightarrow> bool" where
  "slash_redirect rts method path \<longleftrightarrow>
     last path \<noteq> sl \<and>
     (case find_route rts method (path @ ''/'') of
        None \<Rightarrow> False
      | Some (rt, vs) \<Rightarrow>
          last (parse_pattern (rt_pattern rt)) = Rest \<longrightarrow>
          length (parse_pattern (rt_pattern rt)) = length (elems (drop 1 (path @ ''/''))))"

definition mux_serve :: "'s route list \<Rightarrow> request \<Rightarrow> 's \<times> writer \<Rightarrow> (('s \<times> writer) \<times> exit) \<times> string" where
  "mux_serve rts req s =
     (let path = clean_path (rq_path req); found = find_route rts (rq_method req) path;
          answer = (\<lambda>w. ((fst s, w), Returned)) in
      if found = None \<and> slash_redirect rts (rq_method req) path
      then (answer (http_redirect req (path @ ''/'') (snd s)), path @ ''/'')
      else if path \<noteq> rq_path req
      then (answer (http_redirect req path (snd s)),
            case found of None \<Rightarrow> '''' | Some (rt, vs) \<Rightarrow> pattern_label rt)
      else case found of
          Some (rt, vs) \<Rightarrow> (rt_handler rt (with_values vs req) s, pattern_label rt)
        | None \<Rightarrow>
            (let ms = allowed_methods rts path in
             if ms \<noteq> []
             then (answer (http_error ''Method Not Allowed'' 405 (set_header ''Allow'' (join '', '' ms) (snd s))), '''')
             else (answer (http_error ''404 page not found'' 404 (snd s)), '''')))"

subsection \<open>State\<close>

record log_line =
  lg_method :: string
  lg_path :: string
  lg_status :: nat
  lg_remote :: string
  lg_client :: string
  lg_id :: string

record ('ip, 't) server =
  sr_config :: config
  sr_ready :: bool
  sr_checker :: "('t deps \<Rightarrow> nat) option"
  sr_nets :: "('ip \<Rightarrow> bool) list"
  sr_deps :: "'t deps"
  sr_log :: "log_line list"
  sr_counts :: "(string \<times> string \<times> string) list"

type_synonym ('ip, 't) server_handler = "('ip, 't) server handler"

text \<open>A handler over the shared state, run inside the server.\<close>

definition lift_handler :: "'t deps handler \<Rightarrow> ('ip, 't) server_handler" where
  "lift_handler h req s =
     (case s of (sv, w) \<Rightarrow> (case h req (sr_deps sv, w) of ((d, w'), x) \<Rightarrow> ((sv\<lparr>sr_deps := d\<rparr>, w'), x)))"

definition set_ready :: "bool \<Rightarrow> ('ip, 't) server \<Rightarrow> ('ip, 't) server" where
  "set_ready v sv = sv\<lparr>sr_ready := v\<rparr>"

definition set_content_checker :: "('t deps \<Rightarrow> nat) option \<Rightarrow> ('ip, 't) server \<Rightarrow> ('ip, 't) server" where
  "set_content_checker cc sv = sv\<lparr>sr_checker := cc\<rparr>"

definition plain_status :: "nat \<Rightarrow> string \<Rightarrow> writer \<Rightarrow> writer" where
  "plain_status code msg w =
     write_body msg (write_header code
       (set_header ''Cache-Control'' ''no-store'' (set_header ''Content-Type'' ''text/plain'' w)))"

definition health_handler :: "('ip, 't) server_handler" where
  "health_handler req s = ((fst s, plain_status 200 ''ok'' (snd s)), Returned)"

definition ready_handler :: "('ip, 't) server_handler" where
  "ready_handler req s =
     (case s of (sv, w) \<Rightarrow>
       ((sv,
         if \<not> sr_ready sv then plain_status 503 ''not ready'' w
         else if (case sr_checker sv of None \<Rightarrow> False | Some cc \<Rightarrow> cc (sr_deps sv) = 0)
         then (if rq_query req ''strict'' = ''true'' then plain_status 503 ''not ready (no content)'' w
               else plain_status 200 ''ready (no content)'' w)
         else plain_status 200 ''ready'' w), Returned))"

definition content_ready_handler :: "('ip, 't) server_handler" where
  "content_ready_handler req s =
     (case s of (sv, w) \<Rightarrow>
       ((sv, if (case sr_checker sv of None \<Rightarrow> False | Some cc \<Rightarrow> 0 < cc (sr_deps sv))
             then plain_status 200 ''content available'' w
             else plain_status 503 ''no content'' w), Returned))"

subsection \<open>Middleware\<close>

text \<open>The UUID of the random bytes: version and variant set, printed in five groups.\<close>

definition uuid_of :: "string \<Rightarrow> string" where
  "uuid_of b =
     (let b1 = b[6 := char_of (64 + byte (b ! 6) mod 16)];
          b2 = b1[8 := char_of (128 + byte (b1 ! 8) mod 64)];
          part = (\<lambda>i n. hex_encode (take n (drop i b2)))
      in part 0 4 @ ''-'' @ part 4 2 @ ''-'' @ part 6 2 @ ''-'' @ part 8 2 @ ''-'' @ part 10 6)"

definition is_valid_request_id :: "string \<Rightarrow> bool" where
  "is_valid_request_id s \<longleftrightarrow>
     s \<noteq> '''' \<and> length s \<le> 128 \<and> list_all (\<lambda>c. 0x21 \<le> byte c \<and> byte c \<le> 0x7E) s"

definition request_id_middleware :: "string option \<Rightarrow> 's handler \<Rightarrow> 's handler" where
  "request_id_middleware rnd next req s =
     (let given = rq_header req ''X-Request-Id'' in
      case (if is_valid_request_id given then Some given else map_option uuid_of rnd) of
        None \<Rightarrow> ((fst s, http_error ''Internal Server Error'' 500 (snd s)), Returned)
      | Some i \<Rightarrow> next (req\<lparr>rq_id := i\<rparr>) (fst s, set_header ''X-Request-Id'' i (snd s)))"

definition log_method :: "string \<Rightarrow> string" where
  "log_method m = (if 16 < length m then take 16 m @ ''...'' else m)"

text \<open>The log line is written when the handler returns; a panic that gets here skips it.\<close>

definition logging_middleware ::
  "'ip net_lib \<Rightarrow> ('ip, 't) server_handler \<Rightarrow> ('ip, 't) server_handler" where
  "logging_middleware nlib next req s =
     (case next req s of ((sv, w), x) \<Rightarrow>
       (case x of
          Panicked p \<Rightarrow> ((sv, w), x)
        | Returned \<Rightarrow>
            ((sv\<lparr>sr_log := sr_log sv @
                [\<lparr>lg_method = log_method (rq_method req),
                  lg_path = (if rq_path req = ''/search'' then rq_path req else rq_uri req),
                  lg_status = status_of w, lg_remote = rq_remote req,
                  lg_client = client_ip nlib (sr_nets sv) (rq_remote req) (rq_xff req) (rq_header req ''X-Real-Ip''),
                  lg_id = rq_id req\<rparr>]\<rparr>, w), Returned)))"

definition single_quoted :: "string \<Rightarrow> string" where
  "single_quoted s = CHR 0x27 # s @ [CHR 0x27]"

definition security_policy :: string where
  "security_policy =
     (let self = single_quoted ''self''; none = single_quoted ''none'' in
      ''default-src '' @ none @ ''; script-src '' @ self @ ''; object-src '' @ none @
      ''; connect-src '' @ none @ ''; style-src '' @ self @ '' '' @ single_quoted ''unsafe-inline'' @
      ''; img-src '' @ self @ '' https: data:; font-src '' @ self @ '' https:; base-uri '' @ self @
      ''; form-action '' @ self @ ''; frame-ancestors '' @ self)"

definition permissions_policy :: string where
  "permissions_policy =
     ''camera=(), microphone=(), geolocation=(), payment=(), usb=(), browsing-topics=(), interest-cohort=()''"

definition security_headers :: "config \<Rightarrow> writer \<Rightarrow> writer" where
  "security_headers cfg w =
     (let w1 = set_header ''Permissions-Policy'' permissions_policy
          (set_header ''Content-Security-Policy'' security_policy
          (set_header ''Referrer-Policy'' ''strict-origin-when-cross-origin''
          (set_header ''X-Frame-Options'' ''SAMEORIGIN''
          (set_header ''X-Content-Type-Options'' ''nosniff'' w))))
      in if sv_tls_terminated (cg_server cfg)
         then set_header ''Strict-Transport-Security''
           (''max-age='' @ itoa (sv_hsts_max_age (cg_server cfg)) @ ''; includeSubDomains'') w1
         else w1)"

definition security_headers_middleware :: "('ip, 't) server_handler \<Rightarrow> ('ip, 't) server_handler" where
  "security_headers_middleware next req s = next req (fst s, security_headers (sr_config (fst s)) (snd s))"

definition recovery_middleware :: "'s handler \<Rightarrow> 's handler" where
  "recovery_middleware next req s =
     (case next req s of
        (s', Returned) \<Rightarrow> (s', Returned)
      | ((st, w), Panicked p) \<Rightarrow>
          ((st, if hw_sent w \<noteq> None then w else http_error ''Internal Server Error'' 500 w), Returned))"

definition method_label :: "string \<Rightarrow> string" where
  "method_label m =
     (if m \<in> {''GET'', ''HEAD'', ''POST'', ''PUT'', ''PATCH'', ''DELETE'', ''OPTIONS'', ''CONNECT'', ''TRACE''}
      then m else ''OTHER'')"

definition status_bucket_label :: "nat \<Rightarrow> string" where
  "status_bucket_label code =
     (if 200 \<le> code \<and> code < 300 then ''2xx''
      else if 300 \<le> code \<and> code < 400 then ''3xx''
      else if 400 \<le> code \<and> code < 500 then ''4xx''
      else if 500 \<le> code \<and> code < 600 then ''5xx''
      else ''other'')"

text \<open>A panic skips the counters.\<close>

definition metrics_middleware ::
  "(request \<Rightarrow> ('ip, 't) server \<times> writer \<Rightarrow> ((('ip, 't) server \<times> writer) \<times> exit) \<times> string) \<Rightarrow>
   ('ip, 't) server_handler" where
  "metrics_middleware next req s =
     (case next req s of (((sv, w), x), pattern) \<Rightarrow>
       if rq_path req = ''/metrics'' \<or> x \<noteq> Returned then ((sv, w), x)
       else ((sv\<lparr>sr_counts := sr_counts sv @
           [(method_label (rq_method req), if pattern = '''' then ''unmatched'' else pattern,
             itoa (int (status_of w)))]\<rparr>, w), Returned))"

definition middleware ::
  "'ip net_lib \<Rightarrow> string option \<Rightarrow>
   (request \<Rightarrow> ('ip, 't) server \<times> writer \<Rightarrow> ((('ip, 't) server \<times> writer) \<times> exit) \<times> string) \<Rightarrow>
   ('ip, 't) server_handler" where
  "middleware nlib rnd next =
     request_id_middleware rnd (logging_middleware nlib (recovery_middleware
       (security_headers_middleware (metrics_middleware next))))"

definition health_paths :: "string list" where
  "health_paths = [''/healthz'', ''/readyz'', ''/readyz/content'']"

definition public_health_guard :: "config \<Rightarrow> 's handler \<Rightarrow> 's handler" where
  "public_health_guard cfg next req s =
     (if sv_private_health (cg_server cfg) \<and> clean (rq_path req) \<in> set health_paths
      then ((fst s, write_body (''not found'' @ [CHR 0x0A]) (write_header 404
         (set_header ''Cache-Control'' ''no-store''
           (set_header ''X-Content-Type-Options'' ''nosniff''
             (set_header ''Content-Type'' text_plain (snd s)))))), Returned)
      else next req s)"

subsection \<open>Routes\<close>

record 't route_options =
  ro_home :: "'t deps handler option"
  ro_list :: "'t deps handler option"
  ro_posts :: "'t deps handler option"
  ro_post :: "'t deps handler option"
  ro_page :: "'t deps handler option"
  ro_tag :: "'t deps handler option"
  ro_feed :: "'t deps handler option"
  ro_sitemap :: "'t deps handler option"
  ro_search :: "'t deps handler option"
  ro_webhook :: "'t deps handler option"
  ro_static :: "'t deps handler option"

definition get_route :: "string \<Rightarrow> 't deps handler \<Rightarrow> ('ip, 't) server route" where
  "get_route pat h = \<lparr>rt_method = ''GET'', rt_pattern = pat, rt_handler = lift_handler h\<rparr>"

definition health_routes :: "('ip, 't) server route list" where
  "health_routes =
     [\<lparr>rt_method = ''GET'', rt_pattern = ''/healthz'', rt_handler = health_handler\<rparr>,
      \<lparr>rt_method = ''GET'', rt_pattern = ''/readyz'', rt_handler = ready_handler\<rparr>,
      \<lparr>rt_method = ''GET'', rt_pattern = ''/readyz/content'', rt_handler = content_ready_handler\<rparr>]"

text \<open>The routes, or the panic; \<open>prom\<close> is the Prometheus handler.\<close>

definition requires :: "string \<Rightarrow> string" where
  "requires h = ''server: RegisterRoutes requires '' @ h"

definition content_routes :: "(string \<times> 't deps handler) list \<Rightarrow> ('ip, 't) server route list" where
  "content_routes hs = map (\<lambda>(pat, h). get_route pat h) hs"

definition route_table ::
  "config \<Rightarrow> 't deps handler \<Rightarrow> 't route_options \<Rightarrow> (string \<times> 't deps handler) list \<Rightarrow> 't deps handler \<Rightarrow>
   ('ip, 't) server route list" where
  "route_table cfg prom opts pages sitemap =
     content_routes pages @
     (if fe_enabled (cg_feed cfg) then [get_route ''/feed.xml'' (the (ro_feed opts))] else []) @
     [get_route ''/sitemap.xml'' sitemap] @
     (if se_enabled (cg_search cfg) then [get_route ''/search'' (the (ro_search opts))] else []) @
     (if \<not> sv_private_health (cg_server cfg) then health_routes else []) @
     (if effective_ops_port (cg_server cfg) = 0 then [get_route ''/metrics'' prom] else []) @
     (case ro_static opts of None \<Rightarrow> [] | Some st \<Rightarrow> [get_route ''/static/'' st]) @
     (if sy_strategy (cg_sync cfg) = ''webhook''
      then [\<lparr>rt_method = ''POST'', rt_pattern = wc_path (sy_webhook (cg_sync cfg)),
             rt_handler = lift_handler (the (ro_webhook opts))\<rparr>] else [])"

definition register_routes ::
  "config \<Rightarrow> 't deps handler \<Rightarrow> 't route_options \<Rightarrow> (string, ('ip, 't) server route list) result" where
  "register_routes cfg prom opts =
     (case ro_home opts of None \<Rightarrow> Err (requires ''HomeHandler'') | Some home \<Rightarrow>
     (case ro_list opts of None \<Rightarrow> Err (requires ''ListHandler'') | Some lst \<Rightarrow>
     (case ro_posts opts of None \<Rightarrow> Err (requires ''PostsListHandler'') | Some posts \<Rightarrow>
     (case ro_post opts of None \<Rightarrow> Err (requires ''PostHandler'') | Some post \<Rightarrow>
     (case ro_page opts of None \<Rightarrow> Err (requires ''PageHandler'') | Some page \<Rightarrow>
     (case ro_tag opts of None \<Rightarrow> Err (requires ''TagHandler'') | Some tag \<Rightarrow>
     (case ro_sitemap opts of None \<Rightarrow> Err (requires ''SitemapHandler'') | Some sitemap \<Rightarrow>
      if fe_enabled (cg_feed cfg) \<and> ro_feed opts = None
      then Err (requires ''FeedHandler when feed is enabled'')
      else if se_enabled (cg_search cfg) \<and> ro_search opts = None
      then Err (requires ''SearchHandler when search is enabled'')
      else if sy_strategy (cg_sync cfg) = ''webhook'' \<and> ro_webhook opts = None
      then Err (requires ''WebhookHandler when sync strategy is webhook'')
      else if sy_strategy (cg_sync cfg) = ''webhook'' \<and>
        contains_any (wc_path (sy_webhook (cg_sync cfg))) [CHR '' '', CHR 0x09]
      then Err (''server: webhook path '' @ wc_path (sy_webhook (cg_sync cfg)) @ '' contains spaces'')
      else Ok (route_table cfg prom opts
        [(''/{$}'', home), (''/posts'', posts), (''/page/{page}'', lst), (''/posts/{slug}'', post),
         (''/pages/{slug}'', page), (''/tags/{tag}'', tag)] sitemap))))))))"

text \<open>The ops listener's routes, when there is an ops port.\<close>

definition ops_routes :: "config \<Rightarrow> 't deps handler \<Rightarrow> ('ip, 't) server route list option" where
  "ops_routes cfg prom =
     (if 0 < effective_ops_port (cg_server cfg) then Some (get_route ''/metrics'' prom # health_routes) else None)"

definition new_server :: "'ip net_lib \<Rightarrow> config \<Rightarrow> 't deps \<Rightarrow> (string, ('ip, 't) server) result" where
  "new_server nlib cfg d =
     (case new_client_ip_resolver nlib (sv_trusted_proxy_cidrs (cg_server cfg)) of
        Inl e \<Rightarrow> Err (''server: invalid trusted proxy CIDR: '' @ e)
      | Inr nets \<Rightarrow> Ok \<lparr>sr_config = cfg, sr_ready = False, sr_checker = None, sr_nets = nets, sr_deps = d,
                        sr_log = [], sr_counts = []\<rparr>)"

definition public_handler ::
  "'ip net_lib \<Rightarrow> string option \<Rightarrow> config \<Rightarrow> ('ip, 't) server route list \<Rightarrow> ('ip, 't) server_handler" where
  "public_handler nlib rnd cfg rts = public_health_guard cfg (middleware nlib rnd (mux_serve rts))"

definition ops_handler ::
  "'ip net_lib \<Rightarrow> string option \<Rightarrow> ('ip, 't) server route list \<Rightarrow> ('ip, 't) server_handler" where
  "ops_handler nlib rnd rts = middleware nlib rnd (mux_serve rts)"

subsection \<open>Security headers\<close>

text \<open>
  The headers of an answer: each with its exact value, \<open>Strict-Transport-Security\<close> exactly
  behind TLS. \<open>keep\<close> tells that the Content-Security-Policy must be there; without it the
  header is the policy or absent.
\<close>

definition secure_header :: "config \<Rightarrow> string \<Rightarrow> bool \<Rightarrow> header \<Rightarrow> bool" where
  "secure_header cfg i keep h \<longleftrightarrow>
     h ''X-Content-Type-Options'' = Some ''nosniff'' \<and> h ''X-Frame-Options'' = Some ''SAMEORIGIN'' \<and>
     h ''Referrer-Policy'' = Some ''strict-origin-when-cross-origin'' \<and>
     h ''Permissions-Policy'' = Some permissions_policy \<and>
     h ''Strict-Transport-Security'' =
       (if sv_tls_terminated (cg_server cfg)
        then Some (''max-age='' @ itoa (sv_hsts_max_age (cg_server cfg)) @ ''; includeSubDomains'') else None) \<and>
     (h ''Content-Security-Policy'' = Some security_policy \<or> \<not> keep \<and> h ''Content-Security-Policy'' = None) \<and>
     h ''X-Request-Id'' = Some i"

definition secured :: "config \<Rightarrow> string \<Rightarrow> bool \<Rightarrow> writer \<Rightarrow> bool" where
  "secured cfg i keep w \<longleftrightarrow>
     secure_header cfg i keep (hw_header w) \<and> (\<forall>c h. hw_sent w = Some (c, h) \<longrightarrow> secure_header cfg i keep h)"

definition security_names :: "string list" where
  "security_names = [''X-Content-Type-Options'', ''X-Frame-Options'', ''Referrer-Policy'', ''Permissions-Policy'',
     ''Strict-Transport-Security'', ''Content-Security-Policy'', ''X-Request-Id'']"

lemma secure_header_upd:
  assumes "k \<notin> set security_names" and "secure_header cfg i kp h"
  shows "secure_header cfg i kp (h(k := v))"
proof -
  have "list_all (\<lambda>n. (h(k := v)) n = h n) security_names"
    using assms(1) by (auto simp: list_all_iff)
  then show ?thesis
    using assms(2) unfolding secure_header_def security_names_def list.pred_inject by (simp only: simp_thms)
qed

lemma secured_set [inv_intros]: "secured cfg i kp w \<Longrightarrow> k \<notin> set security_names \<Longrightarrow> secured cfg i kp (set_header k v w)"
  by (simp add: secured_def secure_header_upd)

lemma secured_del [inv_intros]: "secured cfg i kp w \<Longrightarrow> k \<notin> set security_names \<Longrightarrow> secured cfg i kp (del_header k w)"
  by (simp add: secured_def secure_header_upd)

lemma secured_write_header [inv_intros]: "secured cfg i kp w \<Longrightarrow> secured cfg i kp (write_header c w)"
  by (auto simp: secured_def write_header_def)

lemma secured_write_body [inv_intros]: "secured cfg i kp w \<Longrightarrow> secured cfg i kp (write_body b w)"
  using secured_write_header [of cfg i kp w 200] by (simp add: secured_def write_body_def Let_def)

lemma secured_nosniff [inv_intros]: "secured cfg i kp w \<Longrightarrow> secured cfg i kp (set_header ''X-Content-Type-Options'' ''nosniff'' w)"
  by (simp add: secured_def secure_header_def)

lemma not_security [simp]:
  "''Content-Type'' \<notin> set security_names" "''Content-Length'' \<notin> set security_names" "''Location'' \<notin> set security_names"
  "''Cache-Control'' \<notin> set security_names" "''ETag'' \<notin> set security_names" "''Last-Modified'' \<notin> set security_names"
  "''Allow'' \<notin> set security_names"
  by (simp_all add: security_names_def)

lemma secured_http_error [inv_intros]: "secured cfg i kp w \<Longrightarrow> secured cfg i kp (http_error msg c w)"
  unfolding http_error_def by (intro inv_intros) simp_all

lemma secured_http_redirect [inv_intros]: "secured cfg i kp w \<Longrightarrow> secured cfg i kp (http_redirect req url w)"
  by (simp add: http_redirect_def Let_def inv_intros)

lemma secured_html [inv_intros]: "secured cfg i kp w \<Longrightarrow> secured cfg i kp (write_html c out w)"
  unfolding write_html_def by (intro inv_intros) simp_all

lemma secured_server_error [inv_intros]: "secured cfg i kp w \<Longrightarrow> secured cfg i kp (server_error w)"
  unfolding server_error_def by (rule secured_http_error)

lemma secured_weaken: "secured cfg i kp w \<Longrightarrow> (kp' \<Longrightarrow> kp) \<Longrightarrow> secured cfg i kp' w"
  by (auto simp: secured_def secure_header_def)

lemma secured_static: "secured cfg i kp w \<Longrightarrow> secured cfg i False (write_static b w)"
proof -
  assume "secured cfg i kp w"
  then have "secured cfg i False (del_header ''Content-Security-Policy'' w)"
    by (auto simp: secured_def secure_header_def)
  then show ?thesis unfolding write_static_def by (intro secured_write_body secured_set) simp_all
qed

lemma secured_plain [inv_intros]: "secured cfg i kp w \<Longrightarrow> secured cfg i kp (plain_status c msg w)"
  unfolding plain_status_def by (intro inv_intros) simp_all

lemma secured_xml [inv_intros]: "secured cfg i kp w \<Longrightarrow> secured cfg i kp (write_xml_cached lib req ctype doc t w)"
proof (cases "fl_encode lib doc")
  case (Some xml)
  assume w: "secured cfg i kp w"
  have n: "\<not> (''ETag'' \<in> set security_names \<or> ''Cache-Control'' \<in> set security_names \<or>
      ''Content-Type'' \<in> set security_names \<or> ''Last-Modified'' \<in> set security_names)"
    by (simp add: security_names_def)
  show ?thesis
    using w n unfolding write_xml_cached_def Some option.case Let_def by (simp add: secured_set secured_write_header secured_write_body)
qed (simp add: write_xml_cached_def secured_server_error)

text \<open>
  The contract of a handler the server may register: whatever state it finds, it leaves the
  security headers as they are, also in what it sends.
\<close>

locale secure_handler =
  fixes h :: "'s handler"
  assumes keeps: "secured cfg i kp w \<Longrightarrow> secured cfg i kp (snd (fst (h req (s, w))))"
begin

lemma sends:
  assumes "secured cfg i kp w" and "h req (s, w) = ((s', w'), x)"
  shows "secured cfg i kp w'" and "secure_header cfg i kp (fst (snd (response_of w')))"
  using keeps [OF assms(1), of req s] assms(2)
  by (auto simp: secured_def response_of_def split: option.split)

end

text \<open>
  The weaker contract of the home page: in the cases of \<open>own\<close> the handler may answer without
  the Content-Security-Policy, since a static home page brings its own; every other header stays.
\<close>

locale front_handler =
  fixes h :: "'s handler" and own :: "request \<Rightarrow> 's \<Rightarrow> bool"
  assumes keeps_but: "secured cfg i kp w \<Longrightarrow> secured cfg i (kp \<and> \<not> own req s) (snd (fst (h req (s, w))))"
begin

lemma weaken:
  assumes "\<And>req s. own req s \<Longrightarrow> own' req s"
  shows "front_handler h own'"
  by unfold_locales (rule secured_weaken [OF keeps_but], assumption, use assms in blast)

end

sublocale secure_handler \<subseteq> front_handler h "\<lambda>req s. False"
  by unfold_locales (simp add: keeps)

lemma keeps_render_template: "secured cfg i kp w \<Longrightarrow> secured cfg i kp (snd (fst (render_template lib req name data c (d, w))))"
  by (auto simp: render_template_def Let_def intro: inv_intros split: sum.split)

lemma keeps_not_found: "secured cfg i kp w \<Longrightarrow> secured cfg i kp (snd (fst (not_found_handler lib req (d, w))))"
  by (simp add: not_found_handler_def keeps_render_template)

lemma keeps_viewed:
  "secured cfg i kp w \<Longrightarrow> secured cfg i kp (snd (fst (render_template lib req name data c (record_view typ slug (d, w)))))"
  by (simp add: record_view_def keeps_render_template)

interpretation sh_list: secure_handler "list_handler lib" for lib
  by unfold_locales
    (auto simp: list_handler_def Let_def panic_nil_def
      intro: inv_intros keeps_not_found keeps_viewed split: prod.split option.split)

interpretation sh_posts: secure_handler "posts_list_handler lib" for lib
  by unfold_locales
    (auto simp: posts_list_handler_def Let_def panic_nil_def intro: keeps_viewed split: option.split)

interpretation sh_post: secure_handler "post_handler lib" for lib
  by unfold_locales
    (auto simp: post_handler_def Let_def panic_nil_def intro: keeps_not_found keeps_viewed split: option.split)

interpretation sh_page: secure_handler "page_handler lib" for lib
  by unfold_locales
    (auto simp: page_handler_def Let_def panic_nil_def intro: keeps_not_found keeps_viewed split: option.split)

interpretation sh_tag: secure_handler "tag_handler lib" for lib
  by unfold_locales
    (auto simp: tag_handler_def Let_def panic_nil_def intro: keeps_not_found keeps_viewed split: option.split)

definition static_home :: "'t deps \<Rightarrow> bool" where
  "static_home d \<longleftrightarrow> has_prefix (si_homepage (cg_site (dp_config d))) ''static:''"

interpretation sh_static: front_handler "serve_static_home lib hp" "\<lambda>req s. True" for lib hp
  by unfold_locales
    (auto simp: serve_static_home_def intro: secured_static secured_weaken [OF sh_list.keeps]
      split: option.split sum.split)

interpretation sh_home: front_handler "home_handler lib" "\<lambda>req d. static_home d" for lib
proof unfold_locales
  fix cfg i kp w req d
  assume w: "secured cfg i kp w"
  show "secured cfg i (kp \<and> \<not> static_home d) (snd (fst (home_handler lib req (d, w))))"
  proof (cases "static_home d")
    case True
    then show ?thesis
      using secured_weaken [OF sh_static.keeps_but [OF w]] secured_weaken [OF sh_list.keeps [OF w]]
      by (auto simp: home_handler_def static_home_def Let_def)
  next
    case False
    then show ?thesis
      using w by (auto simp: home_handler_def static_home_def Let_def panic_nil_def
          intro: sh_list.keeps keeps_viewed split: option.split)
  qed
qed

interpretation sh_feed: secure_handler "feed_handler lib now" for lib now
  by unfold_locales
    (auto simp: feed_handler_def Let_def panic_nil_def intro: inv_intros split: option.split)

interpretation sh_sitemap: secure_handler "sitemap_handler lib" for lib
  by unfold_locales
    (auto simp: sitemap_handler_def Let_def panic_nil_def intro: inv_intros split: option.split)

lemma keeps_render_search: "secured cfg i kp w \<Longrightarrow> secured cfg i kp (snd (snd (render_search lib req sq c (d, w))))"
  by (auto simp: render_search_def Let_def intro: inv_intros split: sum.split)

lemma keeps_finish_search: "secured cfg i kp w \<Longrightarrow> secured cfg i kp (snd (snd (finish_search lib req sq c st (d, w))))"
  using keeps_render_search [of cfg i kp w lib req sq c d] by (auto simp: finish_search_def split: prod.split)

interpretation sh_search: secure_handler "search_handler tx ops lib" for tx ops lib
proof unfold_locales
  fix cfg i kp w req and s :: "'b deps"
  assume w: "secured cfg i kp w"
  have f: "secured cfg i kp (snd (case finish_search lib req sq c st (s, w) of (ok, d, w) \<Rightarrow> (f ok d, w)))" for sq c st f
    using keeps_finish_search [OF w, of lib req sq c st s] by (auto split: prod.split)
  show "secured cfg i kp (snd (fst (search_handler tx ops lib req (s, w))))"
    unfolding search_handler_def Let_def
    by (auto simp: keeps_render_search [OF w] keeps_finish_search [OF w] f split_beta
        split: option.split sum.split search_error.split)
qed

text \<open>The webhook's answer on the wire: \<open>http.Error\<close>, or a plain body with the skipped branch.\<close>

definition emit_webhook :: "wh_response \<Rightarrow> writer \<Rightarrow> writer" where
  "emit_webhook r w =
     (if wr_status r \<in> {200, 202}
      then write_body (wr_body r) (write_header (wr_status r)
        (case wr_skipped r of None \<Rightarrow> w | Some b \<Rightarrow> set_header ''X-Blogflow-Branch-Skipped'' b w))
      else http_error (wr_body r) (wr_status r) w)"

definition webhook_http :: "(request \<Rightarrow> 's \<Rightarrow> wh_response \<times> 's) \<Rightarrow> 's handler" where
  "webhook_http serve req s =
     (case serve req (fst s) of (r, st) \<Rightarrow> ((st, emit_webhook r (snd s)), Returned))"

interpretation sh_webhook: secure_handler "webhook_http serve" for serve
proof unfold_locales
  fix cfg i kp w req s
  have n: "''X-Blogflow-Branch-Skipped'' \<notin> set security_names" by (simp add: security_names_def)
  assume "secured cfg i kp w"
  then show "secured cfg i kp (snd (fst (webhook_http serve req (s, w))))"
    by (auto simp: webhook_http_def emit_webhook_def n intro!: inv_intros split: prod.split option.split)
qed

interpretation sh_health: secure_handler health_handler
  by unfold_locales (auto simp: health_handler_def intro: inv_intros)

interpretation sh_ready: secure_handler ready_handler
  by unfold_locales (auto simp: ready_handler_def intro: inv_intros)

interpretation sh_content: secure_handler content_ready_handler
  by unfold_locales (auto simp: content_ready_handler_def intro: inv_intros)

lemma match_home:
  assumes "match_path ''/{$}'' p \<noteq> None" and "clean_path p = p"
  shows "p = ''/''"
proof -
  have "parse_pattern ''/{$}'' = [End]" by code_simp
  then have "elems (drop 1 p) = ['''']"
    using assms(1) by (cases "elems (drop 1 p)") (auto simp: match_path_def split: if_splits)
  then have "drop 1 p = ''''" using join_split_on [of sl "drop 1 p"] by (simp add: elems_def)
  moreover have "\<exists>t. clean_path p = sl # t"
    by (cases p) (auto simp: clean_path_def clean_def is_abs_def Let_def)
  then have "\<exists>t. p = sl # t" using assms(2) by simp
  ultimately show ?thesis by auto
qed

lemma front_lift: "front_handler h own \<Longrightarrow> front_handler (lift_handler h) (\<lambda>req sv. own req (sr_deps sv))"
  by (auto simp: front_handler_def lift_handler_def split: prod.split) (metis fst_conv snd_conv)

lemma front_mux:
  assumes "\<forall>rt \<in> set rts. front_handler (rt_handler rt) (\<lambda>req s. rt_pattern rt = ''/{$}'' \<and> own s)"
  shows "front_handler (\<lambda>req s. fst (mux_serve rts req s)) (\<lambda>req s. rq_path req = ''/'' \<and> own s)"
proof
  fix cfg i kp w s and req :: request
  assume w: "secured cfg i kp w"
  then have v: "secured cfg i (kp \<and> \<not> (rq_path req = ''/'' \<and> own s)) w" by (rule secured_weaken) simp
  have "secured cfg i (kp \<and> \<not> (p = ''/'' \<and> own s)) (snd (fst (rt_handler rt r (s, w))))"
    if "find_route rts m p = Some (rt, vs)" and c: "clean_path p = p" for rt vs m p r
  proof -
    have rt: "rt \<in> set rts" "match_path (rt_pattern rt) p \<noteq> None"
      using that(1) by (auto simp: find_route_def split: list.splits dest!: filter_eq_ConsD)
    have k: "secured cfg i (kp \<and> \<not> (rt_pattern rt = ''/{$}'' \<and> own s)) (snd (fst (rt_handler rt r (s, w))))"
      using assms w rt(1) by (simp add: front_handler_def)
    show ?thesis by (rule secured_weaken [OF k]) (use rt(2) match_home [OF _ c] in metis)
  qed
  then show "secured cfg i (kp \<and> \<not> (rq_path req = ''/'' \<and> own s)) (snd (fst (fst (mux_serve rts req (s, w)))))"
    using v by (auto simp: mux_serve_def Let_def intro!: inv_intros split: option.split)
qed

lemma front_recovery: "front_handler h own \<Longrightarrow> front_handler (recovery_middleware h) own"
proof
  fix cfg i kp w req s
  assume "front_handler h own" "secured cfg i kp w"
  then have "secured cfg i (kp \<and> \<not> own req s) (snd (fst (h req (s, w))))" by (simp add: front_handler_def)
  then show "secured cfg i (kp \<and> \<not> own req s) (snd (fst (recovery_middleware h req (s, w))))"
    by (auto simp: recovery_middleware_def intro: inv_intros split: prod.split exit.split)
qed

lemma front_metrics:
  "front_handler (\<lambda>req s. fst (next req s)) own \<Longrightarrow> front_handler (metrics_middleware next) (\<lambda>req sv. own req sv)"
proof
  fix cfg i kp w req s
  assume "front_handler (\<lambda>req s. fst (next req s)) own" "secured cfg i kp w"
  then have "secured cfg i (kp \<and> \<not> own req s) (snd (fst (fst (next req (s, w)))))" by (simp add: front_handler_def)
  then show "secured cfg i (kp \<and> \<not> own req s) (snd (fst (metrics_middleware next req (s, w))))"
    by (auto simp: metrics_middleware_def split: prod.split)
qed

lemma secured_start: "secured cfg i True (security_headers cfg (set_header ''X-Request-Id'' i new_writer))"
  by (simp add: secured_def secure_header_def security_headers_def new_writer_def Let_def)

text \<open>What the chain does with a request that got past the guard.\<close>

lemma hex_length: "length (hex_encode s) = 2 * length s"
  by (induction s) (simp_all add: hex_encode_def)

definition id_char :: "char \<Rightarrow> bool" where
  "id_char c \<longleftrightarrow> 0x21 \<le> byte c \<and> byte c \<le> 0x7E"

lemma hex_digit_id: "n < 16 \<Longrightarrow> id_char (hex_digit n)"
  by (simp add: id_char_def hex_digit_def)

lemma hex_id: "list_all id_char (hex_encode s)"
proof (induction s)
  case (Cons c s)
  then show ?case by (simp add: hex_encode_def hex_digit_id nibbles)
qed (simp add: hex_encode_def)

lemma dash_id: "list_all id_char ''-''"
  by (simp add: id_char_def)

lemma uuid_shape:
  "\<exists>c. length c = length b \<and> uuid_of b = hex_encode (take 4 (drop 0 c)) @ ''-'' @ hex_encode (take 2 (drop 4 c)) @ ''-'' @
      hex_encode (take 2 (drop 6 c)) @ ''-'' @ hex_encode (take 2 (drop 8 c)) @ ''-'' @ hex_encode (take 6 (drop 10 c))"
  unfolding uuid_of_def Let_def by (rule exI, rule conjI [rotated], rule refl) simp

lemma uuid_valid:
  assumes "length b = 16"
  shows "is_valid_request_id (uuid_of b)"
proof -
  obtain c where c: "length c = 16" and u: "uuid_of b = hex_encode (take 4 (drop 0 c)) @ ''-'' @ hex_encode (take 2 (drop 4 c)) @ ''-'' @
      hex_encode (take 2 (drop 6 c)) @ ''-'' @ hex_encode (take 2 (drop 8 c)) @ ''-'' @ hex_encode (take 6 (drop 10 c))"
    using uuid_shape [of b] assms by auto
  have "list_all id_char (uuid_of b)" unfolding u list_all_append using hex_id dash_id by blast
  moreover have "length (uuid_of b) = 36" unfolding u by (simp add: hex_length c)
  ultimately show ?thesis unfolding is_valid_request_id_def id_char_def by auto
qed

definition request_id :: "request \<Rightarrow> string \<Rightarrow> string" where
  "request_id req b =
     (if is_valid_request_id (rq_header req ''X-Request-Id'') then rq_header req ''X-Request-Id'' else uuid_of b)"

lemma request_id_valid: "length b = 16 \<Longrightarrow> is_valid_request_id (request_id req b)"
  by (simp add: request_id_def uuid_valid)

lemma request_id_step:
  "request_id_middleware (Some b) next req (sv, w) =
     next (req\<lparr>rq_id := request_id req b\<rparr>) (sv, set_header ''X-Request-Id'' (request_id req b) w)"
  by (simp add: request_id_middleware_def request_id_def Let_def)

definition inner_chain ::
  "('ip, 't) server route list \<Rightarrow> ('ip, 't) server_handler" where
  "inner_chain rts = recovery_middleware (security_headers_middleware (metrics_middleware (mux_serve rts)))"

lemma middleware_chain:
  assumes "inner_chain rts (req\<lparr>rq_id := request_id req b\<rparr>)
      (sv, set_header ''X-Request-Id'' (request_id req b) w) = ((sv', w'), x)"
  shows "x = Returned" and
    "middleware nlib (Some b) (mux_serve rts) req (sv, w) =
      ((sv'\<lparr>sr_log := sr_log sv' @
          [\<lparr>lg_method = log_method (rq_method req),
            lg_path = (if rq_path req = ''/search'' then rq_path req else rq_uri req),
            lg_status = status_of w', lg_remote = rq_remote req,
            lg_client = client_ip nlib (sr_nets sv') (rq_remote req) (rq_xff req) (rq_header req ''X-Real-Ip''),
            lg_id = request_id req b\<rparr>]\<rparr>, w'), Returned)"
proof -
  show x: "x = Returned"
    using assms by (auto simp: inner_chain_def recovery_middleware_def split: prod.splits exit.splits)
  show "middleware nlib (Some b) (mux_serve rts) req (sv, w) =
      ((sv'\<lparr>sr_log := sr_log sv' @
          [\<lparr>lg_method = log_method (rq_method req),
            lg_path = (if rq_path req = ''/search'' then rq_path req else rq_uri req),
            lg_status = status_of w', lg_remote = rq_remote req,
            lg_client = client_ip nlib (sr_nets sv') (rq_remote req) (rq_xff req) (rq_header req ''X-Real-Ip''),
            lg_id = request_id req b\<rparr>]\<rparr>, w'), Returned)"
    using assms x unfolding middleware_def request_id_step logging_middleware_def inner_chain_def [symmetric]
    by simp
qed

lemma inner_chain_secured:
  assumes "\<forall>rt \<in> set rts. front_handler (rt_handler rt) (\<lambda>req sv. rt_pattern rt = ''/{$}'' \<and> own sv)"
    and "inner_chain rts req (sv, set_header ''X-Request-Id'' i new_writer) = ((sv', w'), x)"
  shows "secured (sr_config sv) i (\<not> (rq_path req = ''/'' \<and> own sv)) w'"
proof -
  let ?m = "metrics_middleware (mux_serve rts)" let ?own = "\<lambda>req sv. rq_path req = ''/'' \<and> own sv"
  let ?w = "security_headers (sr_config sv) (set_header ''X-Request-Id'' i new_writer)"
  have m: "front_handler ?m ?own" by (rule front_metrics [OF front_mux [OF assms(1)]])
  have "secured (sr_config sv) i (True \<and> \<not> ?own req sv) (snd (fst (recovery_middleware ?m req (sv, ?w))))"
    by (rule front_handler.keeps_but [OF front_recovery [OF m] secured_start])
  moreover have "recovery_middleware ?m req (sv, ?w) = ((sv', w'), x)"
    using assms(2) by (simp add: inner_chain_def recovery_middleware_def security_headers_middleware_def)
  ultimately show ?thesis by simp
qed

subsection \<open>Registered routes\<close>

definition option_handlers :: "'t route_options \<Rightarrow> 't deps handler set" where
  "option_handlers opts =
     set_option (ro_home opts) \<union> set_option (ro_list opts) \<union> set_option (ro_posts opts) \<union>
     set_option (ro_post opts) \<union> set_option (ro_page opts) \<union> set_option (ro_tag opts) \<union>
     set_option (ro_feed opts) \<union> set_option (ro_sitemap opts) \<union> set_option (ro_search opts) \<union>
     set_option (ro_webhook opts) \<union> set_option (ro_static opts)"

lemma register_routes_ok:
  assumes "register_routes cfg prom opts = Ok rts"
  obtains home lst posts post page tag sitemap where
    "ro_home opts = Some home" "ro_list opts = Some lst" "ro_posts opts = Some posts" "ro_post opts = Some post"
    "ro_page opts = Some page" "ro_tag opts = Some tag" "ro_sitemap opts = Some sitemap"
    "fe_enabled (cg_feed cfg) \<longrightarrow> ro_feed opts \<noteq> None" "se_enabled (cg_search cfg) \<longrightarrow> ro_search opts \<noteq> None"
    "sy_strategy (cg_sync cfg) = ''webhook'' \<longrightarrow> ro_webhook opts \<noteq> None"
    "rts = route_table cfg prom opts
        [(''/{$}'', home), (''/posts'', posts), (''/page/{page}'', lst), (''/posts/{slug}'', post),
         (''/pages/{slug}'', page), (''/tags/{tag}'', tag)] sitemap"
  using assms unfolding register_routes_def by (auto split: option.splits if_splits)

lemma in_set_if: "x \<in> set (if b then xs else []) \<longleftrightarrow> b \<and> x \<in> set xs"
  by simp

lemma in_set_option: "x \<in> set (case o' of None \<Rightarrow> [] | Some y \<Rightarrow> [f y]) \<longleftrightarrow> (\<exists>y. o' = Some y \<and> x = f y)"
  by (auto split: option.split)

lemma registered_options:
  "ro_feed opts \<noteq> None \<Longrightarrow> the (ro_feed opts) \<in> option_handlers opts"
  "ro_search opts \<noteq> None \<Longrightarrow> the (ro_search opts) \<in> option_handlers opts"
  "ro_webhook opts \<noteq> None \<Longrightarrow> the (ro_webhook opts) \<in> option_handlers opts"
  "ro_static opts = Some st \<Longrightarrow> st \<in> option_handlers opts"
  by (auto simp: option_handlers_def)

lemma route_table_set:
  assumes "rt \<in> set (route_table cfg prom opts pages sitemap)"
    and "fe_enabled (cg_feed cfg) \<longrightarrow> ro_feed opts \<noteq> None" "se_enabled (cg_search cfg) \<longrightarrow> ro_search opts \<noteq> None"
    and "sy_strategy (cg_sync cfg) = ''webhook'' \<longrightarrow> ro_webhook opts \<noteq> None"
  shows "(\<exists>h \<in> insert prom (insert sitemap (snd ` set pages \<union> option_handlers opts)). rt_handler rt = lift_handler h) \<or>
    \<not> sv_private_health (cg_server cfg) \<and> rt \<in> set health_routes"
proof -
  consider "rt \<in> set (content_routes pages)"
    | "fe_enabled (cg_feed cfg)" "rt = get_route ''/feed.xml'' (the (ro_feed opts))"
    | "rt = get_route ''/sitemap.xml'' sitemap"
    | "se_enabled (cg_search cfg)" "rt = get_route ''/search'' (the (ro_search opts))"
    | "\<not> sv_private_health (cg_server cfg)" "rt \<in> set health_routes"
    | "rt = get_route ''/metrics'' prom"
    | st where "ro_static opts = Some st" "rt = get_route ''/static/'' st"
    | "sy_strategy (cg_sync cfg) = ''webhook''" "rt_handler rt = lift_handler (the (ro_webhook opts))"
    using assms(1) unfolding route_table_def set_append Un_iff in_set_if in_set_option list.set by fastforce
  then show ?thesis
  proof cases
    case 1
    then obtain pat h where h: "(pat, h) \<in> set pages" and rt: "rt = get_route pat h"
      by (auto simp: content_routes_def)
    from h have "h \<in> snd ` set pages" by (rule image_eqI [rotated]) simp
    then show ?thesis by (intro disjI1 bexI [of _ h]) (simp_all add: rt get_route_def)
  qed (use assms(2-4) registered_options [of opts] in \<open>auto simp: get_route_def\<close>)
qed

lemma registered_routes:
  assumes "register_routes cfg prom opts = Ok rts" and "rt \<in> set rts"
  shows "(\<exists>h \<in> insert prom (option_handlers opts). rt_handler rt = lift_handler h) \<or>
    \<not> sv_private_health (cg_server cfg) \<and> rt \<in> set health_routes"
  using assms(1)
proof (rule register_routes_ok)
  fix home lst posts post page tag sitemap
  assume o: "ro_home opts = Some home" "ro_list opts = Some lst" "ro_posts opts = Some posts"
    "ro_post opts = Some post" "ro_page opts = Some page" "ro_tag opts = Some tag" "ro_sitemap opts = Some sitemap"
    and n: "fe_enabled (cg_feed cfg) \<longrightarrow> ro_feed opts \<noteq> None" "se_enabled (cg_search cfg) \<longrightarrow> ro_search opts \<noteq> None"
    "sy_strategy (cg_sync cfg) = ''webhook'' \<longrightarrow> ro_webhook opts \<noteq> None"
    and r: "rts = route_table cfg prom opts
        [(''/{$}'', home), (''/posts'', posts), (''/page/{page}'', lst), (''/posts/{slug}'', post),
         (''/pages/{slug}'', page), (''/tags/{tag}'', tag)] sitemap"
  have "insert sitemap (snd ` set [(''/{$}'', home), (''/posts'', posts), (''/page/{page}'', lst), (''/posts/{slug}'', post),
         (''/pages/{slug}'', page), (''/tags/{tag}'', tag)] \<union> option_handlers opts) \<subseteq> option_handlers opts"
    unfolding option_handlers_def o option.set list.set image_insert snd_conv image_empty by blast
  then show ?thesis using route_table_set [OF assms(2) [unfolded r] n] by blast
qed

text \<open>The home page's handler answers under one pattern only.\<close>

lemma registered_front:
  assumes "register_routes cfg prom opts = Ok rts" and "rt \<in> set rts"
  shows "(rt_pattern rt = ''/{$}'' \<and> (\<exists>h \<in> set_option (ro_home opts). rt_handler rt = lift_handler h)) \<or>
    (\<exists>h \<in> insert prom (option_handlers (opts\<lparr>ro_home := None\<rparr>)). rt_handler rt = lift_handler h) \<or>
    rt \<in> set health_routes"
  using assms(1)
proof (rule register_routes_ok)
  fix home lst posts post page tag sitemap
  assume o: "ro_home opts = Some home" "ro_list opts = Some lst" "ro_posts opts = Some posts"
    "ro_post opts = Some post" "ro_page opts = Some page" "ro_tag opts = Some tag" "ro_sitemap opts = Some sitemap"
    and n: "fe_enabled (cg_feed cfg) \<longrightarrow> ro_feed opts \<noteq> None" "se_enabled (cg_search cfg) \<longrightarrow> ro_search opts \<noteq> None"
    "sy_strategy (cg_sync cfg) = ''webhook'' \<longrightarrow> ro_webhook opts \<noteq> None"
    and r: "rts = route_table cfg prom opts
        [(''/{$}'', home), (''/posts'', posts), (''/page/{page}'', lst), (''/posts/{slug}'', post),
         (''/pages/{slug}'', page), (''/tags/{tag}'', tag)] sitemap"
  let ?opts = "opts\<lparr>ro_home := None\<rparr>"
  let ?pages = "[(''/posts'', posts), (''/page/{page}'', lst), (''/posts/{slug}'', post),
         (''/pages/{slug}'', page), (''/tags/{tag}'', tag)]"
  have "rts = get_route ''/{$}'' home # route_table cfg prom ?opts ?pages sitemap"
    unfolding r route_table_def content_routes_def by simp
  then consider "rt = get_route ''/{$}'' home" | "rt \<in> set (route_table cfg prom ?opts ?pages sitemap)"
    using assms(2) by auto
  then show ?thesis
  proof cases
    case 1
    then show ?thesis by (simp add: get_route_def o)
  next
    case 2
    have "insert sitemap (snd ` set ?pages \<union> option_handlers ?opts) \<subseteq> option_handlers ?opts"
      using o by (auto simp: option_handlers_def)
    moreover have "(\<exists>h \<in> insert prom (insert sitemap (snd ` set ?pages \<union> option_handlers ?opts)). rt_handler rt = lift_handler h) \<or>
        \<not> sv_private_health (cg_server cfg) \<and> rt \<in> set health_routes"
      by (rule route_table_set [OF 2]) (use n in simp_all)
    ultimately show ?thesis by blast
  qed
qed

lemma registered_secure:
  assumes "register_routes cfg prom opts = Ok rts"
    and "\<forall>h \<in> insert prom (option_handlers (opts\<lparr>ro_home := None\<rparr>)). secure_handler h"
    and "\<forall>h \<in> set_option (ro_home opts). front_handler h (\<lambda>req. static_home)"
  shows "\<forall>rt \<in> set rts. front_handler (rt_handler rt) (\<lambda>req sv. rt_pattern rt = ''/{$}'' \<and> static_home (sr_deps sv))"
proof
  fix rt assume "rt \<in> set rts"
  note cases = registered_front [OF assms(1) this]
  have plain: "front_handler (rt_handler rt) (\<lambda>req sv. rt_pattern rt = ''/{$}'' \<and> static_home (sr_deps sv))"
    if "front_handler (rt_handler rt) (\<lambda>req sv. False)"
    by (rule front_handler.weaken [OF that]) simp
  from cases show "front_handler (rt_handler rt) (\<lambda>req sv. rt_pattern rt = ''/{$}'' \<and> static_home (sr_deps sv))"
  proof (elim disjE)
    assume "rt_pattern rt = ''/{$}'' \<and> (\<exists>h \<in> set_option (ro_home opts). rt_handler rt = lift_handler h)"
    then obtain h where "h \<in> set_option (ro_home opts)" "rt_handler rt = lift_handler h" "rt_pattern rt = ''/{$}''" by blast
    then show ?thesis using front_lift [of h "\<lambda>req. static_home"] assms(3) by simp
  next
    assume "\<exists>h \<in> insert prom (option_handlers (opts\<lparr>ro_home := None\<rparr>)). rt_handler rt = lift_handler h"
    then obtain h where h: "secure_handler h" "rt_handler rt = lift_handler h" using assms(2) by blast
    have "front_handler h (\<lambda>req s. False)" using h(1) by (auto simp: front_handler_def secure_handler_def)
    from front_lift [OF this] show ?thesis by (intro plain) (simp add: h(2))
  next
    assume "rt \<in> set health_routes"
    then show ?thesis
      by (intro plain) (auto simp: health_routes_def sh_health.front_handler_axioms
          sh_ready.front_handler_axioms sh_content.front_handler_axioms)
  qed
qed

subsection \<open>Readiness stays private\<close>

text \<open>The server with other readiness.\<close>

definition with_ready :: "bool \<Rightarrow> ('t deps \<Rightarrow> nat) option \<Rightarrow> ('ip, 't) server \<Rightarrow> ('ip, 't) server" where
  "with_ready b cc sv = sv\<lparr>sr_ready := b, sr_checker := cc\<rparr>"

definition blind :: "bool \<Rightarrow> ('t deps \<Rightarrow> nat) option \<Rightarrow> ('ip, 't) server_handler \<Rightarrow> bool" where
  "blind b cc h \<longleftrightarrow> (\<forall>req sv w. h req (with_ready b cc sv, w) =
     (case h req (sv, w) of ((sv', w'), x) \<Rightarrow> ((with_ready b cc sv', w'), x)))"

lemma with_ready_simps [simp]:
  "sr_config (with_ready b cc sv) = sr_config sv" "sr_deps (with_ready b cc sv) = sr_deps sv"
  "sr_nets (with_ready b cc sv) = sr_nets sv" "sr_log (with_ready b cc sv) = sr_log sv"
  "sr_counts (with_ready b cc sv) = sr_counts sv"
  "(with_ready b cc sv)\<lparr>sr_deps := d\<rparr> = with_ready b cc (sv\<lparr>sr_deps := d\<rparr>)"
  "(with_ready b cc sv)\<lparr>sr_log := l\<rparr> = with_ready b cc (sv\<lparr>sr_log := l\<rparr>)"
  "(with_ready b cc sv)\<lparr>sr_counts := c\<rparr> = with_ready b cc (sv\<lparr>sr_counts := c\<rparr>)"
  by (simp_all add: with_ready_def)

lemma blind_lift: "blind b cc (lift_handler h)"
  by (simp add: blind_def lift_handler_def split: prod.split)

lemma blind_mux:
  assumes "\<forall>rt \<in> set rts. blind b cc (rt_handler rt)"
  shows "mux_serve rts req (with_ready b cc sv, w) =
    (case mux_serve rts req (sv, w) of (((sv', w'), x), p) \<Rightarrow> (((with_ready b cc sv', w'), x), p))"
proof -
  have "rt_handler rt r (with_ready b cc sv, w) =
      (case rt_handler rt r (sv, w) of ((sv', w'), x) \<Rightarrow> ((with_ready b cc sv', w'), x))"
    if "find_route rts m p = Some (rt, vs)" for rt vs m p r
  proof -
    have "rt \<in> set rts" using that by (auto simp: find_route_def split: list.splits dest!: filter_eq_ConsD)
    then show ?thesis using assms by (simp add: blind_def)
  qed
  then show ?thesis by (auto simp: mux_serve_def Let_def split: option.split prod.split)
qed

lemma blind_middleware:
  assumes "\<forall>rt \<in> set rts. blind b cc (rt_handler rt)"
  shows "blind b cc (middleware nlib rnd (mux_serve rts))"
proof -
  have 1: "blind b cc (metrics_middleware (mux_serve rts))"
    unfolding blind_def metrics_middleware_def blind_mux [OF assms] by (auto split: prod.split)
  have 2: "blind b cc (security_headers_middleware h)" if "blind b cc h" for h
    using that by (simp add: blind_def security_headers_middleware_def)
  have 3: "blind b cc (recovery_middleware h)" if "blind b cc h" for h
    using that by (auto simp: blind_def recovery_middleware_def split: prod.split exit.split)
  have 4: "blind b cc (logging_middleware nlib h)" if "blind b cc h" for h
    using that by (auto simp: blind_def logging_middleware_def split: prod.split exit.split)
  have 5: "blind b cc (request_id_middleware rnd h)" if "blind b cc h" for h
    using that by (auto simp: blind_def request_id_middleware_def Let_def split: option.split)
  show ?thesis unfolding middleware_def by (intro 1 2 3 4 5)
qed

lemma mux_found:
  "clean_path (rq_path req) = rq_path req \<Longrightarrow> find_route rts (rq_method req) (rq_path req) = Some (rt, vs) \<Longrightarrow>
     mux_serve rts req s = (rt_handler rt (with_values vs req) s, pattern_label rt)"
  by (simp add: mux_serve_def Let_def)

lemma ops_ready:
  assumes "inner_chain (get_route ''/metrics'' prom # health_routes) req (sv, w) = ((sv', w'), x)"
    and "rq_method req = ''GET''" and "rq_path req = ''/readyz''" and "rq_query req ''strict'' \<noteq> ''true''"
    and "hw_sent w = None"
  shows "status_of w' = (if sr_ready sv then 200 else 503)"
proof -
  have p: "clean_path ''/readyz'' = ''/readyz''" by code_simp
  have m: "match_path ''/metrics'' ''/readyz'' = None" "match_path ''/healthz'' ''/readyz'' = None"
    "match_path ''/readyz'' ''/readyz'' = Some []" by code_simp+
  have f: "find_route (get_route ''/metrics'' prom # health_routes) ''GET'' ''/readyz'' =
      Some (\<lparr>rt_method = ''GET'', rt_pattern = ''/readyz'', rt_handler = ready_handler\<rparr>, [])"
    by (simp add: find_route_def health_routes_def get_route_def allows_def m)
  let ?w = "security_headers (sr_config sv) w"
  have n: "hw_sent ?w = None" using assms(5) by (simp add: security_headers_def Let_def)
  have s: "fst (mux_serve (get_route ''/metrics'' prom # health_routes) req (sv, ?w)) =
      ready_handler (with_values [] req) (sv, ?w)"
    using mux_found [of req _ _ "[]"] assms(2,3) p f by (metis fst_conv route.select_convs(3))
  have q: "rq_query (with_values [] req) ''strict'' \<noteq> ''true''" using assms(4) by (simp add: with_values_def)
  obtain w1 where r: "ready_handler (with_values [] req) (sv, ?w) = ((sv, w1), Returned)"
    "status_of w1 = (if sr_ready sv then 200 else 503)"
    using n q by (simp add: ready_handler_def plain_status_def status_of_def response_of_def split: option.split)
  have "w' = w1"
    using assms(1) s r(1)
    by (auto simp: inner_chain_def recovery_middleware_def security_headers_middleware_def metrics_middleware_def
        split: prod.splits if_splits)
  then show ?thesis using r(2) by simp
qed

text \<open>A valid configuration with private health has an ops listener, and that tells the readiness.\<close>

lemma private_ops_ready:
  fixes sv :: "('ip, 't) server"
  assumes "validate clib cfg = []" and "sv_private_health (cg_server cfg)"
  shows "\<exists>ops. ops_routes cfg prom = Some ops \<and>
    (rq_method req = ''GET'' \<and> rq_path req = ''/readyz'' \<and> rq_query req ''strict'' \<noteq> ''true'' \<longrightarrow>
       status_of (snd (fst (ops_handler nlib (Some b) ops req (sv, new_writer)))) = (if sr_ready sv then 200 else 503))"
proof -
  let ?ops = "get_route ''/metrics'' prom # health_routes :: ('ip, 't) server route list"
  have "effective_ops_port (cg_server cfg) \<noteq> 0 \<and> \<not> outside 1 65535 (effective_ops_port (cg_server cfg))"
    using assms by (simp add: validate_def validate_server_ports_def check_def Let_def split: if_splits)
  then have o: "ops_routes cfg prom = Some ?ops" by (simp add: ops_routes_def outside_def)
  obtain sv1 w1 x1 where c: "inner_chain ?ops (req\<lparr>rq_id := request_id req b\<rparr>)
      (sv, set_header ''X-Request-Id'' (request_id req b) new_writer) = ((sv1, w1), x1)"
    by (metis prod.collapse)
  have "status_of (snd (fst (ops_handler nlib (Some b) ?ops req (sv, new_writer)))) = (if sr_ready sv then 200 else 503)"
    if "rq_method req = ''GET''" "rq_path req = ''/readyz''" "rq_query req ''strict'' \<noteq> ''true''"
    using ops_ready [OF c] that middleware_chain(2) [OF c, of nlib] by (simp add: ops_handler_def new_writer_def)
  then show ?thesis using o by blast
qed

text \<open>
  C7. The front of the server: every request is answered, whatever a handler does, also when
  it panics; every answer that the chain gives carries the security headers with their exact
  values and a request ID that is safe to log, the client's own if it is; only the answer to
  \<open>/\<close> of a site whose home page is a static file may be without the Content-Security-Policy;
  the access log has its status and ID and never what was searched for. With private health, on the public listener every spelling of
  a health path gets the same plain 404 and leaves no trace, and no answer and no state
  depends on the readiness of the server, whereas a valid configuration has an ops listener
  where \<open>/readyz\<close> tells it.
\<close>

theorem public_front:
  fixes rts :: "('ip, 't) server route list"
  assumes "register_routes cfg prom opts = Ok rts"
    and "\<forall>h \<in> insert prom (option_handlers (opts\<lparr>ro_home := None\<rparr>)). secure_handler h"
    and "\<forall>h \<in> set_option (ro_home opts). front_handler h (\<lambda>req. static_home)"
    and "sr_config sv = cfg" and "length b = 16" and "validate clib cfg = []"
  shows "let serve = (\<lambda>sv. public_handler nlib (Some b) cfg rts req (sv, new_writer));
      private = sv_private_health (cg_server cfg); i = request_id req b;
      guarded = (private \<and> clean (rq_path req) \<in> set health_paths);
      keep = (\<not> (rq_path req = ''/'' \<and> static_home (sr_deps sv))) in
    (case serve sv of ((sv', w'), x) \<Rightarrow>
      x = Returned \<and>
      (guarded \<longrightarrow> sv' = sv \<and> response_of w' =
         (404, [''Content-Type'' \<mapsto> text_plain, ''X-Content-Type-Options'' \<mapsto> ''nosniff'', ''Cache-Control'' \<mapsto> ''no-store''],
          ''not found'' @ [CHR 0x0A])) \<and>
      (\<not> guarded \<longrightarrow> secure_header cfg i keep (fst (snd (response_of w'))) \<and> is_valid_request_id i \<and>
         (\<exists>before line. sr_log sv' = before @ [line] \<and> lg_status line = status_of w' \<and> lg_id line = i \<and>
            (rq_path req = ''/search'' \<longrightarrow> lg_path line = ''/search''))) \<and>
      (private \<longrightarrow> (\<forall>r cc. serve (with_ready r cc sv) = ((with_ready r cc sv', w'), Returned)))) \<and>
    (private \<longrightarrow> (\<exists>ops. ops_routes cfg prom = Some ops \<and>
       (rq_method req = ''GET'' \<and> rq_path req = ''/readyz'' \<and> rq_query req ''strict'' \<noteq> ''true'' \<longrightarrow>
          status_of (snd (fst (ops_handler nlib (Some b) ops req (sv, new_writer)))) = (if sr_ready sv then 200 else 503))))"
proof -
  let ?i = "request_id req b" let ?req = "req\<lparr>rq_id := request_id req b\<rparr>"
  let ?private = "sv_private_health (cg_server cfg)"
  let ?serve = "\<lambda>sv. public_handler nlib (Some b) cfg rts req (sv, new_writer)"
  let ?guarded = "?private \<and> clean (rq_path req) \<in> set health_paths"
  let ?keep = "\<not> (rq_path req = ''/'' \<and> static_home (sr_deps sv))"
  note sec = registered_secure [OF assms(1-3)]
  obtain sv' w' x where se: "?serve sv = ((sv', w'), x)" by (metis prod.collapse)
  have A: "x = Returned \<and> sv' = sv \<and> response_of w' =
      (404, [''Content-Type'' \<mapsto> text_plain, ''X-Content-Type-Options'' \<mapsto> ''nosniff'', ''Cache-Control'' \<mapsto> ''no-store''],
       ''not found'' @ [CHR 0x0A])" if g: ?guarded
    using se g by (auto simp: public_handler_def public_health_guard_def response_of_def new_writer_def)
  have B: "x = Returned \<and> secure_header cfg ?i ?keep (fst (snd (response_of w'))) \<and>
      (\<exists>before line. sr_log sv' = before @ [line] \<and> lg_status line = status_of w' \<and> lg_id line = ?i \<and>
         (rq_path req = ''/search'' \<longrightarrow> lg_path line = ''/search''))" if g: "\<not> ?guarded"
  proof -
    obtain sv1 w1 x1 where c: "inner_chain rts ?req (sv, set_header ''X-Request-Id'' ?i new_writer) = ((sv1, w1), x1)"
      by (metis prod.collapse)
    have "?serve sv = middleware nlib (Some b) (mux_serve rts) req (sv, new_writer)"
      using g by (auto simp: public_handler_def public_health_guard_def)
    then have e: "w' = w1" "x = Returned"
      "\<exists>line. sr_log sv' = sr_log sv1 @ [line] \<and> lg_status line = status_of w1 \<and> lg_id line = ?i \<and>
         (rq_path req = ''/search'' \<longrightarrow> lg_path line = ''/search'')"
      using se middleware_chain(2) [OF c, of nlib] by auto
    have "secured cfg ?i ?keep w1" using inner_chain_secured [OF sec c] assms(4) by simp
    then have "secure_header cfg ?i ?keep (fst (snd (response_of w1)))"
      by (auto simp: secured_def response_of_def split: option.split)
    then show ?thesis using e by blast
  qed
  have C: "?serve (with_ready r cc sv) = ((with_ready r cc sv', w'), Returned)" if p: ?private for r cc
  proof (cases ?guarded)
    case True
    then show ?thesis using A [OF True] se by (auto simp: public_handler_def public_health_guard_def)
  next
    case False
    have "\<forall>rt \<in> set rts. blind r cc (rt_handler rt)"
      using registered_routes [OF assms(1)] p blind_lift by metis
    from blind_middleware [OF this] have "?serve (with_ready r cc sv) = ((with_ready r cc sv', w'), x)"
      using False se by (auto simp: public_handler_def public_health_guard_def blind_def)
    then show ?thesis using B [OF False] by simp
  qed
  show ?thesis
    unfolding Let_def se prod.case using A B C private_ops_ready [OF assms(6)] request_id_valid [OF assms(5)] by blast
qed

definition not_there :: "string deps handler" where
  "not_there req s = ((fst s, http_error ''404 page not found'' 404 (snd s)), Returned)"

interpretation sh_not_there: secure_handler not_there
  by unfold_locales (simp add: not_there_def secured_http_error)

definition private_config :: config where
  "private_config = default_config\<lparr>cg_server := (cg_server default_config)\<lparr>sv_private_health := True, sv_ops_port := 9090\<rparr>\<rparr>"

lemma private_valid:
  "validate (demo_cfg_lib\<lparr>cl_url := (\<lambda>u. Some (''http'', ''localhost:8080''))\<rparr>) private_config = []"
proof -
  let ?lib = "demo_cfg_lib\<lparr>cl_url := (\<lambda>u. Some (''http'', ''localhost:8080''))\<rparr> :: string cfg_lib"
  have "validate ?lib default_config = []" by (rule default_valid) simp
  then show ?thesis
    by (simp add: validate_def private_config_def default_config_def validate_server_ports_def validate_proxies_def
        check_def Let_def outside_def effective_ops_port_def)
qed

definition bare_options :: "string route_options" where
  "bare_options = \<lparr>ro_home = Some not_there, ro_list = Some not_there, ro_posts = Some not_there, ro_post = Some not_there,
     ro_page = Some not_there, ro_tag = Some not_there, ro_feed = Some not_there, ro_sitemap = Some not_there,
     ro_search = Some not_there, ro_webhook = None, ro_static = None\<rparr>"

definition private_site :: "(string, string) server" where
  "private_site = \<lparr>sr_config = private_config, sr_ready = False, sr_checker = None, sr_nets = [],
     sr_deps = demo_deps, sr_log = [], sr_counts = []\<rparr>"

theorem public_front_witness:
  "\<exists>(rts :: (string, string) server route list) (ops :: (string, string) server route list) i w.
     register_routes private_config not_there bare_options = Ok rts \<and>
     w = snd (fst (public_handler demo_net (Some ''0123456789abcdef'') private_config rts Handlers.demo_request (private_site, new_writer))) \<and>
     is_valid_request_id i \<and> secure_header private_config i True (fst (snd (response_of w))) \<and>
     ops_routes private_config not_there = Some ops"
proof -
  obtain rts :: "(string, string) server route list" where r: "register_routes private_config not_there bare_options = Ok rts"
    by (simp add: register_routes_def bare_options_def private_config_def default_config_def)
  have o: "\<forall>h \<in> insert not_there (option_handlers (bare_options\<lparr>ro_home := None\<rparr>)). secure_handler h"
    "\<forall>h \<in> set_option (ro_home bare_options). front_handler h (\<lambda>req. static_home)"
    using sh_not_there.secure_handler_axioms front_handler.weaken [OF sh_not_there.front_handler_axioms]
    by (simp_all add: option_handlers_def bare_options_def)
  have c: "sr_config private_site = private_config" "length ''0123456789abcdef'' = 16" by (simp_all add: private_site_def)
  have p: "sv_private_health (cg_server private_config)" by (simp add: private_config_def)
  have n: "clean (rq_path Handlers.demo_request) \<notin> set health_paths"
    by (simp add: Handlers.demo_request_def health_paths_def) code_simp
  note f = public_front [OF r o c private_valid, of demo_net Handlers.demo_request, unfolded Let_def]
  obtain sv' w' x where s: "public_handler demo_net (Some ''0123456789abcdef'') private_config rts Handlers.demo_request
      (private_site, new_writer) = ((sv', w'), x)" by (metis prod.collapse)
  note g = f [unfolded s prod.case]
  have n': "\<not> (sv_private_health (cg_server private_config) \<and> clean (rq_path Handlers.demo_request) \<in> set health_paths)"
    using n by blast
  let ?i = "request_id Handlers.demo_request ''0123456789abcdef''"
  note h0 = g [THEN conjunct1, THEN conjunct2, THEN conjunct2, THEN conjunct1, THEN mp, OF n']
  have k: "(\<not> (rq_path Handlers.demo_request = ''/'' \<and> static_home (sr_deps private_site))) = True"
    by (simp add: static_home_def private_site_def demo_deps_def new_deps_def default_config_def)
  note h = h0 [THEN conjunct1, unfolded k] h0 [THEN conjunct2, THEN conjunct1]
  obtain ops :: "(string, string) server route list" where "ops_routes private_config not_there = Some ops"
    using g [THEN conjunct2, THEN mp, OF p] by (elim exE conjE) simp
  moreover have "w' = snd (fst (public_handler demo_net (Some ''0123456789abcdef'') private_config rts Handlers.demo_request
      (private_site, new_writer)))" by (simp only: s fst_conv snd_conv)
  ultimately show ?thesis using r h by (intro exI conjI) simp_all
qed

end
