(* ===== verification/Links.thy ===== *)
theory Links
  imports Server Scanner
begin

text \<open>
  The site's routes as \<open>cmd/blogflow/main.go\<close> wires them, and what the links of the site lead to:
  the address of each scanned post and page, followed through the public listener of
  \<open>internal/server/server.go\<close>.
\<close>

subsection \<open>Wiring\<close>


definition site_options ::
  "('t, 'f page_data) tmpl_lib \<Rightarrow> feed_lib \<Rightarrow> text_lib \<Rightarrow> ('f :: linorder) float_ops \<Rightarrow> int \<Rightarrow> config \<Rightarrow>
   't deps handler option \<Rightarrow> 't deps handler option \<Rightarrow> 't route_options" where
  "site_options tlib flib tx ops now cfg webhook static =
     \<lparr>ro_home = Some (home_handler tlib), ro_list = Some (list_handler tlib), ro_posts = Some (posts_list_handler tlib),
      ro_post = Some (post_handler tlib), ro_page = Some (page_handler tlib), ro_tag = Some (tag_handler tlib),
      ro_feed = Some (feed_handler flib now), ro_sitemap = Some (sitemap_handler flib),
      ro_search = (if se_enabled (cg_search cfg) then Some (search_handler tx ops tlib) else None),
      ro_webhook = webhook, ro_static = static\<rparr>"

lemma patterns:
  "parse_pattern ''/{$}'' = [End]" "parse_pattern ''/posts'' = [Lit ''posts'']"
  "parse_pattern ''/page/{page}'' = [Lit ''page'', Wild ''page'']"
  "parse_pattern ''/posts/{slug}'' = [Lit ''posts'', Wild ''slug'']"
  "parse_pattern ''/pages/{slug}'' = [Lit ''pages'', Wild ''slug'']"
  "parse_pattern ''/tags/{tag}'' = [Lit ''tags'', Wild ''tag'']"
  "parse_pattern ''/feed.xml'' = [Lit ''feed.xml'']" "parse_pattern ''/sitemap.xml'' = [Lit ''sitemap.xml'']"
  "parse_pattern ''/search'' = [Lit ''search'']" "parse_pattern ''/healthz'' = [Lit ''healthz'']"
  "parse_pattern ''/readyz'' = [Lit ''readyz'']" "parse_pattern ''/readyz/content'' = [Lit ''readyz'', Lit ''content'']"
  "parse_pattern ''/metrics'' = [Lit ''metrics'']" "parse_pattern ''/static/'' = [Lit ''static'', Rest]"
  by code_simp+

definition segment :: "string \<Rightarrow> bool" where
  "segment e \<longleftrightarrow> e \<noteq> '''' \<and> e \<noteq> ''.'' \<and> e \<noteq> ''..'' \<and> sl \<notin> set e"

lemma segment_last: "segment a \<Longrightarrow> a \<noteq> [] \<and> last a \<noteq> sl"
  by (metis last_in_set segment_def)

lemma contains_char: "contains s [c] \<longleftrightarrow> c \<in> set s"
  by (induction s) (auto simp: contains_def)

lemma slug_segment: "plain_segment s \<Longrightarrow> s \<noteq> '''' \<Longrightarrow> s \<noteq> ''.'' \<Longrightarrow> segment s"
  by (auto simp: segment_def plain_segment_def contains_char) (simp add: contains_def)

lemma elems_segment: "segment e \<Longrightarrow> elems e = [e]" "segment e \<Longrightarrow> elems (e @ sl # s) = e # elems s"
  by (simp_all add: elems_def segment_def split_on_single split_on_append)

lemma clean_path_one: "segment a \<Longrightarrow> clean_path (sl # a) = sl # a"
proof -
  assume a: "segment a"
  have "elems (sl # a) = '''' # elems a" by (simp add: elems_def)
  then have "clean (sl # a) = sl # a"
    using a by (simp add: clean_def is_abs_def elems_segment) (simp add: segment_def)
  moreover have "last a \<noteq> sl" "a \<noteq> []" using segment_last [OF a] by auto
  ultimately show ?thesis by (simp add: clean_path_def)
qed

lemma clean_path_two:
  assumes "segment a" and "segment b"
  shows "clean_path (sl # a @ sl # b) = sl # a @ sl # b"
proof -
  have "elems (sl # a @ sl # b) = ['''', a, b]"
    using assms elems_segment(2) [OF assms(1), of b] by (simp add: elems_def split_on_single segment_def)
  then have "clean (sl # a @ sl # b) = sl # a @ sl # b"
    using assms by (simp add: clean_def is_abs_def) (simp add: segment_def)
  moreover have "last b \<noteq> sl" "b \<noteq> []" using segment_last [OF assms(2)] by auto
  ultimately show ?thesis by (simp add: clean_path_def)
qed

lemma site_routes:
  assumes "register_routes cfg prom (site_options tlib flib tx ops now cfg webhook static) = Ok rts"
  shows "rts = route_table cfg prom (site_options tlib flib tx ops now cfg webhook static)
    [(''/{$}'', home_handler tlib), (''/posts'', posts_list_handler tlib), (''/page/{page}'', list_handler tlib),
     (''/posts/{slug}'', post_handler tlib), (''/pages/{slug}'', page_handler tlib), (''/tags/{tag}'', tag_handler tlib)]
    (sitemap_handler flib)"
  by (rule register_routes_ok [OF assms]) (simp add: site_options_def)

lemma route_post:
  assumes "register_routes cfg prom (site_options tlib flib tx ops now cfg webhook static) = Ok rts" and "slug \<noteq> ''''"
  shows "elems (drop 1 p) = [''posts'', slug] \<Longrightarrow>
      find_route rts ''GET'' p = Some (get_route ''/posts/{slug}'' (post_handler tlib), [(''slug'', slug)])"
    and "elems (drop 1 p) = [''pages'', slug] \<Longrightarrow>
      find_route rts ''GET'' p = Some (get_route ''/pages/{slug}'' (page_handler tlib), [(''slug'', slug)])"
proof -
  obtain rest where r: "rts = content_routes
    [(''/{$}'', home_handler tlib), (''/posts'', posts_list_handler tlib), (''/page/{page}'', list_handler tlib),
     (''/posts/{slug}'', post_handler tlib), (''/pages/{slug}'', page_handler tlib), (''/tags/{tag}'', tag_handler tlib)] @ rest"
    using site_routes [OF assms(1)] unfolding route_table_def by blast
  show "elems (drop 1 p) = [''posts'', slug] \<Longrightarrow>
      find_route rts ''GET'' p = Some (get_route ''/posts/{slug}'' (post_handler tlib), [(''slug'', slug)])"
    "elems (drop 1 p) = [''pages'', slug] \<Longrightarrow>
      find_route rts ''GET'' p = Some (get_route ''/pages/{slug}'' (page_handler tlib), [(''slug'', slug)])"
    using assms(2)
    by (simp_all add: r find_route_def content_routes_def get_route_def allows_def match_path_def patterns)
qed

definition content_patterns :: "string list" where
  "content_patterns = [''/{$}'', ''/posts'', ''/page/{page}'', ''/posts/{slug}'', ''/pages/{slug}'', ''/tags/{tag}'']"

definition fixed_patterns :: "string list" where
  "fixed_patterns = [''/feed.xml'', ''/sitemap.xml'', ''/search'', ''/healthz'', ''/readyz'', ''/readyz/content'', ''/metrics'',
     ''/static/'']"

lemma route_table_patterns:
  assumes "rt \<in> set (route_table cfg prom opts pages sitemap)"
  shows "rt_pattern rt \<in> set (map fst pages @ fixed_patterns) \<or> sy_strategy (cg_sync cfg) = ''webhook''"
proof -
  consider "rt \<in> set (content_routes pages)" | "rt_pattern rt = ''/feed.xml''" | "rt_pattern rt = ''/sitemap.xml''"
    | "rt_pattern rt = ''/search''" | "rt \<in> set health_routes" | "rt_pattern rt = ''/metrics''"
    | "rt_pattern rt = ''/static/''" | "sy_strategy (cg_sync cfg) = ''webhook''"
    using assms unfolding route_table_def set_append Un_iff in_set_if in_set_option list.set get_route_def by fastforce
  then show ?thesis
  proof cases
    case 1
    then show ?thesis by (force simp: content_routes_def get_route_def)
  next
    case 5
    then show ?thesis by (auto simp: health_routes_def fixed_patterns_def)
  qed (simp_all add: fixed_patterns_def)
qed

lemma unmatched:
  assumes "elems (drop 1 p) = [slug] \<or> elems (drop 1 p) = [slug, '''']" and "slug \<noteq> ''''"
    and "''posts'' \<noteq> slug" "''feed.xml'' \<noteq> slug" "''sitemap.xml'' \<noteq> slug" "''search'' \<noteq> slug" "''healthz'' \<noteq> slug"
    "''readyz'' \<noteq> slug" "''metrics'' \<noteq> slug" "''static'' \<noteq> slug"
  shows "list_all (\<lambda>pat. match_path pat p = None) (content_patterns @ fixed_patterns)"
  using assms(1)
proof
  assume e: "elems (drop 1 p) = [slug]"
  show ?thesis
    unfolding content_patterns_def fixed_patterns_def append.simps list.pred_inject match_path_def patterns e
    using assms(2-) by simp
next
  assume e: "elems (drop 1 p) = [slug, '''']"
  show ?thesis
    unfolding content_patterns_def fixed_patterns_def append.simps list.pred_inject match_path_def patterns e
    using assms(2-) by simp
qed

lemma no_route:
  assumes r: "register_routes cfg prom (site_options tlib flib tx ops now cfg webhook static) = Ok rts"
    and "sy_strategy (cg_sync cfg) \<noteq> ''webhook''" and "slug \<noteq> ''''"
    and "''posts'' \<noteq> slug" "''feed.xml'' \<noteq> slug" "''sitemap.xml'' \<noteq> slug" "''search'' \<noteq> slug" "''healthz'' \<noteq> slug"
    "''readyz'' \<noteq> slug" "''metrics'' \<noteq> slug" "''static'' \<noteq> slug"
    and p: "elems (drop 1 p) = [slug] \<or> elems (drop 1 p) = [slug, '''']" and "rt \<in> set rts"
  shows "match_path (rt_pattern rt) p = None"
proof -
  note t = route_table_patterns [OF assms(13) [unfolded site_routes [OF r]]]
  have "rt_pattern rt \<in> set (content_patterns @ fixed_patterns)"
    using t assms(2) unfolding content_patterns_def list.map fst_conv by argo
  then show ?thesis using unmatched [OF p assms(3-11)] by (simp only: list_all_iff)
qed

subsection \<open>Following a link\<close>

lemma inner_found:
  assumes "clean_path (rq_path req) = rq_path req"
    and "find_route rts (rq_method req) (rq_path req) = Some (get_route pat h, vs)"
    and "h (with_values vs req) (sr_deps sv, security_headers (sr_config sv) w) = ((d, w'), Returned)"
  shows "snd (fst (inner_chain rts req (sv, w))) = w'"
proof -
  have "fst (mux_serve rts req (sv, security_headers (sr_config sv) w)) = ((sv\<lparr>sr_deps := d\<rparr>, w'), Returned)"
    using mux_found [OF assms(1,2)] assms(3) by (simp add: get_route_def lift_handler_def)
  then show ?thesis
    by (auto simp: inner_chain_def recovery_middleware_def security_headers_middleware_def metrics_middleware_def
        split: prod.split)
qed

lemma inner_not_found:
  assumes "clean_path (rq_path req) = rq_path req"
    and "\<forall>rt \<in> set rts. match_path (rt_pattern rt) (rq_path req) = None \<and>
      match_path (rt_pattern rt) (rq_path req @ ''/'') = None"
  shows "snd (fst (inner_chain rts req (sv, w))) =
    http_error ''404 page not found'' 404 (security_headers (sr_config sv) w)"
proof -
  have "find_route rts m (rq_path req) = None" "find_route rts m (rq_path req @ ''/'') = None" for m
    using assms(2) by (simp_all add: find_route_def)
  moreover have "allowed_methods rts (rq_path req) = []" using assms(2) by (simp add: allowed_methods_def)
  ultimately have "mux_serve rts req (sv, security_headers (sr_config sv) w) =
      (((sv, http_error ''404 page not found'' 404 (security_headers (sr_config sv) w)), Returned), '''')"
    using assms(1) by (simp add: mux_serve_def Let_def slash_redirect_def)
  then show ?thesis
    by (simp add: inner_chain_def recovery_middleware_def security_headers_middleware_def metrics_middleware_def)
qed

text \<open>The status and the body of a GET on the public listener.\<close>

definition fetch ::
  "'ip net_lib \<Rightarrow> string \<Rightarrow> config \<Rightarrow> ('ip, 't) server route list \<Rightarrow> ('ip, 't) server \<Rightarrow> request \<Rightarrow> string \<Rightarrow> nat \<times> string" where
  "fetch nlib b cfg rts sv req path =
     (let w = snd (fst (public_handler nlib (Some b) cfg rts (req\<lparr>rq_method := ''GET'', rq_path := path\<rparr>) (sv, new_writer)))
      in (status_of w, hw_body w))"

lemma fetch_inner:
  assumes "clean path \<notin> set health_paths"
  shows "\<exists>i. fetch nlib b cfg rts sv req path =
    (let w = snd (fst (inner_chain rts (req\<lparr>rq_method := ''GET'', rq_path := path, rq_id := i\<rparr>)
        (sv, set_header ''X-Request-Id'' i new_writer))) in (status_of w, hw_body w))"
proof -
  let ?req = "req\<lparr>rq_method := ''GET'', rq_path := path\<rparr>" let ?i = "request_id ?req b"
  obtain sv' w' x where c: "inner_chain rts (?req\<lparr>rq_id := ?i\<rparr>) (sv, set_header ''X-Request-Id'' ?i new_writer) = ((sv', w'), x)"
    by (metis prod.collapse)
  have "snd (fst (middleware nlib (Some b) (mux_serve rts) ?req (sv, new_writer))) = w'"
    using middleware_chain(2) [OF c] by simp
  then have "fetch nlib b cfg rts sv req path = (status_of w', hw_body w')"
    using assms by (simp add: fetch_def public_handler_def public_health_guard_def Let_def)
  then show ?thesis using c by (intro exI [of _ ?i]) simp
qed

lemma security_headers_fresh [simp]:
  "hw_sent (security_headers cfg w) = hw_sent w" "hw_body (security_headers cfg w) = hw_body w"
  by (simp_all add: security_headers_def set_header_def Let_def)

lemma post_handler_answer:
  assumes "load_index d = Some idx" and "ix_by_slug idx (rq_value req ''slug'') = Some p"
    and "render_page lib (dp_theme d) (rq_cancelled req) ''templates/post.html''
      (shown d ((page_data_of (dp_config d) (fm_title (po_fm p)))\<lparr>pd_post := Some p\<rparr>)) = Ok out"
  shows "\<exists>d'. post_handler lib req (d, w) = ((d', write_html 200 out w), Returned)"
  using assms by (simp add: post_handler_def record_view_def render_template_def shown_def page_data_of_def Let_def)

lemma page_handler_answer:
  assumes "load_index d = Some idx" and "ix_page_by_slug idx (rq_value req ''slug'') = Some p"
    and "render_page lib (dp_theme d) (rq_cancelled req) ''templates/page.html''
      (shown d ((page_data_of (dp_config d) (fm_title (po_fm p)))\<lparr>pd_page := Some p\<rparr>)) = Ok out"
  shows "\<exists>d'. page_handler lib req (d, w) = ((d', write_html 200 out w), Returned)"
  using assms by (simp add: page_handler_def record_view_def render_template_def shown_def page_data_of_def Let_def)

lemma html_answer: "hw_sent w = None \<Longrightarrow> status_of (write_html code out w) = code \<and> hw_body (write_html code out w) = hw_body w @ out"
  by (simp add: write_html_def status_of_def response_of_def write_body_def write_header_def set_header_def Let_def)

lemma slug_paths:
  assumes "segment slug" and "segment dir"
  shows "clean_path (sl # dir @ sl # slug) = sl # dir @ sl # slug"
    and "elems (drop 1 (sl # dir @ sl # slug)) = [dir, slug]"
    and "clean (sl # dir @ sl # slug) = sl # dir @ sl # slug"
proof -
  show "clean_path (sl # dir @ sl # slug) = sl # dir @ sl # slug" by (rule clean_path_two [OF assms(2,1)])
  then show "clean (sl # dir @ sl # slug) = sl # dir @ sl # slug"
    using segment_last [OF assms(1)] by (simp add: clean_path_def Let_def split: if_splits)
  show "elems (drop 1 (sl # dir @ sl # slug)) = [dir, slug]"
    using elems_segment(2) [OF assms(2), of slug] elems_segment(1) [OF assms(1)] by simp
qed

lemma fetch_found:
  assumes path: "clean_path path = path" "clean path \<notin> set health_paths"
    and route: "find_route rts ''GET'' path = Some (get_route pat h, vs)"
    and answer: "\<And>req' w. rq_cancelled req' = rq_cancelled req \<Longrightarrow> rq_value req' = (\<lambda>k. case map_of vs k of None \<Rightarrow> '''' | Some v \<Rightarrow> v) \<Longrightarrow>
      \<exists>d'. h req' (sr_deps sv, w) = ((d', write_html 200 out w), Returned)"
  shows "fetch nlib b cfg rts sv req path = (200, out)"
proof -
  obtain i where f: "fetch nlib b cfg rts sv req path =
    (let w = snd (fst (inner_chain rts (req\<lparr>rq_method := ''GET'', rq_path := path, rq_id := i\<rparr>)
        (sv, set_header ''X-Request-Id'' i new_writer))) in (status_of w, hw_body w))"
    using fetch_inner [OF path(2)] by blast
  let ?req = "req\<lparr>rq_method := ''GET'', rq_path := path, rq_id := i\<rparr>"
  let ?w = "security_headers (sr_config sv) (set_header ''X-Request-Id'' i new_writer)"
  obtain d' where "h (with_values vs ?req) (sr_deps sv, ?w) = ((d', write_html 200 out ?w), Returned)"
    using answer [of "with_values vs ?req" ?w] by (auto simp: with_values_def)
  then have "snd (fst (inner_chain rts ?req (sv, set_header ''X-Request-Id'' i new_writer))) = write_html 200 out ?w"
    using path(1) route by (intro inner_found [where h = h and pat = pat and vs = vs and d = d']) simp_all
  then show ?thesis using html_answer [of ?w 200 out] by (simp add: f Let_def set_header_def new_writer_def)
qed

lemma slug_not_health: "segment slug \<Longrightarrow> sl # ''posts'' @ sl # slug \<notin> set health_paths \<and> sl # ''pages'' @ sl # slug \<notin> set health_paths"
  by (simp add: health_paths_def)

lemma scanned_segment:
  assumes "scan_content lib sn fs best = Ok idx" and "p \<in> set (ix_posts idx) \<or> p \<in> set (ix_pages idx)"
    and "po_slug p \<notin> {'''', ''.''}"
  shows "segment (po_slug p)"
  using scan_consistent [OF assms(1)] assms(2,3) by (auto simp: good_post_def intro: slug_segment)

lemma scanned_found:
  assumes "scan_content lib sn fs best = Ok idx"
  shows "ix_by_slug idx s = Some q \<longleftrightarrow> q \<in> set (ix_posts idx) \<and> po_slug q = s"
    and "ix_page_by_slug idx s = Some q \<longleftrightarrow> q \<in> set (ix_pages idx) \<and> po_slug q = s"
  using scan_consistent [OF assms] by (elim conjE, simp)+

lemma two_dirs: "segment ''posts''" "segment ''pages''"
  by code_simp+

lemma post_answered:
  fixes rts :: "('ip, 't) server route list"
  assumes scan: "scan_content lib sn fs best = Ok idx"
    and reg: "register_routes cfg prom (site_options tlib flib tx ops now cfg webhook static) = Ok rts"
    and idx: "load_index (sr_deps sv) = Some idx" and slug: "po_slug p \<notin> {'''', ''.''}" and p: "p \<in> set (ix_posts idx)"
    and o: "render_page tlib (dp_theme (sr_deps sv)) (rq_cancelled req) ''templates/post.html''
      (shown (sr_deps sv) ((page_data_of (dp_config (sr_deps sv)) (fm_title (po_fm p)))\<lparr>pd_post := Some p\<rparr>)) = Ok out"
  shows "fetch nlib b cfg rts sv req (sl # ''posts'' @ sl # po_slug p) = (200, out)"
proof -
  have ne: "po_slug p \<noteq> ''''" using slug by simp
  have s: "segment (po_slug p)" using scanned_segment [OF scan _ slug] p by blast
  note paths = slug_paths [OF s two_dirs(1)]
  have i: "ix_by_slug idx (po_slug p) = Some p" using scanned_found(1) [OF scan] p by simp
  show ?thesis
  proof (rule fetch_found [OF paths(1) _ route_post(1) [OF reg ne paths(2)]])
    show "clean (sl # ''posts'' @ sl # po_slug p) \<notin> set health_paths" using slug_not_health [OF s] unfolding paths(3) by blast
    show "\<exists>d'. post_handler tlib req' (sr_deps sv, w) = ((d', write_html 200 out w), Returned)"
      if "rq_cancelled req' = rq_cancelled req"
        "rq_value req' = (\<lambda>k. case map_of [(''slug'', po_slug p)] k of None \<Rightarrow> '''' | Some v \<Rightarrow> v)" for req' w
      by (rule post_handler_answer [OF idx]) (simp add: that i, simp only: that o)
  qed
qed

lemma page_answered:
  fixes rts :: "('ip, 't) server route list"
  assumes scan: "scan_content lib sn fs best = Ok idx"
    and reg: "register_routes cfg prom (site_options tlib flib tx ops now cfg webhook static) = Ok rts"
    and idx: "load_index (sr_deps sv) = Some idx" and slug: "po_slug p \<notin> {'''', ''.''}" and p: "p \<in> set (ix_pages idx)"
    and o: "render_page tlib (dp_theme (sr_deps sv)) (rq_cancelled req) ''templates/page.html''
      (shown (sr_deps sv) ((page_data_of (dp_config (sr_deps sv)) (fm_title (po_fm p)))\<lparr>pd_page := Some p\<rparr>)) = Ok out"
  shows "fetch nlib b cfg rts sv req (sl # ''pages'' @ sl # po_slug p) = (200, out)"
proof -
  have ne: "po_slug p \<noteq> ''''" using slug by simp
  have s: "segment (po_slug p)" using scanned_segment [OF scan _ slug] p by blast
  note paths = slug_paths [OF s two_dirs(2)]
  have i: "ix_page_by_slug idx (po_slug p) = Some p" using scanned_found(2) [OF scan] p by simp
  show ?thesis
  proof (rule fetch_found [OF paths(1) _ route_post(2) [OF reg ne paths(2)]])
    show "clean (sl # ''pages'' @ sl # po_slug p) \<notin> set health_paths" using slug_not_health [OF s] unfolding paths(3) by blast
    show "\<exists>d'. page_handler tlib req' (sr_deps sv, w) = ((d', write_html 200 out w), Returned)"
      if "rq_cancelled req' = rq_cancelled req"
        "rq_value req' = (\<lambda>k. case map_of [(''slug'', po_slug p)] k of None \<Rightarrow> '''' | Some v \<Rightarrow> v)" for req' w
      by (rule page_handler_answer [OF idx]) (simp add: that i, simp only: that o)
  qed
qed

text \<open>
  C10. The links of the site lead where they should: from the scan of the content to the
  answer on the wire. Whatever index the site scanned and serves, a GET of \<open>/posts/\<close> and the
  slug of one of its posts is answered with status 200 and exactly the post template rendered
  with that very post, and a GET of \<open>/pages/\<close> and the slug of one of its pages with the page
  template rendered with that page; the path is not redirected, no other route takes it, and
  no other entry has its slug. The two slugs left out are the ones that name no path of their own.
\<close>

theorem post_links_resolve:
  fixes rts :: "('ip, 't) server route list"
  assumes "scan_content lib sn fs best = Ok idx"
    and "register_routes cfg prom (site_options tlib flib tx ops now cfg webhook static) = Ok rts"
    and "load_index (sr_deps sv) = Some idx" and "po_slug p \<notin> {'''', ''.''}"
  shows "let d = sr_deps sv;
      rendered = (\<lambda>name pd. render_page tlib (dp_theme d) (rq_cancelled req) name (shown d pd));
      pd = page_data_of (dp_config d) (fm_title (po_fm p));
      get = fetch nlib b cfg rts sv req in
    (p \<in> set (ix_posts idx) \<and> rendered ''templates/post.html'' (pd\<lparr>pd_post := Some p\<rparr>) = Ok out \<longrightarrow>
       get (''/posts/'' @ po_slug p) = (200, out)) \<and>
    (p \<in> set (ix_pages idx) \<and> rendered ''templates/page.html'' (pd\<lparr>pd_page := Some p\<rparr>) = Ok out \<longrightarrow>
       get (''/pages/'' @ po_slug p) = (200, out))"
  using post_answered [OF assms] page_answered [OF assms] unfolding Let_def by simp

subsection \<open>A site with one post\<close>

definition one_post_fs :: content_fs where
  "one_post_fs = demo_content\<lparr>cf_walk := (\<lambda>d. if d = ''posts'' then [VisitFile ''posts/a.md''] else [VisitErr d (RawError ErrNotExist)]),
     cf_read := (\<lambda>p. Ok (''---'' @ [CHR 0x0A] @ ''x'' @ [CHR 0x0A] @ ''---'' @ [CHR 0x0A] @ ''hello''))\<rparr>"

definition one_post :: post where
  "one_post = \<lparr>po_fm = empty_fm\<lparr>fm_date := \<lparr>gt_instant = 7, gt_year = 2026\<rparr>, fm_slug := ''s'', fm_tags := [''go'']\<rparr>,
     po_slug = ''s'', po_content = ''hello'', po_summary = ''hello'', po_reading_time = 1, po_path = ''posts/a.md''\<rparr>"

definition one_index :: index where
  "one_index = finish_index demo_scan_lib (add_post False one_post empty_index)"

lemma one_post_scan:
  "scan_content demo_scan_lib (new_scanner '''' '''' 0) one_post_fs False = Ok one_index"
proof -
  let ?data = "''---'' @ [CHR 0x0A] @ ''x'' @ [CHR 0x0A] @ ''---'' @ [CHR 0x0A] @ ''hello''"
  have "parse_front_matter (sc_yaml demo_scan_lib) id (dashes @ nl # ''x'' @ nl # dashes @ nl # ''hello'') = Ok (Some (po_fm one_post), ''hello'')"
  proof (rule parse_delimited)
    show "find_closing_delimiter (''x'' @ [nl]) = None"
      unfolding find_closing_delimiter_def by (subst find_closing_from.simps) code_simp
    have "plain_segment ''s''" by code_simp
    then show "admissible id (po_fm one_post)" by (simp add: admissible_def one_post_def empty_fm_def)
  qed (simp_all add: max_front_matter_size_def demo_scan_lib_def one_post_def)
  then have 1: "parse_front_matter (sc_yaml demo_scan_lib) id ?data = Ok (Some (po_fm one_post), ''hello'')"
    by (simp add: dashes_def nl_def)
  have 2: "reading_time_minutes ''hello'' = 1" by code_simp
  have 3: "truncate_text (strip_html id ''hello'') 200 = ''hello''" by code_simp
  have 4: "has_suffix ''posts/a.md'' ''.md''" by code_simp
  have r: "cf_read one_post_fs ''posts/a.md'' = Ok ?data" by (simp add: one_post_fs_def)
  have lib: "sc_lower demo_scan_lib = id" "sc_unescape demo_scan_lib = id" "render demo_scan_lib ''hello'' = Some ''hello''"
    by (simp_all add: demo_scan_lib_def render_def max_render_size_def)
  have fm: "\<not> fm_draft (po_fm one_post)" "\<not> is_zero_time (fm_date (po_fm one_post))" "fm_slug (po_fm one_post) = ''s''"
    "fm_reading_time (po_fm one_post) = 0"
    by (simp_all add: one_post_def empty_fm_def is_zero_time_def)
  have b: "build_post demo_scan_lib (new_scanner '''' '''' 0) one_post_fs False ''posts/a.md'' = Built one_post"
    unfolding build_post_def r sum.case lib 1 option.case prod.case
    by (simp add: fm 2 3 lib new_scanner_def) (simp add: one_post_def)
  have w: "cf_walk one_post_fs ''posts'' = [VisitFile ''posts/a.md'']"
    "cf_walk one_post_fs ''pages'' = [VisitErr ''pages'' (RawError ErrNotExist)]"
    by (simp_all add: one_post_fs_def demo_content_def)
  have n: "new_scanner '''' '''' 0 = \<lparr>sn_posts_dir = ''posts'', sn_pages_dir = ''pages'', sn_summary_len = 200\<rparr>"
    by (simp add: new_scanner_def)
  note b = b [unfolded n]
  show ?thesis
    unfolding n scan_content_def scan_dir_def
    by (simp add: w b 4 scan_visit_def absorb_def is_not_exist_def one_index_def empty_index_def add_post_def)
qed

lemma one_post_listed: "one_post \<in> set (ix_posts one_index)"
  by (simp add: one_index_def add_post_def empty_index_def)

definition body_tmpl :: "(string, 'f page_data) tmpl_lib" where
  "body_tmpl = demo_tmpl\<lparr>tp_execute := (\<lambda>t name pd. map_option po_content (pd_post pd))\<rparr>"

definition one_site :: "(string, string) server" where
  "one_site = \<lparr>sr_config = default_config, sr_ready = False, sr_checker = None, sr_nets = [],
     sr_deps = new_deps default_config (Some one_index) demo_engine, sr_log = [], sr_counts = []\<rparr>"

definition one_options :: "string route_options" where
  "one_options = site_options (body_tmpl :: (string, nat page_data) tmpl_lib) demo_feed_lib demo_text demo_floats 0 default_config None None"

lemma one_routes:
  "\<exists>rts :: (string, string) server route list. register_routes default_config not_there one_options = Ok rts"
  by (simp add: register_routes_def one_options_def site_options_def default_config_def)

theorem post_links_resolve_witness:
  "\<exists>rts :: (string, string) server route list. register_routes default_config not_there one_options = Ok rts \<and>
     fetch demo_net ''0123456789abcdef'' default_config rts one_site demo_request ''/posts/s'' = (200, ''hello'')"
proof -
  obtain rts :: "(string, string) server route list" where r: "register_routes default_config not_there one_options = Ok rts"
    using one_routes by blast
  have i: "load_index (sr_deps one_site) = Some one_index" by (simp add: one_site_def new_deps_def load_index_def)
  have s: "po_slug one_post \<notin> {'''', ''.''}" by (simp add: one_post_def)
  have p: "render_page (body_tmpl :: (string, nat page_data) tmpl_lib) (dp_theme (sr_deps one_site)) (rq_cancelled demo_request)
      ''templates/post.html'' (shown (sr_deps one_site)
        ((page_data_of (dp_config (sr_deps one_site)) (fm_title (po_fm one_post)))\<lparr>pd_post := Some one_post\<rparr>)) = Ok ''hello''"
    by (simp add: render_page_def body_tmpl_def demo_tmpl_def one_site_def new_deps_def demo_engine_def demo_request_def
        shown_def one_post_def)
  have "fetch demo_net ''0123456789abcdef'' default_config rts one_site demo_request (''/posts/'' @ po_slug one_post) = (200, ''hello'')"
    using post_links_resolve [OF one_post_scan r [unfolded one_options_def] i s] one_post_listed p
    unfolding Let_def by blast
  moreover have "''/posts/'' @ po_slug one_post = ''/posts/s''" by (simp add: one_post_def)
  ultimately show ?thesis using r by metis
qed

subsection \<open>The sitemap's links to pages\<close>

text \<open>
  The sitemap names a page by its slug alone, a path that no route takes: the link of every
  page is answered with 404.
\<close>

theorem sitemap_page_link_missing:
  fixes rts :: "('ip, 't) server route list"
  assumes "register_routes cfg prom (site_options tlib flib tx ops now cfg webhook static) = Ok rts"
    and "sy_strategy (cg_sync cfg) \<noteq> ''webhook''" and "segment slug"
    and "''posts'' \<noteq> slug" "''feed.xml'' \<noteq> slug" "''sitemap.xml'' \<noteq> slug" "''search'' \<noteq> slug" "''healthz'' \<noteq> slug"
    "''readyz'' \<noteq> slug" "''metrics'' \<noteq> slug" "''static'' \<noteq> slug"
  shows "fst (fetch nlib b cfg rts sv req (sl # slug)) = 404"
proof -
  have ne: "slug \<noteq> ''''" using segment_last [OF assms(3)] by simp
  have c: "clean_path (sl # slug) = sl # slug" by (rule clean_path_one [OF assms(3)])
  then have k: "clean (sl # slug) = sl # slug"
    using segment_last [OF assms(3)] by (simp add: clean_path_def Let_def split: if_splits)
  have "sl \<in> set ''readyz/content''" by simp
  then have "slug \<noteq> ''readyz/content''" using assms(3) unfolding segment_def by metis
  then have h: "clean (sl # slug) \<notin> set health_paths"
    unfolding k health_paths_def list.set insert_iff using assms(8,9) by (simp add: eq_commute [of slug])
  have e: "elems (drop 1 (sl # slug)) = [slug]" "elems (drop 1 (sl # slug @ ''/'')) = [slug, '''']"
    using elems_segment(1) [OF assms(3)] elems_segment(2) [OF assms(3), of "''''"] by (simp_all add: elems_def)
  note none = no_route [OF assms(1,2) ne assms(4-11)]
  obtain i where f: "fetch nlib b cfg rts sv req (sl # slug) =
    (let w = snd (fst (inner_chain rts (req\<lparr>rq_method := ''GET'', rq_path := sl # slug, rq_id := i\<rparr>)
        (sv, set_header ''X-Request-Id'' i new_writer))) in (status_of w, hw_body w))"
    using fetch_inner [OF h] by blast
  have n: "\<forall>rt \<in> set rts. match_path (rt_pattern rt) (sl # slug) = None \<and> match_path (rt_pattern rt) (sl # slug @ ''/'') = None"
    using none e by blast
  let ?req = "req\<lparr>rq_method := ''GET'', rq_path := sl # slug, rq_id := i\<rparr>"
  have "clean_path (rq_path ?req) = rq_path ?req"
    "\<forall>rt \<in> set rts. match_path (rt_pattern rt) (rq_path ?req) = None \<and> match_path (rt_pattern rt) (rq_path ?req @ ''/'') = None"
    using c n by simp_all
  from inner_not_found [OF this]
  have "snd (fst (inner_chain rts ?req (sv, set_header ''X-Request-Id'' i new_writer))) =
      http_error ''404 page not found'' 404 (security_headers (sr_config sv) (set_header ''X-Request-Id'' i new_writer))" .
  then show ?thesis
    unfolding f Let_def fst_conv
    by (simp add: http_error_def status_of_def response_of_def write_body_def write_header_def
        set_header_def del_header_def new_writer_def Let_def)
qed

end
