(* ===== verification/Delivery.thy ===== *)
theory Delivery
  imports Links Webhook_Thms
begin

text \<open>
  A webhook delivery from the request to the page: \<open>main\<close> hands the content reloader of
  \<open>cmd/blogflow/reload.go\<close> to the webhook of \<open>internal/gitops/webhook.go\<close>, which calls it for an
  accepted delivery and answers with its verdict; what it publishes is what the routes of
  \<open>internal/server/server.go\<close> serve.
\<close>

subsection \<open>The webhook with its reloader\<close>

definition deliver ::
  "('ip, 'x) cfg_lib_scheme \<Rightarrow> (string \<Rightarrow> config \<Rightarrow> config option) \<Rightarrow> ('t, 'd) tmpl_lib \<Rightarrow> scan_lib \<Rightarrow> scanner \<Rightarrow> text_lib \<Rightarrow>
   ('ip, 'y) hook_lib_scheme \<Rightarrow> 'ip strategy \<Rightarrow> wh_request \<Rightarrow> int \<Rightarrow> reload_input \<Rightarrow> wh_state \<times> 't site \<Rightarrow>
   (wh_response \<times> wh_state \<times> 't site) option" where
  "deliver clib yaml tlib slib sn tx lib ws r now inp s =
     (case s of (h, site) \<Rightarrow>
       (case content_reloader clib yaml tlib slib sn tx inp site of (e, site') \<Rightarrow>
          map_option (\<lambda>(resp, h'). (resp, h', if wh_reloads h' = wh_reloads h then site else site'))
            (webhook_handle lib ws r now (e = None) h)))"

definition accepted_delivery :: "('ip, 'y) hook_lib_scheme \<Rightarrow> 'ip strategy \<Rightarrow> wh_request \<Rightarrow> int \<Rightarrow> wh_state \<Rightarrow> bool" where
  "accepted_delivery lib ws r now h \<longleftrightarrow>
     deliverable lib ws r \<and> map_option fst (budget (wh_verified h) (resolve_ip lib (ws_resolver ws) r) now) = Some True"

lemma deliver_cases:
  assumes "deliver clib yaml tlib slib sn tx lib ws r now inp (h, s) = Some (resp, h', s')"
    and "content_reloader clib yaml tlib slib sn tx inp s = (e, s1)"
  shows "if accepted_delivery lib ws r now h then s' = s1 \<and> wr_status resp = (if e = None then 200 else 500)
    else s' = s \<and> wr_status resp \<notin> {200, 500}"
proof -
  obtain resp' h1 where w: "webhook_handle lib ws r now (e = None) h = Some (resp', h1)"
    using assms by (auto simp: deliver_def)
  then have "resp = resp'" "h' = h1" "s' = (if wh_reloads h1 = wh_reloads h then s else s1)"
    using assms by (auto simp: deliver_def)
  then show ?thesis using handle_cases [OF w] by (auto simp: accepted_delivery_def split: if_splits)
qed

lemma published_index: "published tx gen idx d \<Longrightarrow> load_index d = Some idx"
  by (auto simp: published_def load_index_def)

lemma site_ok_index: "site_ok tx tlib enabled cfg gen idx s \<Longrightarrow> load_index (st_deps s) = Some idx"
  unfolding site_ok_def by (elim conjE) (rule published_index)

lemma scanned_Cons: "scanned slib sn inp = [new] \<longleftrightarrow> scan_content slib sn (ri_content inp) False = Ok new"
  by (auto simp: scanned_def split: sum.split)

text \<open>
  C6. A delivery that is answered with 200 is on the site. After any start and any reloads, the
  answer of the webhook is 200 exactly for a delivery it accepts whose content scans; then the
  site serves the index of that very scan, its cached home page and rendered pages are gone, and
  a GET of \<open>/posts/\<close> and the slug of one of its posts, the slugs that name no path of their own
  left out, is answered with exactly the rendering of the post template with that post, if the
  template renders. Any
  other answer leaves the content served before: a failed reload, answered with 500, as well as
  a request that is refused, after which the site is what it was.
\<close>

theorem delivery_visible:
  fixes rts :: "('ip, 't) server route list"
  assumes "load_templates tlib tfs = Ok en" and "ld_callbacks l = []" and "length inps + 2 < 2 ^ 64"
    and "register_routes cfg prom (site_options tlib flib tx ops t cfg webhook static) = Ok rts"
    and "deliver clib yaml tlib slib sn tx lib ws r now inp
      (h, reload_all clib yaml tlib slib sn tx inps (start_site tx panics cfg l idx en overlay)) = Some (resp, h', s')"
  shows "let s = reload_all clib yaml tlib slib sn tx inps (start_site tx panics cfg l idx en overlay);
      served = (\<lambda>p out. render_page tlib (dp_theme (st_deps s')) (rq_cancelled req) ''templates/post.html''
         (shown (st_deps s') ((page_data_of (dp_config (st_deps s')) (fm_title (po_fm p)))\<lparr>pd_post := Some p\<rparr>)) = Ok out) in
    (wr_status resp = 200 \<longleftrightarrow> accepted_delivery lib ws r now h \<and> scanned slib sn inp \<noteq> []) \<and>
    (wr_status resp = 200 \<longrightarrow> (\<exists>new. scanned slib sn inp = [new] \<and> load_index (st_deps s') = Some new \<and>
       dp_static (st_deps s') = None \<and> (case st_cache s' of None \<Rightarrow> True | Some c \<Rightarrow> ca_entries c = Map.empty) \<and>
       (\<forall>p \<in> set (ix_posts new). \<forall>out. po_slug p \<notin> {'''', ''.''} \<longrightarrow> served p out \<longrightarrow>
          fetch nlib b cfg rts (sv\<lparr>sr_deps := st_deps s'\<rparr>) req (''/posts/'' @ po_slug p) = (200, out)))) \<and>
    (wr_status resp \<noteq> 200 \<longrightarrow> load_index (st_deps s') = Some (last (idx # concat (map (scanned slib sn) inps)))) \<and>
    (wr_status resp \<notin> {200, 500} \<longrightarrow> s' = s)"
proof -
  define s where "s = reload_all clib yaml tlib slib sn tx inps (start_site tx panics cfg l idx en overlay)"
  let ?first = "if se_enabled (cg_search cfg) then 1 else 0 :: nat"
  let ?scans = "concat (map (scanned slib sn) inps)"
  obtain e s1 where r: "content_reloader clib yaml tlib slib sn tx inp s = (e, s1)" by fastforce
  have "?first + length inps < 2 ^ 64" using assms(3) by simp
  from site_ok_all [OF start_site_ok [OF load_templates_ok [OF assms(1)] assms(2)] this]
  have ok: "site_ok tx tlib (se_enabled (cg_search cfg)) (last (cfg # concat (map (loads clib yaml) inps)))
      (?first + length ?scans) (last (idx # ?scans)) s"
    unfolding s_def .
  have gen: "?first + length ?scans + 1 < 2 ^ 64" using scans_length [of slib sn inps] assms(3) by simp
  note reload = site_ok_reload [OF ok gen r]
  let ?content = "last (idx # ?scans)"
  have before: "load_index (st_deps s) = Some ?content" using ok by (rule site_ok_index)
  have after: "load_index (st_deps s1) = Some (last (?content # scanned slib sn inp))"
    using reload [THEN conjunct1] by (rule site_ok_index)
  have err: "(e = None) = (scanned slib sn inp \<noteq> [])" using reload [THEN conjunct2, THEN conjunct1] .
  note d = deliver_cases [OF assms(5) [folded s_def] r]
  have A: "(wr_status resp = 200) = (accepted_delivery lib ws r now h \<and> scanned slib sn inp \<noteq> [])"
    using d err by (auto split: if_splits)
  have B: "load_index (st_deps s') = Some ?content" if "wr_status resp \<noteq> 200"
  proof (cases "accepted_delivery lib ws r now h")
    case True
    then show ?thesis using d err that after by (simp split: if_splits)
  qed (use d before in simp)
  have C: "s' = s" if "wr_status resp \<notin> {200, 500}"
    using d that by (auto split: if_splits)
  have D: "\<exists>new. scanned slib sn inp = [new] \<and> load_index (st_deps s') = Some new \<and>
       dp_static (st_deps s') = None \<and> (case st_cache s' of None \<Rightarrow> True | Some c \<Rightarrow> ca_entries c = Map.empty) \<and>
       (\<forall>p \<in> set (ix_posts new). \<forall>out. po_slug p \<notin> {'''', ''.''} \<longrightarrow>
          render_page tlib (dp_theme (st_deps s')) (rq_cancelled req) ''templates/post.html''
            (shown (st_deps s') ((page_data_of (dp_config (st_deps s')) (fm_title (po_fm p)))\<lparr>pd_post := Some p\<rparr>)) = Ok out \<longrightarrow>
          fetch nlib b cfg rts (sv\<lparr>sr_deps := st_deps s'\<rparr>) req (sl # ''posts'' @ sl # po_slug p) = (200, out))"
    if ok: "wr_status resp = 200"
  proof -
    have n: "scanned slib sn inp \<noteq> []" "accepted_delivery lib ws r now h" using A ok by simp_all
    then obtain new where new: "scanned slib sn inp = [new]" by (auto simp: scanned_def split: sum.splits)
    have s': "s' = s1" using d n(2) by simp
    have i: "load_index (st_deps s') = Some new" using after by (simp add: s' new)
    have drop: "dp_static (st_deps s') = None" "case st_cache s' of None \<Rightarrow> True | Some c \<Rightarrow> ca_entries c = Map.empty"
      using reload [THEN conjunct2, THEN conjunct2] n(1) unfolding s' by blast+
    have i': "load_index (sr_deps (sv\<lparr>sr_deps := st_deps s'\<rparr>)) = Some new" using i by simp
    note answered = post_answered [OF new [unfolded scanned_Cons] assms(4) i']
    show ?thesis
      by (intro exI [of _ new] conjI ballI allI impI new i drop, rule answered) simp_all
  qed
  show ?thesis unfolding s_def [symmetric] Let_def using A B C D by simp
qed

subsection \<open>A first post, pushed\<close>

lemma reloader_theme:
  assumes "content_reloader clib yaml tlib slib sn tx inp s = (e, s')" and "load_templates tlib (ri_theme inp) = Ok en"
    and "st_themed s"
  shows "dp_theme (st_deps s') = en"
proof -
  have themed: "st_themed (reload_config clib yaml w s)" for w
    using assms(3) by (simp add: reload_config_def split: option.split prod.split)
  let ?s2 = "reload_theme tlib (ri_theme inp) (reload_config clib yaml (ri_world inp) s)"
  have t: "dp_theme (st_deps ?s2) = en"
    using themed assms(2) by (simp add: reload_theme_def engine_reload_def)
  have keep: "dp_theme (fst (publish_content_snapshot tx panics i build c (d, g))) = dp_theme d" for panics i build c d g
    by (simp add: publish_content_snapshot_def next_generation_def set_snapshot_def Let_def split: option.split prod.split)
  show ?thesis
  proof (cases "scan_content slib sn (ri_content inp) False")
    case (Inl x)
    then show ?thesis using assms(1) t by (simp add: content_reloader_def Let_def)
  next
    case (Inr new)
    define sc where "sc = (case st_loader ?s2 of None \<Rightarrow> zero_search_config | Some l \<Rightarrow> cg_search (loader_get l))"
    obtain d g where p: "publish_content_snapshot tx (ri_panics inp) (Some new) (dp_search_enabled (st_deps ?s2)) sc
        (st_deps ?s2, st_gauges ?s2) = (d, g)" by fastforce
    have "dp_theme d = en" using keep [of "ri_panics inp" "Some new" "dp_search_enabled (st_deps ?s2)" sc "st_deps ?s2" "st_gauges ?s2"] p t by simp
    then show ?thesis using assms(1) Inr p by (auto simp: content_reloader_def Let_def sc_def)
  qed
qed

definition post_theme_fs :: content_fs where
  "post_theme_fs = \<lparr>cf_walk = (\<lambda>d. [VisitFile base_name, VisitFile ''templates/post.html'']), cf_read = (\<lambda>p. Ok ''x'')\<rparr>"

definition post_engine :: "string engine" where
  "post_engine = \<lparr>en_base = base_name, en_pages = [''templates/post.html'' \<mapsto> ''x'']\<rparr>"

lemma post_theme_loads: "load_templates (body_tmpl :: (string, nat page_data) tmpl_lib) post_theme_fs = Ok post_engine"
  by (simp add: load_templates_def post_theme_fs_def load_visit_def is_shared_def body_tmpl_def demo_tmpl_def base_name_def
      post_engine_def has_suffix_def contains_def)

definition first_post :: reload_input where
  "first_post = \<lparr>ri_world = demo_world, ri_theme = post_theme_fs, ri_content = one_post_fs, ri_panics = False\<rparr>"

lemma push_accepted: "accepted_delivery demo_lib hook_strategy push 5 fresh_hook"
  using push_deliverable by (simp add: accepted_delivery_def fresh_hook_def budget_def)

lemma reload_all_nil: "reload_all clib yaml tlib slib sn tx [] s = s"
  by (simp add: reload_all_def)

theorem delivery_visible_witness:
  "\<exists>(rts :: (string, string) server route list) resp h' s'.
     register_routes default_config not_there one_options = Ok rts \<and>
     deliver demo_cfg_lib (\<lambda>_. Some) (body_tmpl :: (string, nat page_data) tmpl_lib) demo_scan_lib (new_scanner '''' '''' 0) demo_text
       demo_lib hook_strategy push 5 first_post
       (fresh_hook, start_site demo_text False default_config (new_loader ''etc'') empty_index post_engine (\<lambda>_. Ok '''')) =
       Some (resp, h', s') \<and>
     wr_status resp = 200 \<and>
     fetch demo_net ''0123456789abcdef'' default_config rts (one_site\<lparr>sr_deps := st_deps s'\<rparr>) Handlers.demo_request ''/posts/s'' = (200, ''hello'')"
proof -
  let ?tl = "body_tmpl :: (string, nat page_data) tmpl_lib" and ?sn = "new_scanner '''' '''' 0"
  let ?s = "start_site demo_text False default_config (new_loader ''etc'') empty_index post_engine (\<lambda>_. Ok '''')"
  obtain rts :: "(string, string) server route list" where r: "register_routes default_config not_there one_options = Ok rts"
    using one_routes by blast
  obtain e s1 where c: "content_reloader demo_cfg_lib (\<lambda>_. Some) ?tl demo_scan_lib ?sn demo_text first_post ?s = (e, s1)"
    by fastforce
  obtain resp h' s' where d: "deliver demo_cfg_lib (\<lambda>_. Some) ?tl demo_scan_lib ?sn demo_text demo_lib hook_strategy push 5 first_post
      (fresh_hook, ?s) = Some (resp, h', s')"
    using push_answered [of "e = None"] c by (auto simp: deliver_def)
  have sc: "scanned demo_scan_lib ?sn first_post = [one_index]"
    using one_post_scan by (simp add: scanned_def first_post_def)
  have l: "ld_callbacks (new_loader ''etc'') = []" by (simp add: new_loader_def)
  have d': "deliver demo_cfg_lib (\<lambda>_. Some) ?tl demo_scan_lib ?sn demo_text demo_lib hook_strategy push 5 first_post
      (fresh_hook, reload_all demo_cfg_lib (\<lambda>_. Some) ?tl demo_scan_lib ?sn demo_text [] ?s) = Some (resp, h', s')"
    using d by (simp only: reload_all_nil)
  have n: "length ([] :: reload_input list) + 2 < 2 ^ 64" by simp
  note v = delivery_visible [OF post_theme_loads l n r [unfolded one_options_def] d', unfolded sc Let_def]
  have ok: "wr_status resp = 200" using v [THEN conjunct1] push_accepted by simp
  have s': "s' = s1"
    using deliver_cases [OF d c] push_accepted by simp
  have "st_themed ?s" by (simp add: start_site_def Let_def split: prod.split)
  then have t: "dp_theme (st_deps s') = post_engine"
    using reloader_theme [OF c] post_theme_loads unfolding s' by (simp add: first_post_def)
  have p: "render_page ?tl (dp_theme (st_deps s')) (rq_cancelled Handlers.demo_request) ''templates/post.html''
      (shown (st_deps s') ((page_data_of (dp_config (st_deps s')) (fm_title (po_fm one_post)))\<lparr>pd_post := Some one_post\<rparr>)) = Ok ''hello''"
    unfolding t by (simp add: render_page_def post_engine_def body_tmpl_def demo_tmpl_def Handlers.demo_request_def shown_def one_post_def)
  have "po_slug one_post \<notin> {'''', ''.''}" by (simp add: one_post_def)
  then have "fetch demo_net ''0123456789abcdef'' default_config rts (one_site\<lparr>sr_deps := st_deps s'\<rparr>) Handlers.demo_request
      (''/posts/'' @ po_slug one_post) = (200, ''hello'')"
    using v [THEN conjunct2, THEN conjunct1, THEN mp, OF ok] p one_post_listed by blast
  moreover have "''/posts/'' @ po_slug one_post = ''/posts/s''" by (simp add: one_post_def)
  ultimately show ?thesis using r d ok by metis
qed

end
