(* ===== verification/Startup.thy ===== *)
theory Startup
  imports Links Sync Git_Pull Overlay
begin

text \<open>
  The start of the program (\<open>cmd/blogflow/main.go\<close>, \<open>bootstrap.go\<close>) and the health probe
  (\<open>healthcheck.go\<close>). The machine is a record of what the start reads and does outside the
  program; every \<open>os.Exit(1)\<close> and every panic of the start is a \<open>boot_failure\<close>. The start ends
  before \<open>Start\<close> of the strategy, which \<open>Sync\<close> models; \<open>Lifecycle\<close> goes on from there.
\<close>

subsection \<open>The health probe\<close>

definition default_port :: int where
  "default_port = 8080"

definition env_port :: "os \<Rightarrow> string \<Rightarrow> int option" where
  "env_port os key = (case atoi (getenv os key) of None \<Rightarrow> None | Some n \<Rightarrow> if 0 < n then Some n else None)"

definition healthcheck_default_port :: "os \<Rightarrow> int" where
  "healthcheck_default_port os =
     (let ops = (if parse_bool (getenv os ''BLOGFLOW_SERVER_PRIVATE_HEALTH'') = Some True
            then (case env_port os ''BLOGFLOW_SERVER_OPS_PORT'' of
                    Some n \<Rightarrow> Some n
                  | None \<Rightarrow> env_port os ''BLOGFLOW_SERVER_METRICS_PORT'')
            else None) in
      case ops of
        Some n \<Rightarrow> n
      | None \<Rightarrow> (case env_port os ''BLOGFLOW_SERVER_PORT'' of Some n \<Rightarrow> n | None \<Rightarrow> default_port))"

text \<open>\<open>flags\<close>: the port the arguments give, the default, or nothing when they do not parse.\<close>

definition run_healthcheck :: "(string list \<Rightarrow> int \<Rightarrow> int option) \<Rightarrow> (string \<Rightarrow> nat option) \<Rightarrow> os \<Rightarrow> string list \<Rightarrow> nat" where
  "run_healthcheck flags get os args =
     (case flags args (healthcheck_default_port os) of
        None \<Rightarrow> 1
      | Some port \<Rightarrow>
          (case get (''http://localhost:'' @ itoa port @ ''/healthz'') of
             None \<Rightarrow> 1
           | Some status \<Rightarrow> if status \<noteq> 200 then 1 else 0))"

subsection \<open>Bootstrap of the content\<close>

definition bootstrap_content ::
  "'u url_lib \<Rightarrow> 'w git_lib \<Rightarrow> (string \<Rightarrow> (string, string) result) \<Rightarrow> os \<Rightarrow> config \<Rightarrow> string \<Rightarrow> 'w git_state \<Rightarrow>
   (puller option \<times> string \<times> string) \<times> 'w git_state" where
  "bootstrap_content ul gl ssh_keys os cfg content_path s =
     (let y = cg_sync cfg;
          branch = (if sy_branch y = '''' then ''main'' else sy_branch y);
          dest = (if content_path = '''' then ''content'' else content_path) in
      case load_auth_from_env os of
        Inl e \<Rightarrow> ((None, branch, dest), s)
      | Inr auth \<Rightarrow>
          (case new_puller ssh_keys (Some auth) [sy_clone_depth y] of
             Inl e \<Rightarrow> ((None, branch, dest), s)
           | Inr p \<Rightarrow>
               (case clone_or_pull ul gl (p\<lparr>pl_sparse := sy_sparse_dirs y\<rparr>) (sy_repo y) branch dest s of
                  (r, p', s') \<Rightarrow> ((Some p', branch, dest), s'))))"

subsection \<open>The patterns of the mux\<close>

text \<open>
  \<open>http.ServeMux\<close> panics on a pattern it cannot parse; a pattern with a method whose path is not
  clean is one of them. \<open>letter\<close> and \<open>digit\<close> are the tables of \<open>unicode\<close> above ASCII.
\<close>

definition rune_letter :: "(nat \<Rightarrow> bool) \<Rightarrow> nat \<Rightarrow> bool" where
  "rune_letter letter r = (if r < 128 then is_alpha_char (char_of r) else letter r)"

definition rune_digit :: "(nat \<Rightarrow> bool) \<Rightarrow> nat \<Rightarrow> bool" where
  "rune_digit digit r = (if r < 128 then is_digit_char (char_of r) else digit r)"

definition wildcard_name :: "(nat \<Rightarrow> bool) \<Rightarrow> (nat \<Rightarrow> bool) \<Rightarrow> string \<Rightarrow> bool" where
  "wildcard_name letter digit s =
     (case runes s of
        [] \<Rightarrow> False
      | r # rs \<Rightarrow> (rune_letter letter r \<or> r = 95) \<and>
          list_all (\<lambda>x. rune_letter letter x \<or> x = 95 \<or> rune_digit digit x) rs)"

text \<open>The segments of a path after its first slash; \<open>seen\<close> are the wildcard names before.\<close>

fun segments_ok :: "(nat \<Rightarrow> bool) \<Rightarrow> (nat \<Rightarrow> bool) \<Rightarrow> string list \<Rightarrow> string list \<Rightarrow> bool" where
  "segments_ok letter digit seen [] = True"
| "segments_ok letter digit seen (e # es) =
     (if CHR ''{'' \<notin> set e then segments_ok letter digit seen es
      else hd e = CHR ''{'' \<and> last e = CHR ''}'' \<and>
        (let name = butlast (tl e); multi = has_suffix name ''...'';
             base = (if multi then take (length name - 3) name else name) in
         if name = ''$'' then es = []
         else (multi \<longrightarrow> es = []) \<and> wildcard_name letter digit base \<and> base \<notin> set seen \<and>
           segments_ok letter digit (base # seen) es))"

definition pattern_ok :: "(nat \<Rightarrow> bool) \<Rightarrow> (nat \<Rightarrow> bool) \<Rightarrow> string \<Rightarrow> bool" where
  "pattern_ok letter digit p \<longleftrightarrow> clean_path p = p \<and> segments_ok letter digit [] (elems (drop 1 p))"

subsection \<open>The start\<close>

record flags =
  fg_content :: string
  fg_theme :: string
  fg_config :: string
  fg_port :: int
  fg_repo :: string
  fg_branch :: string

record 'w machine =
  mc_mkdir :: "string \<Rightarrow> bool"
  mc_ev :: evaluator
  mc_stat :: "string \<Rightarrow> (fs_error, file_info) result"
  mc_dir :: "string \<Rightarrow> layer"
  mc_defaults :: layer
  mc_config :: "overlay option \<Rightarrow> world"   \<comment> \<open>the files of the overlay, or the defaults alone\<close>
  mc_os :: os
  mc_git :: 'w
  mc_files :: "'w \<Rightarrow> overlay \<Rightarrow> content_fs"
  mc_read :: "overlay \<Rightarrow> string \<Rightarrow> (fs_error, string) result"

datatype boot_failure =
    CannotCreate string
  | OverlayFailed path_error
  | ConfigOverlayFailed path_error
  | ConfigFailed load_error
  | ScanFailed scan_error
  | ThemeFailed theme_error
  | ServerPanic string
  | StrategyFailed factory_error
  | RoutesPanic string

record ('ip, 't) booted =
  bt_server :: "('ip, 't) server"
  bt_site :: "'t site"
  bt_routes :: "('ip, 't) server route list"
  bt_strategy :: "'ip sync_strategy"
  bt_index :: index

definition open_overlay :: "'w machine \<Rightarrow> string \<Rightarrow> string \<Rightarrow> string \<Rightarrow> (path_error, overlay) result" where
  "open_overlay mc theme content cfg =
     new_from_paths (mc_ev mc) (mc_stat mc) (mc_dir mc) theme content cfg (Some (mc_defaults mc))"

definition cannot_create :: "'w machine \<Rightarrow> flags \<Rightarrow> string option" where
  "cannot_create mc fl = find (\<lambda>d. d \<noteq> '''' \<and> \<not> mc_mkdir mc d) [fg_content fl, fg_theme fl, fg_config fl]"

definition load_site_config ::
  "('ip, 'x) cfg_lib_scheme \<Rightarrow> (string \<Rightarrow> config \<Rightarrow> config option) \<Rightarrow> 'w machine \<Rightarrow> flags \<Rightarrow>
   (boot_failure, config \<times> loader) result" where
  "load_site_config clib yaml mc fl =
     (case (if fg_config fl = '''' then Ok None
            else case open_overlay mc '''' '''' (fg_config fl) of Inl e \<Rightarrow> Err (ConfigOverlayFailed e) | Inr ov \<Rightarrow> Ok (Some ov)) of
        Inl e \<Rightarrow> Err e
      | Inr ov \<Rightarrow>
          (case loader_load clib yaml (mc_config mc ov) (new_loader '''') of
             (Inl e, l) \<Rightarrow> Err (ConfigFailed e)
           | (Inr cfg, l) \<Rightarrow> Ok (override_config (fg_port fl) (fg_repo fl) (fg_branch fl) (loader_get l), l)))"

text \<open>The directories of the file watcher, and the puller of the polling strategy.\<close>

definition wire_strategy :: "string \<Rightarrow> string \<Rightarrow> bool \<Rightarrow> 'ip sync_strategy \<Rightarrow> 'ip sync_strategy" where
  "wire_strategy content repo has_puller st =
     (case st of
        WatchStrategy w \<Rightarrow> if content \<noteq> '''' then WatchStrategy (watch_set_dirs [content] w) else st
      | PollStrategy p \<Rightarrow> if repo \<noteq> '''' \<and> has_puller then PollStrategy (poll_set_puller p) else st
      | _ \<Rightarrow> st)"

definition site_server :: "'t site \<Rightarrow> ('ip, 't) server \<Rightarrow> ('ip, 't) server" where
  "site_server st sv = set_content_checker (Some post_count) (sv\<lparr>sr_deps := st_deps st\<rparr>)"

definition boot ::
  "(nat \<Rightarrow> bool) \<Rightarrow> (nat \<Rightarrow> bool) \<Rightarrow> ('ip, 'x) cfg_lib_scheme \<Rightarrow> (string \<Rightarrow> config \<Rightarrow> config option) \<Rightarrow>
   ('t, 'f page_data) tmpl_lib \<Rightarrow> feed_lib \<Rightarrow> scan_lib \<Rightarrow> text_lib \<Rightarrow> ('f :: linorder) float_ops \<Rightarrow> 'u url_lib \<Rightarrow> 'w git_lib \<Rightarrow>
   (string \<Rightarrow> (string, string) result) \<Rightarrow> int \<Rightarrow> bool \<Rightarrow> 't deps handler \<Rightarrow> 't deps handler \<Rightarrow> 't deps handler \<Rightarrow>
   'w machine \<Rightarrow> flags \<Rightarrow> (boot_failure, ('ip, 't) booted) result" where
  "boot letter digit clib yaml tlib flib slib tx ops ul gl ssh_keys now panics prom webhook static mc fl =
     (case cannot_create mc fl of Some d \<Rightarrow> Err (CannotCreate d) | None \<Rightarrow>
     (case open_overlay mc (fg_theme fl) (fg_content fl) (fg_config fl) of Inl e \<Rightarrow> Err (OverlayFailed e) | Inr ov \<Rightarrow>
     (case load_site_config clib yaml mc fl of Inl e \<Rightarrow> Err e | Inr (cfg, l) \<Rightarrow>
     (let (puller, w) = (if sy_repo (cg_sync cfg) = '''' then (None, mc_git mc)
            else case bootstrap_content ul gl ssh_keys (mc_os mc) cfg (fg_content fl) (mc_git mc, []) of
                ((p, branch, dest), (w, calls)) \<Rightarrow> (p, w));
          files = mc_files mc w ov;
          sn = new_scanner (co_posts_dir (cg_content cfg)) (co_pages_dir (cg_content cfg)) (co_summary_length (cg_content cfg))
      in case scan_content slib sn files False of Inl e \<Rightarrow> Err (ScanFailed e) | Inr idx \<Rightarrow>
     (case new_engine tlib files of Inl e \<Rightarrow> Err (ThemeFailed e) | Inr en \<Rightarrow>
     (case new_server (net_lib.truncate clib) cfg (new_deps cfg (Some idx) en) of Inl e \<Rightarrow> Err (ServerPanic e) | Inr sv \<Rightarrow>
     (let site = start_site tx panics cfg l idx en (mc_read mc ov) in
      case new_strategy clib (Some (cg_sync cfg)) True (Some (sr_nets sv)) of Inl e \<Rightarrow> Err (StrategyFailed e) | Inr st \<Rightarrow>
     (let hook = (case st of WebhookStrategy ws wh \<Rightarrow> Some webhook | _ \<Rightarrow> None) in
      case register_routes cfg prom (site_options tlib flib tx ops now cfg hook (Some static)) of
        Inl e \<Rightarrow> Err (RoutesPanic e)
      | Inr rts \<Rightarrow>
          if \<exists>rt \<in> set rts. \<not> pattern_ok letter digit (rt_pattern rt) then Err (RoutesPanic ''parsing pattern'')
          else Ok \<lparr>bt_server = site_server site sv, bt_site = site, bt_routes = rts,
              bt_strategy = wire_strategy (fg_content fl) (sy_repo (cg_sync cfg)) (puller \<noteq> None) st,
              bt_index = idx\<rparr>))))))))"

subsection \<open>A valid configuration starts\<close>

lemma override_config_keeps [simp]:
  "cg_feed (override_config port repo branch cfg) = cg_feed cfg"
  "cg_search (override_config port repo branch cfg) = cg_search cfg"
  "sy_strategy (cg_sync (override_config port repo branch cfg)) = sy_strategy (cg_sync cfg)"
  "sy_webhook (cg_sync (override_config port repo branch cfg)) = sy_webhook (cg_sync cfg)"
  "sy_poll_interval (cg_sync (override_config port repo branch cfg)) = sy_poll_interval (cg_sync cfg)"
  "sv_trusted_proxy_cidrs (cg_server (override_config port repo branch cfg)) = sv_trusted_proxy_cidrs (cg_server cfg)"
  by (simp_all add: override_config_def Let_def)

lemma new_strategy_override:
  "new_strategy lib (Some (cg_sync (override_config port repo branch cfg))) r n = new_strategy lib (Some (cg_sync cfg)) r n"
proof -
  let ?y = "cg_sync (override_config port repo branch cfg)"
  have "new_poll_from_config lib ?y r = new_poll_from_config lib (cg_sync cfg) r"
    by (simp only: new_poll_from_config_def override_config_keeps)
  then show ?thesis by (simp only: new_strategy_def option.case override_config_keeps)
qed

lemma wire_strategy_name [simp]: "strategy_name (wire_strategy content repo p st) = strategy_name st"
  by (cases st) (simp_all add: wire_strategy_def strategy_name_def)

lemma webhook_strategy_name: "strategy_name st = ''webhook'' \<longleftrightarrow> (\<exists>ws wh. st = WebhookStrategy ws wh)"
  by (cases st) (simp_all add: strategy_name_def)

lemma loaded_valid:
  "load_site_config clib yaml mc fl = Ok (cfg, l) \<Longrightarrow>
     \<exists>c. validate clib c = [] \<and> cfg = override_config (fg_port fl) (fg_repo fl) (fg_branch fl) c \<and> loader_get l = c \<and>
       ld_callbacks l = []"
  by (auto simp: load_site_config_def loader_load_def loader_get_def new_loader_def dest!: load_config_valid
      split: sum.splits prod.splits if_splits)

lemma known_patterns_ok:
  "\<forall>p \<in> set [''/{$}'', ''/posts'', ''/page/{page}'', ''/posts/{slug}'', ''/pages/{slug}'', ''/tags/{tag}'', ''/feed.xml'',
     ''/sitemap.xml'', ''/search'', ''/healthz'', ''/readyz'', ''/readyz/content'', ''/metrics'', ''/static/''].
     pattern_ok letter digit p"
  unfolding list_all_iff [symmetric] by code_simp

lemma site_options_registers:
  assumes "sy_strategy (cg_sync cfg) = ''webhook'' \<longrightarrow> hook \<noteq> None"
  shows "is_ok (register_routes cfg prom (site_options tlib flib tx ops now cfg hook static) :: (string, ('ip, 't) server route list) result) \<longleftrightarrow>
    \<not> (sy_strategy (cg_sync cfg) = ''webhook'' \<and> contains_any (wc_path (sy_webhook (cg_sync cfg))) [CHR '' '', CHR 0x09])"
  using assms by (auto simp: register_routes_def site_options_def is_ok_def)

text \<open>The paths of a webhook the registration of the routes panics on.\<close>

definition hook_panics :: "(nat \<Rightarrow> bool) \<Rightarrow> (nat \<Rightarrow> bool) \<Rightarrow> config \<Rightarrow> bool" where
  "hook_panics letter digit cfg \<longleftrightarrow>
     sy_strategy (cg_sync cfg) = ''webhook'' \<and>
     (contains_any (wc_path (sy_webhook (cg_sync cfg))) [CHR '' '', CHR 0x09] \<or>
      \<not> pattern_ok letter digit (wc_path (sy_webhook (cg_sync cfg))))"

lemma table_pattern_cases:
  assumes "rt \<in> set (route_table cfg prom opts pages sitemap)"
  shows "rt_pattern rt \<in> fst ` set pages \<or>
    rt_pattern rt \<in> set [''/feed.xml'', ''/sitemap.xml'', ''/search'', ''/healthz'', ''/readyz'', ''/readyz/content'',
      ''/metrics'', ''/static/''] \<or>
    sy_strategy (cg_sync cfg) = ''webhook'' \<and> rt_pattern rt = wc_path (sy_webhook (cg_sync cfg))"
  using assms unfolding route_table_def set_append Un_iff in_set_if in_set_option
  by (elim disjE conjE exE)
    (force simp: content_routes_def get_route_def health_routes_def)+

lemma site_route_patterns:
  assumes "register_routes cfg prom (site_options tlib flib tx ops now cfg hook static) = Ok rts" and "rt \<in> set rts"
  shows "pattern_ok letter digit (rt_pattern rt) \<or>
    sy_strategy (cg_sync cfg) = ''webhook'' \<and> rt_pattern rt = wc_path (sy_webhook (cg_sync cfg))"
  using table_pattern_cases [OF assms(2) [unfolded site_routes [OF assms(1)]]]
    known_patterns_ok [of letter digit]
  unfolding list.set image_insert image_empty fst_conv by blast

lemma webhook_route:
  assumes "sy_strategy (cg_sync cfg) = ''webhook''"
  shows "\<exists>rt \<in> set (route_table cfg prom opts pages sitemap). rt_pattern rt = wc_path (sy_webhook (cg_sync cfg))"
  using assms by (intro bexI [of _ "\<lparr>rt_method = ''POST'', rt_pattern = wc_path (sy_webhook (cg_sync cfg)),
      rt_handler = lift_handler (the (ro_webhook opts))\<rparr>"]) (simp_all add: route_table_def)

lemma start_site_index: "load_index (st_deps (start_site tx panics cfg l idx en overlay)) = Some idx"
  by (auto simp: start_site_def Let_def load_index_def new_deps_def set_search_enabled_def publish_content_snapshot_def
      next_generation_def set_snapshot_def split: option.split prod.split)

lemma start_site_search:
  "load_search (st_deps (start_site tx panics cfg l idx en overlay)) \<noteq> None \<longleftrightarrow> se_enabled (cg_search cfg) \<and> \<not> panics"
  by (auto simp: start_site_def Let_def load_search_def new_deps_def set_search_enabled_def publish_content_snapshot_def
      build_search_index_safe_def next_generation_def set_snapshot_def split: option.split prod.split)

lemma site_registration:
  fixes prom :: "'t deps handler"
  assumes "sy_strategy (cg_sync cfg) = ''webhook'' \<longrightarrow> hook \<noteq> None"
  shows "case register_routes cfg prom (site_options tlib flib tx ops now cfg hook static) :: (string, ('ip, 't) server route list) result of
      Inl e \<Rightarrow> hook_panics letter digit cfg
    | Inr rts \<Rightarrow> (\<exists>rt \<in> set rts. \<not> pattern_ok letter digit (rt_pattern rt)) \<longleftrightarrow> hook_panics letter digit cfg"
proof (cases "register_routes cfg prom (site_options tlib flib tx ops now cfg hook static) :: (string, ('ip, 't) server route list) result")
  case (Inl e)
  then show ?thesis using site_options_registers [where 'ip = 'ip, OF assms, of prom tlib flib tx ops now static]
    by (simp add: hook_panics_def is_ok_def)
next
  case (Inr rts)
  have "\<not> (sy_strategy (cg_sync cfg) = ''webhook'' \<and> contains_any (wc_path (sy_webhook (cg_sync cfg))) [CHR '' '', CHR 0x09])"
    using site_options_registers [where 'ip = 'ip, OF assms, of prom tlib flib tx ops now static] Inr by (simp add: is_ok_def)
  moreover have "sy_strategy (cg_sync cfg) = ''webhook'' \<longrightarrow>
      (\<exists>rt \<in> set rts. rt_pattern rt = wc_path (sy_webhook (cg_sync cfg)))"
    unfolding site_routes [OF Inr] using webhook_route by blast
  ultimately have "(\<exists>rt \<in> set rts. \<not> pattern_ok letter digit (rt_pattern rt)) \<longleftrightarrow> hook_panics letter digit cfg"
    using site_route_patterns [OF Inr, of _ letter digit] unfolding hook_panics_def by metis
  then show ?thesis by (simp add: Inr)
qed

text \<open>
  C8. A configuration that loads starts the site. Whatever the machine, its files, its
  repository and its credentials hold, the start fails only where the environment does: a
  directory that cannot be created, an overlay that cannot be opened, a configuration that does
  not load, content or a theme that does not; neither the construction of the server nor that
  of the synchronisation strategy can fail or panic, and the registration of the routes panics
  exactly for the webhook paths the mux takes no pattern from, which validation lets pass. When
  the site starts, it serves the index of its one scan, with a search index exactly when search
  is enabled and its build did not panic, under the configured strategy, and reports its
  readiness by its posts.
\<close>

theorem loaded_config_starts:
  fixes clib :: "('ip, 'x) cfg_lib_scheme" and tlib :: "('t, ('f :: linorder) page_data) tmpl_lib"
  shows "case boot letter digit clib yaml tlib flib slib tx ops ul gl ssh_keys now panics prom webhook static mc fl of
      Inl e \<Rightarrow>
        (\<exists>d. e = CannotCreate d) \<or> (\<exists>p. e = OverlayFailed p \<or> e = ConfigOverlayFailed p) \<or> (\<exists>x. e = ConfigFailed x) \<or>
        (\<exists>x. e = ScanFailed x) \<or> (\<exists>x. e = ThemeFailed x) \<or>
        (\<exists>m cfg l. e = RoutesPanic m \<and> load_site_config clib yaml mc fl = Ok (cfg, l) \<and> hook_panics letter digit cfg)
    | Inr b \<Rightarrow> \<exists>cfg l fs. load_site_config clib yaml mc fl = Ok (cfg, l) \<and> validate clib (loader_get l) = [] \<and>
        \<not> hook_panics letter digit cfg \<and>
        scan_content slib (new_scanner (co_posts_dir (cg_content cfg)) (co_pages_dir (cg_content cfg))
          (co_summary_length (cg_content cfg))) fs False = Ok (bt_index b) \<and>
        load_index (sr_deps (bt_server b)) = Some (bt_index b) \<and>
        (load_search (sr_deps (bt_server b)) \<noteq> None \<longleftrightarrow> se_enabled (cg_search cfg) \<and> \<not> panics) \<and>
        strategy_name (bt_strategy b) = sy_strategy (cg_sync cfg) \<and>
        sr_checker (bt_server b) = Some post_count \<and> \<not> sr_ready (bt_server b)"
proof (cases "load_site_config clib yaml mc fl")
  case (Inl e)
  then have "(\<exists>p. e = ConfigOverlayFailed p) \<or> (\<exists>x. e = ConfigFailed x)"
    by (auto simp: load_site_config_def split: sum.splits prod.splits if_splits)
  then show ?thesis by (auto simp: boot_def Inl split: option.split sum.split)
next
  case (Inr cl)
  obtain cfg l where cl: "cl = (cfg, l)" by (cases cl)
  obtain c where c: "validate clib c = []" "cfg = override_config (fg_port fl) (fg_repo fl) (fg_branch fl) c" "loader_get l = c"
    using loaded_valid [OF Inr [unfolded cl]] by blast
  obtain nets where nets: "new_client_ip_resolver (net_lib.truncate clib) (sv_trusted_proxy_cidrs (cg_server cfg)) = Ok nets"
    using valid_resolver [OF c(1)] by (auto simp: c(2) is_ok_def split: sum.splits)
  obtain st where st: "new_strategy clib (Some (cg_sync cfg)) True (Some nets) = Ok st"
    "strategy_name st = sy_strategy (cg_sync cfg)"
    using valid_strategy_built [OF c(1), of nets] by (auto simp: c(2) new_strategy_override)
  define hook where "hook = (case st of WebhookStrategy ws wh \<Rightarrow> Some webhook | _ \<Rightarrow> None)"
  have "sy_strategy (cg_sync cfg) = ''webhook'' \<longrightarrow> hook \<noteq> None"
    using st(2) webhook_strategy_name [of st] by (auto simp: hook_def)
  note reg = site_registration [where 'ip = 'ip, OF this, of letter digit prom tlib flib tx ops now "Some static"]
  show ?thesis
    using reg
    by (auto simp: boot_def Inr cl nets st c(1,3) new_server_def Let_def hook_def [symmetric] site_server_def
        set_content_checker_def start_site_index start_site_search
        simp del: not_None_eq split: option.splits sum.splits prod.splits if_splits)
qed

end
