(* ===== verification/Lifecycle.thy ===== *)
theory Lifecycle
  imports Prelude
begin

text \<open>
  The life of the process after its start (\<open>cmd/blogflow/main.go\<close> from the signal goroutine on;
  \<open>Start\<close>, \<open>StartOps\<close>, \<open>Shutdown\<close>, \<open>Ready\<close> and \<open>SetReady\<close> of \<open>internal/server/server.go\<close>):
  four goroutines, interleaved step by step. Of \<open>http.Server\<close> it uses that \<open>Serve\<close> returns only
  with an error, \<open>ErrServerClosed\<close> as soon as \<open>Shutdown\<close> is called, and that \<open>Shutdown\<close> waits
  for the requests in flight or its deadline.
\<close>

subsection \<open>State\<close>

text \<open>A goroutine that serves: before \<open>net.Listen\<close>, in \<open>Serve\<close>, or returned, with no error or one.\<close>

datatype serving = Unbound | Bound | Ended bool

datatype main_pc = Starting | MarkReady | Waiting | Exited nat

datatype signal_pc = AwaitSignal | Caught | Cleared | SyncStopped | Draining | ShutDown

record lifecycle =
  lc_ops_port :: bool       \<comment> \<open>an ops server is configured\<close>
  lc_main :: main_pc
  lc_srv :: serving
  lc_ops :: serving
  lc_bound :: bool          \<comment> \<open>\<open>readyCh\<close> is closed\<close>
  lc_ready :: bool          \<comment> \<open>the flag of \<open>SetReady\<close>\<close>
  lc_err :: bool            \<comment> \<open>\<open>errCh\<close> is not nil yet\<close>
  lc_ops_err :: bool
  lc_signal :: signal_pc
  lc_down :: bool           \<comment> \<open>\<open>Shutdown\<close> was called on the server\<close>
  lc_ops_down :: bool
  lc_requests :: nat        \<comment> \<open>requests in flight\<close>

definition lc_start :: "bool \<Rightarrow> lifecycle" where
  "lc_start ops =
     \<lparr>lc_ops_port = ops, lc_main = Starting, lc_srv = Unbound, lc_ops = Unbound, lc_bound = False, lc_ready = False,
      lc_err = True, lc_ops_err = True, lc_signal = AwaitSignal, lc_down = False, lc_ops_down = False, lc_requests = 0\<rparr>"

definition live :: "lifecycle \<Rightarrow> bool" where
  "live s \<longleftrightarrow> lc_main s \<in> {Starting, MarkReady, Waiting}"

subsection \<open>Steps\<close>

datatype event = Traffic | Failure | Signal | Progress

text \<open>The goroutine of \<open>Start\<close>; a request may begin while it serves.\<close>

inductive serve_step :: "event \<Rightarrow> lifecycle \<Rightarrow> lifecycle \<Rightarrow> bool" where
  listen: "lc_srv s = Unbound \<Longrightarrow> serve_step Progress s (s\<lparr>lc_srv := Bound, lc_bound := True\<rparr>)"
| listen_fails: "lc_srv s = Unbound \<Longrightarrow> serve_step Failure s (s\<lparr>lc_srv := Ended False\<rparr>)"
| closed: "lc_srv s = Bound \<Longrightarrow> lc_down s \<Longrightarrow> serve_step Progress s (s\<lparr>lc_srv := Ended True\<rparr>)"
| serve_fails: "lc_srv s = Bound \<Longrightarrow> \<not> lc_down s \<Longrightarrow> serve_step Failure s (s\<lparr>lc_srv := Ended False\<rparr>)"
| request_begins: "lc_srv s = Bound \<Longrightarrow> \<not> lc_down s \<Longrightarrow>
    serve_step Traffic s (s\<lparr>lc_requests := Suc (lc_requests s)\<rparr>)"
| request_ends: "lc_requests s = Suc n \<Longrightarrow> serve_step Traffic s (s\<lparr>lc_requests := n\<rparr>)"

text \<open>The goroutine of \<open>StartOps\<close>.\<close>

inductive ops_step :: "event \<Rightarrow> lifecycle \<Rightarrow> lifecycle \<Rightarrow> bool" where
  no_ops: "lc_ops s = Unbound \<Longrightarrow> \<not> lc_ops_port s \<Longrightarrow> ops_step Progress s (s\<lparr>lc_ops := Ended True\<rparr>)"
| ops_listen: "lc_ops s = Unbound \<Longrightarrow> lc_ops_port s \<Longrightarrow> ops_step Progress s (s\<lparr>lc_ops := Bound\<rparr>)"
| ops_listen_fails: "lc_ops s = Unbound \<Longrightarrow> lc_ops_port s \<Longrightarrow> ops_step Failure s (s\<lparr>lc_ops := Ended False\<rparr>)"
| ops_closed: "lc_ops s = Bound \<Longrightarrow> lc_ops_down s \<Longrightarrow> ops_step Progress s (s\<lparr>lc_ops := Ended True\<rparr>)"
| ops_serve_fails: "lc_ops s = Bound \<Longrightarrow> \<not> lc_ops_down s \<Longrightarrow> ops_step Failure s (s\<lparr>lc_ops := Ended False\<rparr>)"

text \<open>The goroutine of the signal, up to its call of \<open>Shutdown\<close>.\<close>

inductive signal_step :: "event \<Rightarrow> lifecycle \<Rightarrow> lifecycle \<Rightarrow> bool" where
  receive: "lc_signal s = AwaitSignal \<Longrightarrow> signal_step Signal s (s\<lparr>lc_signal := Caught\<rparr>)"
| clear_ready: "lc_signal s = Caught \<Longrightarrow> signal_step Progress s (s\<lparr>lc_signal := Cleared, lc_ready := False\<rparr>)"
| stop_sync: "lc_signal s = Cleared \<Longrightarrow> signal_step Progress s (s\<lparr>lc_signal := SyncStopped\<rparr>)"
| begin_shutdown: "lc_signal s = SyncStopped \<Longrightarrow> signal_step Progress s (s\<lparr>lc_signal := Draining\<rparr>)"

text \<open>
  \<open>Shutdown\<close>, on both servers at once; it returns when the requests in flight are done or at its
  deadline.
\<close>

inductive shutdown_step :: "event \<Rightarrow> lifecycle \<Rightarrow> lifecycle \<Rightarrow> bool" where
  shut_main: "lc_signal s = Draining \<Longrightarrow> \<not> lc_down s \<Longrightarrow> shutdown_step Progress s (s\<lparr>lc_down := True\<rparr>)"
| shut_ops: "lc_signal s = Draining \<Longrightarrow> lc_ops_port s \<Longrightarrow> \<not> lc_ops_down s \<Longrightarrow>
    shutdown_step Progress s (s\<lparr>lc_ops_down := True\<rparr>)"
| drained: "lc_signal s = Draining \<Longrightarrow> lc_down s \<Longrightarrow> lc_ops_port s \<longrightarrow> lc_ops_down s \<Longrightarrow> lc_requests s = 0 \<Longrightarrow>
    shutdown_step Progress s (s\<lparr>lc_signal := ShutDown\<rparr>)"
| deadline: "lc_signal s = Draining \<Longrightarrow> lc_down s \<Longrightarrow> lc_ops_port s \<longrightarrow> lc_ops_down s \<Longrightarrow>
    shutdown_step Progress s (s\<lparr>lc_signal := ShutDown\<rparr>)"

text \<open>
  The main goroutine: the select on the first of an error, the bound listener and five seconds,
  then the loop over the two error channels.
\<close>

inductive main_step :: "event \<Rightarrow> lifecycle \<Rightarrow> lifecycle \<Rightarrow> bool" where
  start_error: "lc_main s = Starting \<Longrightarrow> lc_srv s = Ended r \<Longrightarrow> main_step Progress s (s\<lparr>lc_main := Exited 1\<rparr>)"
| ops_start_error: "lc_main s = Starting \<Longrightarrow> lc_ops_port s \<Longrightarrow> lc_ops s = Ended r \<Longrightarrow>
    main_step Progress s (s\<lparr>lc_main := Exited 1\<rparr>)"
| start_bound: "lc_main s = Starting \<Longrightarrow> lc_bound s \<Longrightarrow> main_step Progress s (s\<lparr>lc_main := MarkReady\<rparr>)"
| start_timeout: "lc_main s = Starting \<Longrightarrow> main_step Failure s (s\<lparr>lc_main := Exited 1\<rparr>)"
| mark_ready: "lc_main s = MarkReady \<Longrightarrow> main_step Progress s (s\<lparr>lc_main := Waiting, lc_ready := True\<rparr>)"
| server_stopped: "lc_main s = Waiting \<Longrightarrow> lc_err s \<Longrightarrow> lc_srv s = Ended ok \<Longrightarrow>
    main_step Progress s (s\<lparr>lc_err := False, lc_main := if ok then Waiting else Exited 1\<rparr>)"
| ops_stopped: "lc_main s = Waiting \<Longrightarrow> lc_ops_err s \<Longrightarrow> lc_ops s = Ended ok \<Longrightarrow>
    main_step Progress s (s\<lparr>lc_ops_err := False, lc_main := if ok then Waiting else Exited 1\<rparr>)"
| return: "lc_main s = Waiting \<Longrightarrow> \<not> lc_err s \<Longrightarrow> \<not> lc_ops_err s \<Longrightarrow> main_step Progress s (s\<lparr>lc_main := Exited 0\<rparr>)"

text \<open>When the main goroutine is gone, so is the process.\<close>

definition lc_step :: "event \<Rightarrow> lifecycle \<Rightarrow> lifecycle \<Rightarrow> bool" where
  "lc_step e s s' \<longleftrightarrow> live s \<and> (serve_step e s s' \<or> ops_step e s s' \<or> signal_step e s s' \<or> shutdown_step e s s' \<or> main_step e s s')"

inductive lc_trace :: "bool \<Rightarrow> event list \<Rightarrow> lifecycle \<Rightarrow> bool" for ops where
  trace_start: "lc_trace ops [] (lc_start ops)"
| trace_step: "lc_trace ops es s \<Longrightarrow> lc_step e s s' \<Longrightarrow> lc_trace ops (es @ [e]) s'"

inductive_cases serve_stepE: "serve_step e s s'"
inductive_cases ops_stepE: "ops_step e s s'"
inductive_cases signal_stepE: "signal_step e s s'"
inductive_cases shutdown_stepE: "shutdown_step e s s'"
inductive_cases main_stepE: "main_step e s s'"

lemma lc_stepE:
  assumes "lc_step e s s'"
  obtains "live s" "serve_step e s s'" | "live s" "ops_step e s s'" | "live s" "signal_step e s s'"
    | "live s" "shutdown_step e s s'" | "live s" "main_step e s s'"
  using assms by (auto simp: lc_step_def)

subsection \<open>Invariant\<close>

definition lc_inv :: "lifecycle \<Rightarrow> bool" where
  "lc_inv s \<longleftrightarrow>
     (lc_ready s \<or> lc_main s \<in> {MarkReady, Waiting, Exited 0} \<or> lc_srv s \<in> {Bound, Ended True} \<longrightarrow> lc_bound s) \<and>
     (lc_srv s = Ended True \<longrightarrow> lc_down s) \<and>
     (lc_ops s = Ended True \<longrightarrow> lc_ops_port s \<longrightarrow> lc_ops_down s) \<and> (lc_ops s = Bound \<longrightarrow> lc_ops_port s) \<and>
     (lc_down s \<or> lc_ops_down s \<longrightarrow> lc_signal s \<in> {Draining, ShutDown}) \<and>
     (lc_signal s = ShutDown \<longrightarrow> lc_down s \<and> (lc_ops_port s \<longrightarrow> lc_ops_down s)) \<and>
     (\<not> lc_err s \<longrightarrow> live s \<or> lc_main s = Exited 0 \<longrightarrow> lc_srv s = Ended True) \<and>
     (\<not> lc_ops_err s \<longrightarrow> live s \<or> lc_main s = Exited 0 \<longrightarrow> lc_ops s = Ended True) \<and>
     (lc_main s = Exited 0 \<longrightarrow> \<not> lc_err s \<and> \<not> lc_ops_err s)"

lemma lc_invD:
  assumes "lc_inv s"
  shows "lc_ready s \<Longrightarrow> lc_bound s" "lc_srv s = Ended True \<Longrightarrow> lc_down s"
    "lc_ops_port s \<Longrightarrow> lc_ops s = Ended True \<Longrightarrow> lc_ops_down s"
    "lc_ops s = Bound \<Longrightarrow> lc_ops_port s"
    "lc_down s \<Longrightarrow> lc_signal s \<noteq> AwaitSignal" "lc_ops_down s \<Longrightarrow> lc_signal s \<noteq> AwaitSignal"
    "lc_signal s = ShutDown \<Longrightarrow> lc_down s" "lc_signal s = ShutDown \<Longrightarrow> lc_ops_port s \<Longrightarrow> lc_ops_down s"
    "lc_main s = Exited 0 \<Longrightarrow> lc_srv s = Ended True" "lc_main s = Exited 0 \<Longrightarrow> lc_ops s = Ended True"
  using assms by (simp_all add: lc_inv_def) (erule conjE disjE | simp)+

lemma lc_inv_start: "lc_inv (lc_start ops)"
  by (simp add: lc_inv_def lc_start_def live_def)

lemma lc_inv_serve: "serve_step e s s' \<Longrightarrow> live s \<Longrightarrow> lc_inv s \<Longrightarrow> lc_inv s'"
  by (erule serve_stepE) (simp_all add: lc_inv_def live_def, auto)

lemma lc_inv_ops: "ops_step e s s' \<Longrightarrow> live s \<Longrightarrow> lc_inv s \<Longrightarrow> lc_inv s'"
  by (erule ops_stepE) (simp_all add: lc_inv_def live_def, auto)

lemma lc_inv_signal: "signal_step e s s' \<Longrightarrow> live s \<Longrightarrow> lc_inv s \<Longrightarrow> lc_inv s'"
  by (erule signal_stepE) (simp_all add: lc_inv_def live_def, auto)

lemma lc_inv_shutdown: "shutdown_step e s s' \<Longrightarrow> live s \<Longrightarrow> lc_inv s \<Longrightarrow> lc_inv s'"
  by (erule shutdown_stepE) (simp_all add: lc_inv_def live_def)

lemma lc_inv_main: "main_step e s s' \<Longrightarrow> live s \<Longrightarrow> lc_inv s \<Longrightarrow> lc_inv s'"
  by (erule main_stepE) (simp_all add: lc_inv_def live_def split: if_splits)

lemma lc_inv_step: "lc_step e s s' \<Longrightarrow> lc_inv s \<Longrightarrow> lc_inv s'"
  by (erule lc_stepE) (auto intro: lc_inv_serve lc_inv_ops lc_inv_signal lc_inv_shutdown lc_inv_main)

lemma lc_inv_trace: "lc_trace ops es s \<Longrightarrow> lc_inv s"
  by (induction rule: lc_trace.induct) (auto intro: lc_inv_start lc_inv_step)

lemma lc_step_ops_port: "lc_step e s s' \<Longrightarrow> lc_ops_port s' = lc_ops_port s"
  by (erule lc_stepE) (auto elim!: serve_stepE ops_stepE signal_stepE shutdown_stepE main_stepE)

lemma lc_trace_ops_port: "lc_trace ops es s \<Longrightarrow> lc_ops_port s = ops"
  by (induction rule: lc_trace.induct) (simp_all add: lc_start_def lc_step_ops_port)

subsection \<open>Exits\<close>

text \<open>What a run has gone through shows in its state.\<close>

definition run_inv :: "event list \<Rightarrow> lifecycle \<Rightarrow> bool" where
  "run_inv es s \<longleftrightarrow>
     (Failure \<notin> set es \<longrightarrow> lc_srv s \<noteq> Ended False \<and> lc_ops s \<noteq> Ended False \<and>
       (lc_main s = Exited 1 \<longrightarrow> lc_signal s \<noteq> AwaitSignal)) \<and>
     (Failure \<in> set es \<longrightarrow> lc_srv s = Ended False \<or> lc_ops s = Ended False \<or> lc_main s = Exited 1) \<and>
     (Signal \<in> set es \<longleftrightarrow> lc_signal s \<noteq> AwaitSignal) \<and>
     (lc_main s = Exited 0 \<or> lc_main s = Exited 1 \<or> live s)"

lemma run_inv_start: "run_inv [] (lc_start ops)"
  by (simp add: run_inv_def lc_start_def live_def)

lemma run_inv_serve: "serve_step e s s' \<Longrightarrow> live s \<Longrightarrow> run_inv es s \<Longrightarrow> run_inv (es @ [e]) s'"
  by (erule serve_stepE) (simp_all add: run_inv_def live_def)

lemma run_inv_ops: "ops_step e s s' \<Longrightarrow> live s \<Longrightarrow> run_inv es s \<Longrightarrow> run_inv (es @ [e]) s'"
  by (erule ops_stepE) (simp_all add: run_inv_def live_def)

lemma run_inv_signal: "signal_step e s s' \<Longrightarrow> live s \<Longrightarrow> run_inv es s \<Longrightarrow> run_inv (es @ [e]) s'"
  by (erule signal_stepE) (simp_all add: run_inv_def live_def)

lemma run_inv_shutdown: "shutdown_step e s s' \<Longrightarrow> live s \<Longrightarrow> run_inv es s \<Longrightarrow> run_inv (es @ [e]) s'"
  by (erule shutdown_stepE) (simp_all add: run_inv_def live_def)

lemma ended_signalled:
  "lc_inv s \<Longrightarrow> lc_srv s = Ended True \<Longrightarrow> lc_signal s \<noteq> AwaitSignal"
  "lc_inv s \<Longrightarrow> lc_ops_port s \<Longrightarrow> lc_ops s = Ended True \<Longrightarrow> lc_signal s \<noteq> AwaitSignal"
  using lc_invD by blast+

lemma run_inv_exit:
  assumes "run_inv es s" and "e \<noteq> Signal"
    and "e = Failure \<or> lc_srv s = Ended False \<or> lc_ops s = Ended False \<or> lc_signal s \<noteq> AwaitSignal"
  shows "run_inv (es @ [e]) (s\<lparr>lc_main := Exited 1\<rparr>)"
  using assms by (cases "e = Failure") (simp_all add: run_inv_def, blast?)

lemma run_inv_stay:
  assumes "run_inv es s" and "e \<notin> {Signal, Failure}" and "m \<in> {MarkReady, Waiting, Exited 0}"
    and "live s"
  shows "run_inv (es @ [e]) (s\<lparr>lc_main := m\<rparr>)"
  using assms by (auto simp: run_inv_def live_def)

lemma run_inv_flags [simp]:
  "run_inv es (s\<lparr>lc_ready := b\<rparr>) = run_inv es s" "run_inv es (s\<lparr>lc_err := b\<rparr>) = run_inv es s"
  "run_inv es (s\<lparr>lc_ops_err := b\<rparr>) = run_inv es s"
  by (simp_all add: run_inv_def live_def)

lemma live_flags [simp]:
  "live (s\<lparr>lc_ready := b\<rparr>) = live s" "live (s\<lparr>lc_err := b\<rparr>) = live s" "live (s\<lparr>lc_ops_err := b\<rparr>) = live s"
  by (simp_all add: live_def)

lemma run_inv_main:
  assumes "main_step e s s'" "live s" "lc_inv s" "run_inv es s"
  shows "run_inv (es @ [e]) s'"
  using assms(1)
proof cases
  case (start_error r)
  then show ?thesis using run_inv_exit [OF assms(4)] ended_signalled(1) [OF assms(3)] by (cases r) simp_all
next
  case (ops_start_error r)
  then show ?thesis using run_inv_exit [OF assms(4)] ended_signalled(2) [OF assms(3)] by (cases r) simp_all
next
  case start_bound
  then show ?thesis using run_inv_stay [OF assms(4)] assms(2) by simp
next
  case start_timeout
  then show ?thesis using run_inv_exit [OF assms(4)] by simp
next
  case mark_ready
  have "s' = (s\<lparr>lc_ready := True\<rparr>)\<lparr>lc_main := Waiting\<rparr>" using mark_ready by simp
  then show ?thesis
    by (simp only:) (rule run_inv_stay, use assms(2,4) mark_ready in simp_all)
next
  case (server_stopped ok)
  have "s' = (s\<lparr>lc_err := False\<rparr>)\<lparr>lc_main := if ok then Waiting else Exited 1\<rparr>" using server_stopped by simp
  then show ?thesis
    using run_inv_stay [of es "s\<lparr>lc_err := False\<rparr>"] run_inv_exit [of es "s\<lparr>lc_err := False\<rparr>"] assms(2,4) server_stopped
    by (cases ok) simp_all
next
  case (ops_stopped ok)
  have "s' = (s\<lparr>lc_ops_err := False\<rparr>)\<lparr>lc_main := if ok then Waiting else Exited 1\<rparr>" using ops_stopped by simp
  then show ?thesis
    using run_inv_stay [of es "s\<lparr>lc_ops_err := False\<rparr>"] run_inv_exit [of es "s\<lparr>lc_ops_err := False\<rparr>"] assms(2,4) ops_stopped
    by (cases ok) simp_all
next
  case return
  then show ?thesis using run_inv_stay [OF assms(4)] assms(2) by simp
qed

lemma run_inv_step: "lc_step e s s' \<Longrightarrow> lc_inv s \<Longrightarrow> run_inv es s \<Longrightarrow> run_inv (es @ [e]) s'"
  by (erule lc_stepE) (auto intro: run_inv_serve run_inv_ops run_inv_signal run_inv_shutdown run_inv_main)

lemma run_inv_trace: "lc_trace ops es s \<Longrightarrow> run_inv es s"
  by (induction rule: lc_trace.induct) (auto intro: run_inv_start run_inv_step lc_inv_trace)

text \<open>
  C9. The life of the process, whatever the interleaving of its goroutines. It reports ready only
  after its listener is bound. It ends only after a signal or a failure; it ends with status 0
  only after a signal and no failure, once \<open>Shutdown\<close> was called on every server and every
  server has returned.
\<close>

theorem lifecycle_exits:
  assumes "lc_trace ops es s"
  shows "(lc_ready s \<longrightarrow> lc_bound s) \<and>
    (live s \<or> lc_main s = Exited 0 \<or> lc_main s = Exited 1 \<and> (Failure \<in> set es \<or> Signal \<in> set es)) \<and>
    (lc_main s = Exited 0 \<longrightarrow> Signal \<in> set es \<and> Failure \<notin> set es \<and> lc_down s \<and> (ops \<longrightarrow> lc_ops_down s) \<and>
      lc_srv s = Ended True \<and> lc_ops s = Ended True)"
proof -
  note i = lc_inv_trace [OF assms] and r = run_inv_trace [OF assms]
  have "lc_ready s \<longrightarrow> lc_bound s" using i by (simp add: lc_inv_def)
  moreover have "live s \<or> lc_main s = Exited 0 \<or> lc_main s = Exited 1 \<and> (Failure \<in> set es \<or> Signal \<in> set es)"
    using r by (cases "Failure \<in> set es") (auto simp: run_inv_def)
  moreover have "Signal \<in> set es \<and> Failure \<notin> set es \<and> lc_down s \<and> (ops \<longrightarrow> lc_ops_down s) \<and>
      lc_srv s = Ended True \<and> lc_ops s = Ended True" if x: "lc_main s = Exited 0"
  proof -
    have "lc_srv s = Ended True \<and> lc_ops s = Ended True" using i x by (simp add: lc_inv_def)
    then show ?thesis using i r x lc_trace_ops_port [OF assms] by (auto simp: lc_inv_def run_inv_def)
  qed
  ultimately show ?thesis by blast
qed

subsection \<open>Shutdown\<close>

definition lc_weight :: "lifecycle \<Rightarrow> nat" where
  "lc_weight s =
     (case lc_main s of Starting \<Rightarrow> 3 | MarkReady \<Rightarrow> 2 | Waiting \<Rightarrow> 1 | Exited n \<Rightarrow> 0) +
     (case lc_srv s of Unbound \<Rightarrow> 2 | Bound \<Rightarrow> 1 | Ended r \<Rightarrow> 0) + (case lc_ops s of Unbound \<Rightarrow> 2 | Bound \<Rightarrow> 1 | Ended r \<Rightarrow> 0) +
     (case lc_signal s of AwaitSignal \<Rightarrow> 5 | Caught \<Rightarrow> 4 | Cleared \<Rightarrow> 3 | SyncStopped \<Rightarrow> 2 | Draining \<Rightarrow> 1 | ShutDown \<Rightarrow> 0) +
     of_bool (lc_err s) + of_bool (lc_ops_err s) + of_bool (\<not> lc_down s) + of_bool (\<not> lc_ops_down s)"

lemma lc_step_weight: "lc_step e s s' \<Longrightarrow> lc_weight s' + of_bool (e \<noteq> Traffic) \<le> lc_weight s"
  by (erule lc_stepE; erule serve_stepE ops_stepE signal_stepE shutdown_stepE main_stepE) (simp_all add: lc_weight_def)

lemma lc_trace_weight: "lc_trace ops es s \<Longrightarrow> lc_weight s + length (filter (\<lambda>e. e \<noteq> Traffic) es) \<le> 16"
proof (induction rule: lc_trace.induct)
  case trace_start
  show ?case by (simp add: lc_weight_def lc_start_def)
next
  case (trace_step es s e s')
  then show ?case using lc_step_weight [OF trace_step(2)] by (cases e) simp_all
qed

lemma signal_step_enabled:
  assumes "lc_signal s \<notin> {AwaitSignal, ShutDown}"
  shows "\<exists>s'. signal_step Progress s s' \<or> shutdown_step Progress s s'"
proof -
  consider "lc_signal s = Caught" | "lc_signal s = Cleared" | "lc_signal s = SyncStopped" | "lc_signal s = Draining"
    using assms by (cases "lc_signal s") auto
  then show ?thesis
    by cases (meson signal_step.intros shutdown_step.intros)+
qed

lemma shut_down_enabled:
  assumes "lc_inv s" "live s" "lc_signal s = ShutDown"
  shows "\<exists>s'. serve_step Progress s s' \<or> ops_step Progress s s' \<or> main_step Progress s s'"
proof -
  have d: "lc_down s" "lc_ops_port s \<longrightarrow> lc_ops_down s" using assms by (auto simp: lc_inv_def)
  consider "lc_srv s \<in> {Unbound, Bound}" | r where "lc_srv s = Ended r" by (cases "lc_srv s") auto
  then show ?thesis
  proof cases
    case 1
    then show ?thesis using d by (blast intro: listen closed)
  next
    case srv: 2
    consider "lc_ops s \<in> {Unbound, Bound}" | r where "lc_ops s = Ended r" by (cases "lc_ops s") auto
    then show ?thesis
    proof cases
      case 1
      have "lc_ops s = Bound \<longrightarrow> lc_ops_port s" using assms(1) by (simp add: lc_inv_def)
      then show ?thesis using 1 d by (blast intro: no_ops ops_listen ops_closed)
    next
      case 2
      show ?thesis
        using assms(2) srv 2 unfolding live_def
        by (blast intro: start_error mark_ready server_stopped ops_stopped return)
    qed
  qed
qed

lemma signalled_enabled:
  assumes "lc_inv s" "live s" "lc_signal s \<noteq> AwaitSignal"
  shows "\<exists>s'. lc_step Progress s s'"
  using assms signal_step_enabled [of s] shut_down_enabled [of s] by (auto simp: lc_step_def)

text \<open>
  C20. A signal stops the process. Requests aside, the goroutines take at most sixteen steps in
  any run, failures and the signal included; and once the signal is received there is, until the
  process ends, a step to take that needs no failure and no request: there is no deadlock, and a
  run that keeps taking the steps of its goroutines ends.
\<close>

theorem shutdown_terminates:
  assumes "lc_trace ops es s"
  shows "length (filter (\<lambda>e. e \<noteq> Traffic) es) \<le> 16 \<and>
    (Signal \<in> set es \<longrightarrow> live s \<longrightarrow> (\<exists>s'. lc_step Progress s s'))"
  using lc_trace_weight [OF assms] signalled_enabled [OF lc_inv_trace [OF assms]] run_inv_trace [OF assms]
  by (auto simp: run_inv_def)

subsection \<open>Runs\<close>

lemma trace_serve: "lc_trace ops es s \<Longrightarrow> live s \<Longrightarrow> serve_step e s s' \<Longrightarrow> lc_trace ops (es @ [e]) s'"
  by (erule trace_step) (simp add: lc_step_def)

lemma trace_ops: "lc_trace ops es s \<Longrightarrow> live s \<Longrightarrow> ops_step e s s' \<Longrightarrow> lc_trace ops (es @ [e]) s'"
  by (erule trace_step) (simp add: lc_step_def)

lemma trace_signal: "lc_trace ops es s \<Longrightarrow> live s \<Longrightarrow> signal_step e s s' \<Longrightarrow> lc_trace ops (es @ [e]) s'"
  by (erule trace_step) (simp add: lc_step_def)

lemma trace_shutdown: "lc_trace ops es s \<Longrightarrow> live s \<Longrightarrow> shutdown_step e s s' \<Longrightarrow> lc_trace ops (es @ [e]) s'"
  by (erule trace_step) (simp add: lc_step_def)

lemma trace_main: "lc_trace ops es s \<Longrightarrow> live s \<Longrightarrow> main_step e s s' \<Longrightarrow> lc_trace ops (es @ [e]) s'"
  by (erule trace_step) (simp add: lc_step_def)

text \<open>A site that started, with one request in flight, and was signalled.\<close>

definition serving_state :: "bool \<Rightarrow> lifecycle" where
  "serving_state ready =
     (lc_start False)\<lparr>lc_main := Waiting, lc_srv := Bound, lc_ops := Ended True, lc_bound := True, lc_ready := ready,
        lc_requests := 1, lc_signal := Draining\<rparr>"

lemma drain_run:
  "lc_trace False [Progress, Progress, Progress, Progress, Traffic, Signal, Progress, Progress, Progress] (serving_state False)"
proof -
  note t = trace_start [of False, unfolded lc_start_def]
  note t = trace_serve [OF t _ listen, simplified live_def, simplified]
  note t = trace_ops [OF t _ no_ops, simplified live_def, simplified]
  note t = trace_main [OF t _ start_bound, simplified live_def, simplified]
  note t = trace_main [OF t _ mark_ready, simplified live_def, simplified]
  note t = trace_serve [OF t _ request_begins, simplified live_def, simplified]
  note t = trace_signal [OF t _ receive, simplified live_def, simplified]
  note t = trace_signal [OF t _ clear_ready, simplified live_def, simplified]
  note t = trace_signal [OF t _ stop_sync, simplified live_def, simplified]
  note t = trace_signal [OF t _ begin_shutdown, simplified live_def, simplified]
  show ?thesis using t by (simp add: serving_state_def lc_start_def)
qed

text \<open>
  The shutdown is not awaited: \<open>Start\<close> returns as soon as \<open>Shutdown\<close> is called, the main goroutine
  then returns, and the process is gone while \<open>Shutdown\<close> still waits for a request in flight. And
  a signal caught between the bind and \<open>SetReady(true)\<close> leaves the readiness flag set while the
  servers shut down.
\<close>

theorem shutdown_not_awaited:
  "\<exists>es s. lc_trace False es s \<and> Failure \<notin> set es \<and> lc_main s = Exited 0 \<and> lc_signal s = Draining \<and>
     lc_requests s = 1"
proof -
  note t = drain_run [unfolded serving_state_def lc_start_def, simplified]
  note t = trace_shutdown [OF t _ shut_main, simplified live_def, simplified]
  note t = trace_serve [OF t _ closed, simplified live_def, simplified]
  note t = trace_main [OF t _ server_stopped [where ok = True], simplified live_def, simplified]
  note t = trace_main [OF t _ ops_stopped [where ok = True], simplified live_def, simplified]
  note t = trace_main [OF t _ return, simplified live_def, simplified]
  show ?thesis by (intro exI conjI, rule t) simp_all
qed

theorem ready_while_draining:
  "\<exists>es s. lc_trace False es s \<and> Failure \<notin> set es \<and> live s \<and> lc_ready s \<and> lc_signal s = Draining"
proof -
  note t = trace_start [of False, unfolded lc_start_def]
  note t = trace_serve [OF t _ listen, simplified live_def, simplified]
  note t = trace_main [OF t _ start_bound, simplified live_def, simplified]
  note t = trace_signal [OF t _ receive, simplified live_def, simplified]
  note t = trace_signal [OF t _ clear_ready, simplified live_def, simplified]
  note t = trace_main [OF t _ mark_ready, simplified live_def, simplified]
  note t = trace_signal [OF t _ stop_sync, simplified live_def, simplified]
  note t = trace_signal [OF t _ begin_shutdown, simplified live_def, simplified]
  show ?thesis by (intro exI conjI, rule t) (simp_all add: live_def)
qed

theorem lifecycle_exits_witness:
  "\<exists>es s. lc_trace False es s \<and> lc_main s = Exited 0 \<and> Signal \<in> set es \<and> lc_down s \<and> lc_srv s = Ended True"
proof -
  obtain es s where t: "lc_trace False es s" "lc_main s = Exited 0" using shutdown_not_awaited by blast
  then show ?thesis using lifecycle_exits [OF t(1)] by blast
qed

theorem shutdown_terminates_witness:
  "\<exists>s'. lc_step Progress (serving_state False) s'"
  using shutdown_terminates [OF drain_run] by (simp add: serving_state_def lc_start_def live_def)

end
