(* ===== verification/Telemetry.thy ===== *)
theory Telemetry
  imports Env_File
begin

text \<open>
  The telemetry of the program: the setup of OpenTelemetry with its rollback and shutdown
  (\<open>internal/otel/init.go\<close>), the log handler that adds the trace (\<open>internal/otel/slog.go\<close>), and the
  registration of the metrics of the overlay (\<open>internal/overlayfs/metrics.go\<close>, \<open>WithOptions\<close>). The
  SDK's constructors, its global providers and the Prometheus registry are parameters, the texts
  of errors shortened; what the setup does to them is a list of effects.
\<close>

subsection \<open>Providers\<close>

datatype 'x provider = TracerProvider 'x | MeterProvider 'x

datatype 'x effect = SetGlobal "'x provider" | SetPropagator | Shut "'x provider"

record ('r, 'x) otel_lib =
  ol_lower :: "string \<Rightarrow> string"
  ol_resource :: "string \<Rightarrow> string \<Rightarrow> (string, 'r) result"
  ol_trace :: "bool \<Rightarrow> (string, 'x) result"    \<comment> \<open>the OTLP exporter, over gRPC or HTTP\<close>
  ol_metric :: "bool \<Rightarrow> (string, 'x) result"

definition build_resource :: "('r, 'x) otel_lib \<Rightarrow> string \<Rightarrow> string \<Rightarrow> (string, 'r) result" where
  "build_resource lib service version =
     (case ol_resource lib service version of Inl e \<Rightarrow> Err (''otel: create resource: '' @ e) | Inr r \<Rightarrow> Ok r)"

text \<open>The exporter of a protocol; \<open>kind\<close> names it in errors.\<close>

definition new_exporter :: "string \<Rightarrow> (bool \<Rightarrow> (string, 'x) result) \<Rightarrow> string \<Rightarrow> (string, 'x) result" where
  "new_exporter kind exporter proto =
     (if proto = ''grpc'' \<or> proto = ''http/protobuf'' \<or> proto = ''''
      then (case exporter (proto = ''grpc'') of
              Inl e \<Rightarrow> Err (''otel: create OTLP '' @ kind @ '' exporter: '' @ e)
            | Inr x \<Rightarrow> Ok x)
      else Err (''otel: unsupported OTLP protocol '' @ proto))"

definition init_tracing :: "('r, 'x) otel_lib \<Rightarrow> string \<Rightarrow> (string, 'x provider) result \<times> 'x effect list" where
  "init_tracing lib proto =
     (case new_exporter ''trace'' (ol_trace lib) proto of
        Inl e \<Rightarrow> (Err e, [])
      | Inr x \<Rightarrow> (Ok (TracerProvider x), [SetGlobal (TracerProvider x), SetPropagator]))"

definition init_metrics :: "('r, 'x) otel_lib \<Rightarrow> string \<Rightarrow> (string, 'x provider) result \<times> 'x effect list" where
  "init_metrics lib proto =
     (case new_exporter ''metric'' (ol_metric lib) proto of
        Inl e \<Rightarrow> (Err e, [])
      | Inr x \<Rightarrow> (Ok (MeterProvider x), [SetGlobal (MeterProvider x)]))"

text \<open>Last set up, first shut down; the first error is kept and every provider is shut down.\<close>

fun shut_all :: "('x provider \<Rightarrow> string option) \<Rightarrow> 'x provider list \<Rightarrow> string option \<Rightarrow> string option \<times> 'x effect list" where
  "shut_all shut [] err = (err, [])"
| "shut_all shut (p # ps) err =
     (case shut_all shut ps (if err = None then shut p else err) of (e, effs) \<Rightarrow> (e, Shut p # effs))"

definition run_shutdowns :: "('x provider \<Rightarrow> string option) \<Rightarrow> 'x provider list \<Rightarrow> string option \<times> 'x effect list" where
  "run_shutdowns shut fns = shut_all shut (rev fns) None"

text \<open>The result is the providers the returned function shuts down, none for the no-op.\<close>

definition otel_init ::
  "('r, 'x) otel_lib \<Rightarrow> ('x provider \<Rightarrow> string option) \<Rightarrow> os \<Rightarrow> string \<Rightarrow> string \<Rightarrow>
   (string, 'x provider list) result \<times> 'x effect list" where
  "otel_init lib shut os service version =
     (case build_resource lib service version of
        Inl e \<Rightarrow> (Err e, [])
      | Inr res \<Rightarrow>
          (let proto = trim_space (ol_lower lib (getenv os ''OTEL_EXPORTER_OTLP_PROTOCOL'')) in
           case (if getenv os ''OTEL_TRACES_EXPORTER'' = '''' then (Ok [], [])
                 else (case init_tracing lib proto of
                         (Inl e, effs) \<Rightarrow> (Err e, effs) | (Inr p, effs) \<Rightarrow> (Ok [p], effs))) of
             (Inl e, effs) \<Rightarrow> (Err e, effs)
           | (Inr fns, effs) \<Rightarrow>
               if getenv os ''OTEL_METRICS_EXPORTER'' = '''' then (Ok fns, effs)
               else (case init_metrics lib proto of
                       (Inl e, effs') \<Rightarrow> (Err e, effs @ effs' @ snd (run_shutdowns shut fns))
                     | (Inr p, effs') \<Rightarrow> (Ok (fns @ [p]), effs @ effs'))))"

definition first_error :: "('x provider \<Rightarrow> string option) \<Rightarrow> 'x provider list \<Rightarrow> string option \<Rightarrow> string option" where
  "first_error shut ps err = fold (\<lambda>p e. if e = None then shut p else e) ps err"

lemma shut_all_eq: "shut_all shut ps err = (first_error shut ps err, map Shut ps)"
  by (induction ps arbitrary: err) (simp_all add: first_error_def)

lemma run_shutdowns_effects: "snd (run_shutdowns shut fns) = map Shut (rev fns)"
  by (simp add: run_shutdowns_def shut_all_eq)

text \<open>
  Whatever fails, no provider is left running: when the setup fails, each provider it made global
  has been shut down, and when it succeeds, the providers it made global are the ones the returned
  function shuts down, every one of them, the last first, whatever errors the others report.
\<close>

definition providers_set :: "'x effect list \<Rightarrow> 'x provider list" where
  "providers_set effs = concat (map (\<lambda>e. case e of SetGlobal p \<Rightarrow> [p] | _ \<Rightarrow> []) effs)"

definition providers_shut :: "'x effect list \<Rightarrow> 'x provider list" where
  "providers_shut effs = concat (map (\<lambda>e. case e of Shut p \<Rightarrow> [p] | _ \<Rightarrow> []) effs)"

lemma providers_simps [simp]:
  "providers_set [] = []" "providers_set (SetGlobal p # es) = p # providers_set es" "providers_set (SetPropagator # es) = providers_set es"
  "providers_set (Shut p # es) = providers_set es" "providers_shut [] = []" "providers_shut (SetGlobal p # es) = providers_shut es"
  "providers_shut (SetPropagator # es) = providers_shut es" "providers_shut (Shut p # es) = p # providers_shut es"
  by (simp_all add: providers_set_def providers_shut_def)

lemma providers_shut_all: "providers_shut (map Shut ps) = ps"
  by (induction ps) auto

theorem telemetry_released:
  "case otel_init lib shut os service version of
     (Inl e, effs) \<Rightarrow> providers_shut effs = rev (providers_set effs)
   | (Inr fns, effs) \<Rightarrow> providers_set effs = fns \<and> providers_shut effs = [] \<and>
       providers_shut (snd (run_shutdowns shut fns)) = rev fns \<and>
       length fns = of_bool (getenv os ''OTEL_TRACES_EXPORTER'' \<noteq> '''') + of_bool (getenv os ''OTEL_METRICS_EXPORTER'' \<noteq> '''')"
  by (simp add: otel_init_def init_tracing_def init_metrics_def Let_def run_shutdowns_effects providers_shut_all
      split: sum.split)

subsection \<open>The trace in log lines\<close>

definition trace_handle :: "(string \<times> string) option \<Rightarrow> (string \<times> string) list \<Rightarrow> (string \<times> string) list" where
  "trace_handle sc attrs =
     (case sc of None \<Rightarrow> attrs | Some (trace, span) \<Rightarrow> attrs @ [(''trace_id'', trace), (''span_id'', span)])"

subsection \<open>Metrics of the overlay\<close>

definition overlay_collectors :: "string list" where
  "overlay_collectors =
     [''blogflow_overlay_resolve_duration_seconds'', ''blogflow_overlay_layer_hit_total'', ''blogflow_overlay_miss_total'',
      ''blogflow_overlay_negcache_hit_total'', ''blogflow_overlay_negcache_size'', ''blogflow_overlay_path_rejected_total'']"

text \<open>A registerer registers a collector or refuses it; \<open>done\<close> are the ones registered.\<close>

fun register_all ::
  "(string \<Rightarrow> 'r \<Rightarrow> (string, 'r) result) \<Rightarrow> (string \<Rightarrow> 'r \<Rightarrow> 'r) \<Rightarrow> string list \<Rightarrow> string list \<Rightarrow> 'r \<Rightarrow> string option \<times> 'r" where
  "register_all register unregister registered [] r = (None, r)"
| "register_all register unregister registered (c # cs) r =
     (case register c r of
        Inl e \<Rightarrow> (Some (''overlayfs: register metric: '' @ e), fold unregister registered r)
      | Inr r' \<Rightarrow> register_all register unregister (registered @ [c]) cs r')"

definition new_overlay_metrics ::
  "(string \<Rightarrow> 'r \<Rightarrow> (string, 'r) result) \<Rightarrow> (string \<Rightarrow> 'r \<Rightarrow> 'r) \<Rightarrow> 'r \<Rightarrow> string option \<times> 'r" where
  "new_overlay_metrics register unregister r = register_all register unregister [] overlay_collectors r"

text \<open>The options of an overlay, up to the first that fails.\<close>

fun with_options :: "('o \<Rightarrow> string option \<times> 'o) list \<Rightarrow> 'o \<Rightarrow> string option \<times> 'o" where
  "with_options [] o' = (None, o')"
| "with_options (opt # opts) o' =
     (case opt o' of
        (Some e, o'') \<Rightarrow> (Some (''overlayfs: apply option: '' @ e), o'')
      | (None, o'') \<Rightarrow> with_options opts o'')"

lemma fold_unregister:
  assumes "\<And>c r. holds (unregister c r) = holds r - {c}"
  shows "holds (fold unregister cs r) = holds r - set cs"
  by (induction cs arbitrary: r) (auto simp: assms)

lemma register_all_holds:
  assumes reg: "\<And>c r r'. register c r = Ok r' \<Longrightarrow> c \<notin> holds r \<and> holds r' = insert c (holds r)"
    and un: "\<And>c r. holds (unregister c r) = holds r - {c}"
    and "base \<inter> set registered = {}" "holds r = base \<union> set registered"
  shows "case register_all register unregister registered cs r of
      (Some e, r') \<Rightarrow> holds r' = base
    | (None, r') \<Rightarrow> holds r' = base \<union> set registered \<union> set cs \<and> base \<inter> set cs = {}"
  using assms(3,4)
proof (induction cs arbitrary: registered r)
  case (Cons c cs)
  show ?case
  proof (cases "register c r")
    case (Inl e)
    then show ?thesis using Cons.prems by (auto simp: fold_unregister [of holds, OF un])
  next
    case (Inr r')
    have "c \<notin> holds r" "holds r' = insert c (holds r)" using reg [OF Inr] by auto
    then have "base \<inter> set (registered @ [c]) = {}" "holds r' = base \<union> set (registered @ [c])" "c \<notin> base"
      using Cons.prems by auto
    from Cons.IH [OF this(1,2)] this(3) show ?thesis by (auto simp: Inr split: prod.splits option.splits)
  qed
qed auto

text \<open>
  The metrics are registered all or none. \<open>holds\<close> is what a registry has registered; a registry
  accepts a collector only once and forgets exactly the one it unregisters.
\<close>

theorem metrics_all_or_none:
  assumes "\<And>c r r'. register c r = Ok r' \<Longrightarrow> c \<notin> holds r \<and> holds r' = insert c (holds r)"
    and "\<And>c r. holds (unregister c r) = holds r - {c}"
  shows "case new_overlay_metrics register unregister r of
      (Some e, r') \<Rightarrow> holds r' = holds r
    | (None, r') \<Rightarrow> holds r' = holds r \<union> set overlay_collectors \<and> holds r \<inter> set overlay_collectors = {}"
  using register_all_holds [of register holds unregister "holds r" "[]" r overlay_collectors, OF assms]
  by (simp add: new_overlay_metrics_def split: prod.splits option.splits)

theorem metrics_all_or_none_witness:
  "snd (new_overlay_metrics (\<lambda>c r. if c \<in> r then Err ''duplicate'' else Ok (insert c r)) (\<lambda>c r. r - {c})
     {''blogflow_overlay_miss_total''}) = {''blogflow_overlay_miss_total''}"
proof -
  let ?reg = "\<lambda>c r. if c \<in> r then Err ''duplicate'' else Ok (insert c r)" and ?un = "\<lambda>c r. r - {c}"
    and ?r = "{''blogflow_overlay_miss_total''}"
  have "case new_overlay_metrics ?reg ?un ?r of (Some e, r') \<Rightarrow> r' = ?r
      | (None, r') \<Rightarrow> r' = ?r \<union> set overlay_collectors \<and> ?r \<inter> set overlay_collectors = {}"
    by (rule metrics_all_or_none [where holds = "\<lambda>r. r"]) (auto split: if_splits)
  moreover have "''blogflow_overlay_miss_total'' \<in> set overlay_collectors" by (simp add: overlay_collectors_def)
  ultimately show ?thesis by (auto split: prod.splits option.splits)
qed

end
