(* ===== verification/Spec2Isabelle.thy ===== *)
theory Spec2Isabelle
  imports Overlay_Thms Overlay_Race Context_Overlay Rate_Limiter Webhook_Thms Front_Matter Content_Cache Scanner
    Renderer Config Config_Watch Sync Git_Pull Search_Query Feeds Reload Server Links Delivery Startup Lifecycle Telemetry
begin

text \<open>
  BlogFlow is a blog engine in Go: one process that reads Markdown posts through a stack of
  directories, serves them over HTTP with feeds and a full-text search, and reloads them when a
  webhook, a file watcher or a git poll says so. This library models the implementation under
  \<open>cmd/blogflow\<close> and \<open>internal\<close> and proves what makes it correct. The definitions keep the
  names of the code in snake case; a definition stands in the theory of its package or file, in the
  order of the code.

  The parts and how they interact.

  The start (\<open>main\<close>) opens the \<^bold>\<open>overlay\<close> of the theme, content, configuration and built-in
  directories, \<^bold>\<open>loads the configuration\<close>, brings the content repository up to date with \<^bold>\<open>git\<close>,
  \<^bold>\<open>scans\<close> the content into an index, loads the \<^bold>\<open>theme\<close>, builds the \<^bold>\<open>search index\<close>, and wires the
  \<^bold>\<open>page handlers\<close> into the \<^bold>\<open>server\<close>. They all share one value of type \<open>deps\<close>, whose atomic pointers
  are its fields. The \<^bold>\<open>synchronisation strategies\<close> call the reloader, which reloads configuration,
  theme and content and publishes index and search index as one snapshot.

  Theories, bottom up.

  \<^item> Go itself. \<open>Prelude\<close>: results, runs of operations, the locale \<open>bounded_store\<close>, paging.
    \<open>Go_Strings\<close>, \<open>Go_Paths\<close>: the parts of \<open>strings\<close>, \<open>path\<close>, \<open>unicode/utf8\<close>, \<open>strconv\<close> the code
    uses, on byte strings. \<open>Go_List\<close>: \<open>container/list\<close> with a map into it, as the recency lists use
    them. \<open>Http\<close>: requests, response writers, redirects and escapes of \<open>net/http\<close> and \<open>net/url\<close>.
  \<^item> \<open>internal/overlayfs\<close>. \<open>Neg_Cache\<close>, \<open>Neg_Cache_Inv\<close>: the sharded negative cache and its invariant,
    with the interface \<open>negative_cache\<close> the overlay relies on. \<open>Layer_FS\<close>: layers, path screening,
    symlinks, the directory handle that hides \<open>.git\<close>. \<open>Overlay\<close>: the operations. \<open>Overlay_Spec\<close>: the
    overlay without a cache. \<open>Overlay_Thms\<close>: the cached overlay refines it; confinement; merged
    directories. \<open>Overlay_Race\<close>: resolvers, invalidations and replacements interleaved.
    \<open>Context_Overlay\<close>: the operations under a request context.
  \<^item> \<open>internal/content\<close>. \<open>Front_Matter\<close>: metadata, slugs, link sanitizer, text helpers. \<open>Scanner\<close>: the
    two passes of the scan in both modes, and the index. \<open>Renderer\<close>: options and limits of the
    Markdown renderer. \<open>Content_Cache\<close>: the cache of rendered pages.
  \<^item> \<open>internal/config\<close>, \<open>internal/envfile\<close>. \<open>Secret_Scan\<close>: screening of the file for secrets and
    aliases. \<open>Config\<close>: sections, defaults, redaction, validation. \<open>Env_File\<close>: secrets from files and
    git credentials (\<open>gitops/auth.go\<close>). \<open>Config_Load\<close>: \<open>Load\<close> and \<open>Reload\<close>. \<open>Debounce\<close>,
    \<open>Config_Watch\<close>: the debounced watcher.
  \<^item> \<open>internal/gitops\<close>. \<open>Rate_Limiter\<close>, \<open>Webhook\<close>, \<open>Webhook_Thms\<close>: the webhook with its budgets.
    \<open>Sync\<close>: watcher, sidecar, polling and their factory. \<open>Git_Pull\<close>: clone and pull, sparse
    checkouts, and where credentials go.
  \<^item> \<open>internal/search\<close>. \<open>Search_Index\<close>: tokens and the build with its caps. \<open>Search_Query\<close>: ranking,
    paging, excerpts.
  \<^item> \<open>internal/theme\<close>, \<open>internal/server\<close>. \<open>Theme\<close>: templates and their functions. \<open>Handlers\<close>: pages,
    lists, tags, search. \<open>Feeds\<close>: feed, sitemap, conditional responses. \<open>Client_IP\<close>: the client
    behind proxies. \<open>Server\<close>: routes, middleware, health. \<open>Links\<close>: the routes of the site, and that
    its links resolve. \<open>Delivery\<close>: a webhook delivery from the request to the page.
  \<^item> \<open>cmd/blogflow\<close>, \<open>internal/otel\<close>. \<open>Reload\<close>: snapshots and the reloader. \<open>Startup\<close>: the start in
    its order, with every exit. \<open>Lifecycle\<close>: the goroutines of the running process and its
    shutdown. \<open>Telemetry\<close>: setup and rollback of telemetry, registration of metrics.

  State and effects. A struct is a record and an operation returns it updated; a fallible
  function returns a \<open>result\<close> whose left side is the code's error; a panic is a value too (\<open>exit\<close>,
  \<open>boot_failure\<close>). Where the interleaving matters the operations are split into steps of an
  inductive relation (\<open>race_step\<close>, \<open>reload_step\<close>, \<open>lc_step\<close>); elsewhere an operation runs as a
  whole, as its lock makes it. Integers that may wrap are words (the generation of the negative
  cache, its hash) or are wrapped where the code computes with them (\<open>wrap_int\<close>).

  What the lemmas show. Invariants kept by every operation (negative cache, rate limiter,
  recency lists, page cache, index, loader, snapshots, process); refinement of a simpler
  description (cached by uncached overlay, rate limiter by a window per address, page cache by
  a memo of the renderer, search index by the inverted index of the posts); what each request
  or delivery answers on every branch; what never happens (a read outside a layer, a credential
  in an error or in a stored URL, a header missing, a forged client address, an unauthenticated
  request that affects a verified one); that debounced events are followed by a reload; that
  the start fails only where the environment does; that a signal ends the process. The locales
  \<open>bounded_store\<close>, \<open>negative_cache\<close>, \<open>debounced\<close>, \<open>secure_handler\<close> and the weaker \<open>front_handler\<close>
  of the home page state what a client needs of a store, a cache, an event loop and a handler; each is interpreted on every model that provides
  it.

  Bounds. No definition has fuel: recursions that are not structural decrease a measure, and
  the one loop whose end is not evident (\<open>make_room\<close> of the rate limiter) is a partial function,
  proved to return. A run of \<open>Lifecycle\<close> has at most sixteen steps beside its requests, the
  weight of its first state.

  Parameters. What the code calls and the repository does not hold enters as a record of
  functions: the operating system (directories, symlinks, environment, clocks as the time of an
  operation), the parsers of \<open>net\<close>, \<open>net/netip\<close> and \<open>net/url\<close>, \<open>time.ParseDuration\<close>, YAML and JSON,
  \<open>encoding/xml\<close>, \<open>html/template\<close>, goldmark, SHA-256 and HMAC, Unicode tables, normal forms and
  \<open>strings.ToLower\<close>, \<open>float64\<close> arithmetic, go-git, fsnotify, Prometheus and OpenTelemetry. Theorems
  that need something of them say it as a hypothesis.

  Not modelled. Log lines (but for the access log), spans, histograms and the wording of a few
  errors; flag parsing and the version commands; timeouts of connections; the file server and
  the metrics page, which are handlers passed in; of \<open>http.ServeMux\<close> escaped paths and conflicts
  between patterns; \<open>embed.go\<close>, whose files are a layer passed in; test hooks, and \<open>remoteIP\<close>,
  which nothing calls. Memory is unbounded, and goroutines are interleaved step by step, with
  atomic loads and stores.
\<close>

end
